(* ===== verification/Drm_Prelude.thy ===== *)
theory Drm_Prelude
  imports Main "HOL-Library.Word"
begin

text \<open>
  Shared vocabulary of the development: the C integer types at their widths
  (the LP64 model: \<^verbatim>\<open>unsigned long\<close> has 64 bits), the error values the
  kernel functions return, the operations of the kernel's circular lists as
  operations on HOL lists, and the generic lemmas the component theories share.
\<close>

unbundle bit_operations_syntax

section \<open>Machine integers\<close>

type_synonym u8 = "8 word"
type_synonym u16 = "16 word"
type_synonym u32 = "32 word"
type_synonym u64 = "64 word"
type_synonym ulong = "64 word"

text \<open>Addresses of objects.\<close>

type_synonym ptr = nat

section \<open>Errors\<close>

text \<open>
  A function that returns a negative \<^verbatim>\<open>errno\<close> returns \<^term>\<open>Inl\<close> of it; a
  \<^verbatim>\<open>BUG_ON\<close> whose condition holds stops the machine and is the error
  \<open>BUG\<close>.
\<close>

datatype err = ENOMEM | ENOSPC | EINVAL | EBUSY | EINTR | ERANGE | EPERM | EACCES
  | ENOENT | ENODEV | ERESTARTSYS | EFAULT | EAGAIN | EIO | BUG

text \<open>Sequencing of operations that may fail: the first failure is the result.\<close>

definition bnd :: "'e + 'a \<Rightarrow> ('a \<Rightarrow> 'e + 'b) \<Rightarrow> 'e + 'b" where
  "bnd r f = (case r of Inl e \<Rightarrow> Inl e | Inr x \<Rightarrow> f x)"

lemma bnd_simps [simp]: "bnd (Inl e) f = Inl e" "bnd (Inr x) f = f x"
  by (simp_all add: bnd_def)

lemma bnd_Inr_iff: "bnd r f = Inr y \<longleftrightarrow> (\<exists>x. r = Inr x \<and> f x = Inr y)"
  by (cases r) simp_all

lemma bnd_assoc: "bnd (bnd r f) g = bnd r (\<lambda>x. bnd (f x) g)"
  by (cases r) simp_all

text \<open>
  Undefined behaviour of C and accidents: an access outside of an array, a shift by at least the width, a read of an
  uninitialised variable, a call or an access through a null pointer, an access to a freed object, a division by zero, and a
  loop of the model that ran out of fuel.
\<close>

datatype trap = Oob | Bad_shift | Uninit | Null_call | Null_deref | Use_after_free | Div_by_zero | Out_of_fuel

definition aget :: "'a list \<Rightarrow> nat \<Rightarrow> trap + 'a" where
  "aget xs i = (if i < length xs then Inr (xs ! i) else Inl Oob)"

definition aput :: "'a list \<Rightarrow> nat \<Rightarrow> 'a \<Rightarrow> trap + 'a list" where
  "aput xs i v = (if i < length xs then Inr (xs[i := v]) else Inl Oob)"

text \<open>\<^verbatim>\<open>memcpy\<close> out of an array and into an array.\<close>

definition aslice :: "'a list \<Rightarrow> nat \<Rightarrow> nat \<Rightarrow> trap + 'a list" where
  "aslice xs off n = (if off + n \<le> length xs then Inr (take n (drop off xs)) else Inl Oob)"

definition ablit :: "'a list \<Rightarrow> nat \<Rightarrow> 'a list \<Rightarrow> trap + 'a list" where
  "ablit xs off ys =
     (if off + length ys \<le> length xs then Inr (take off xs @ ys @ drop (off + length ys) xs) else Inl Oob)"

text \<open>What holds of the result of a computation that does not fail.\<close>

definition sat :: "('a \<Rightarrow> bool) \<Rightarrow> 'e + 'a \<Rightarrow> bool" where
  "sat P r \<longleftrightarrow> (\<forall>x. r = Inr x \<longrightarrow> P x)"

lemma sat_Inr [simp]: "sat P (Inr x) = P x"
  and sat_Inl [simp]: "sat P (Inl e)"
  by (simp_all add: sat_def)

lemma sat_bnd: "(\<And>x. r = Inr x \<Longrightarrow> sat P (f x)) \<Longrightarrow> sat P (bnd r f)"
  by (cases r) simp_all

lemma sat_if: "(b \<Longrightarrow> sat P x) \<Longrightarrow> (\<not> b \<Longrightarrow> sat P y) \<Longrightarrow> sat P (if b then x else y)"
  by simp

section \<open>Collections of rewrite rules\<close>

named_theorems list_ops \<open>rules for the kernel list operations\<close>
named_theorems bit_ops \<open>rules for flag words\<close>

section \<open>Kernel lists\<close>

text \<open>
  A circular \<^verbatim>\<open>list_head\<close> is the HOL list of its entries, in the order a forward
  walk visits them, the list head itself left out.  \<open>insert_after p x xs\<close> is
  \<^verbatim>\<open>list_add(x, p)\<close> and \<open>insert_before p x xs\<close> is \<^verbatim>\<open>list_add_tail(x, p)\<close> for an
  entry \<open>p\<close> of the list; \<open>remove1 x xs\<close> is \<^verbatim>\<open>list_del(x)\<close>.
\<close>

fun insert_after :: "'a \<Rightarrow> 'a \<Rightarrow> 'a list \<Rightarrow> 'a list" where
  "insert_after p x [] = []"
| "insert_after p x (y # ys) = (if y = p then y # x # ys else y # insert_after p x ys)"

fun insert_before :: "'a \<Rightarrow> 'a \<Rightarrow> 'a list \<Rightarrow> 'a list" where
  "insert_before p x [] = []"
| "insert_before p x (y # ys) = (if y = p then x # y # ys else y # insert_before p x ys)"

text \<open>The entry after and the entry before \<open>p\<close>; \<^term>\<open>None\<close> stands for the list head.\<close>

fun next_of :: "'a \<Rightarrow> 'a list \<Rightarrow> 'a option" where
  "next_of p [] = None"
| "next_of p [y] = None"
| "next_of p (y # z # zs) = (if y = p then Some z else next_of p (z # zs))"

fun prev_of :: "'a \<Rightarrow> 'a list \<Rightarrow> 'a option" where
  "prev_of p [] = None"
| "prev_of p [y] = None"
| "prev_of p (y # z # zs) = (if z = p then Some y else prev_of p (z # zs))"

lemma insert_after_split [list_ops]:
  "p \<notin> set xs \<Longrightarrow> insert_after p x (xs @ p # ys) = xs @ p # x # ys"
  by (induction xs) auto

lemma insert_before_split [list_ops]:
  "p \<notin> set xs \<Longrightarrow> insert_before p x (xs @ p # ys) = xs @ x # p # ys"
  by (induction xs) auto

lemma next_of_split [list_ops]:
  "p \<notin> set xs \<Longrightarrow> next_of p (xs @ p # ys) = (case ys of [] \<Rightarrow> None | y # _ \<Rightarrow> Some y)"
proof (induction xs)
  case Nil
  show ?case by (cases ys) auto
next
  case (Cons a xs)
  then show ?case by (cases xs) auto
qed

lemma prev_of_split [list_ops]:
  "p \<notin> set xs \<Longrightarrow> p \<notin> set ys \<Longrightarrow>
    prev_of p (xs @ p # ys) = (if xs = [] then None else Some (last xs))"
proof (induction xs)
  case Nil
  have "p \<notin> set zs \<Longrightarrow> prev_of p (q # zs) = None" for q zs
    by (induction zs arbitrary: q) auto
  with Nil show ?case by simp
next
  case (Cons a xs)
  then show ?case by (cases xs) auto
qed

lemma remove1_split [list_ops]:
  "p \<notin> set xs \<Longrightarrow> remove1 p (xs @ p # ys) = xs @ ys"
  by (simp add: remove1_append)

lemma set_insert_after: "p \<in> set xs \<Longrightarrow> set (insert_after p x xs) = insert x (set xs)"
  by (induction xs) auto

lemma set_insert_before: "p \<in> set xs \<Longrightarrow> set (insert_before p x xs) = insert x (set xs)"
  by (induction xs) auto

lemma distinct_insert_after: "distinct xs \<Longrightarrow> x \<notin> set xs \<Longrightarrow> distinct (insert_after p x xs)"
proof (induction xs)
  case (Cons y ys)
  have "set (insert_after p x ys) \<subseteq> insert x (set ys)"
    by (induction ys) auto
  with Cons show ?case by auto
qed simp

section \<open>Words\<close>

lemma unat_2_power:
  "n < LENGTH('a::len) \<Longrightarrow> unat (2 ^ n :: 'a word) = 2 ^ n"
proof -
  assume "n < LENGTH('a)"
  then have "(2::nat) ^ n < 2 ^ LENGTH('a)" by simp
  moreover have "(2 ^ n :: 'a word) = of_nat (2 ^ n)" by simp
  ultimately show ?thesis by (simp only: unat_of_nat mod_less)
qed

lemma unat_of_nat_small: "n < 2 ^ LENGTH('a::len) \<Longrightarrow> unat (of_nat n :: 'a word) = n"
  by (simp add: unat_of_nat)

lemma of_nat_word_inject:
  "m < 2 ^ LENGTH('a::len) \<Longrightarrow> n < 2 ^ LENGTH('a) \<Longrightarrow> (of_nat m :: 'a word) = of_nat n \<longleftrightarrow> m = n"
  by (metis unat_of_nat_small)

lemma of_nat_and_mask:
  "(of_nat n :: 'a::len word) AND mask b = of_nat (n mod 2 ^ b)"
  unfolding take_bit_eq_mask [symmetric] take_bit_of_nat by (simp add: take_bit_eq_mod)

lemma unat_ucast_up:
  fixes x :: "'a::len word"
  assumes "LENGTH('a) \<le> LENGTH('b::len)"
  shows "unat (ucast x :: 'b word) = unat x"
proof -
  have "unat x < 2 ^ LENGTH('a)" by (rule unsigned_less)
  also have "(2::nat) ^ LENGTH('a) \<le> 2 ^ LENGTH('b)" using assms by simp
  finally show ?thesis by (simp add: unsigned_ucast_eq take_bit_nat_eq_self)
qed

lemma unat_ucast_small:
  fixes x :: "'a::len word"
  assumes "unat x < 2 ^ LENGTH('b::len)"
  shows "unat (ucast x :: 'b word) = unat x"
  using assms by (simp add: unsigned_ucast_eq take_bit_nat_eq_self)

section \<open>Reachable states and invariants\<close>

text \<open>
  The states a step relation reaches from its initial states, and the interface every state
  machine of the development implements: an invariant that holds initially and that every
  step keeps holds in every reachable state.
\<close>

inductive reach :: "('s \<Rightarrow> bool) \<Rightarrow> ('s \<Rightarrow> 's \<Rightarrow> bool) \<Rightarrow> 's \<Rightarrow> bool" for ini step where
  reach_init: "ini s \<Longrightarrow> reach ini step s"
| reach_step: "reach ini step s \<Longrightarrow> step s t \<Longrightarrow> reach ini step t"

locale invariant_system =
  fixes ini :: "'s \<Rightarrow> bool"
    and step :: "'s \<Rightarrow> 's \<Rightarrow> bool"
    and inv :: "'s \<Rightarrow> bool"
  assumes inv_init: "ini s \<Longrightarrow> inv s"
    and inv_step: "inv s \<Longrightarrow> step s t \<Longrightarrow> inv t"
begin

lemma reach_inv: "reach ini step s \<Longrightarrow> inv s"
  by (induction rule: reach.induct) (auto intro: inv_init inv_step)

end

section \<open>Sequences of operations and their specification\<close>

text \<open>
  A component as a client sees it: \<open>exec\<close> runs one operation on the state and returns its output.  Its specification
  is a relation between an abstract state before an operation, the output and the abstract state after it.
\<close>

fun run_ops :: "('op \<Rightarrow> 's \<Rightarrow> 'e + 'out \<times> 's) \<Rightarrow> 'op list \<Rightarrow> 's \<Rightarrow> 'e + 'out list \<times> 's" where
  "run_ops exec [] s = Inr ([], s)"
| "run_ops exec (x # xs) s =
     bnd (exec x s) (\<lambda>(out, s). bnd (run_ops exec xs s) (\<lambda>(outs, s). Inr (out # outs, s)))"

fun spec_run :: "('op \<Rightarrow> 'a \<Rightarrow> 'out \<Rightarrow> 'a \<Rightarrow> bool) \<Rightarrow> 'op list \<Rightarrow> 'a \<Rightarrow> 'out list \<Rightarrow> 'a \<Rightarrow> bool" where
  "spec_run spec [] a outs a' \<longleftrightarrow> outs = [] \<and> a' = a"
| "spec_run spec (x # xs) a [] a' \<longleftrightarrow> False"
| "spec_run spec (x # xs) a (out # outs) a' \<longleftrightarrow> (\<exists>b. spec x a out b \<and> spec_run spec xs b outs a')"

text \<open>
  The contract of a component that implements its specification.  The invariant may depend on the number of
  operations still to come, for components whose counters must not overflow.
\<close>

locale refinement =
  fixes inv :: "nat \<Rightarrow> 's \<Rightarrow> bool"
    and abs :: "'s \<Rightarrow> 'a"
    and ok :: "'op \<Rightarrow> bool"
    and exec :: "'op \<Rightarrow> 's \<Rightarrow> 'e + 'out \<times> 's"
    and spec :: "'op \<Rightarrow> 'a \<Rightarrow> 'out \<Rightarrow> 'a \<Rightarrow> bool"
  assumes simulation: "inv (Suc k) s \<Longrightarrow> ok x \<Longrightarrow>
    \<exists>out s'. exec x s = Inr (out, s') \<and> inv k s' \<and> spec x (abs s) out (abs s')"
begin

lemma run_refines:
  assumes "inv (length xs) s" and "list_all ok xs"
  shows "\<exists>outs s'. run_ops exec xs s = Inr (outs, s') \<and> inv 0 s' \<and> spec_run spec xs (abs s) outs (abs s')"
  using assms
proof (induction xs arbitrary: s)
  case (Cons x xs)
  then obtain out s1 where 1: "exec x s = Inr (out, s1)" "inv (length xs) s1" "spec x (abs s) out (abs s1)"
    using simulation by fastforce
  from Cons.IH [OF 1(2)] Cons.prems obtain outs s2
    where "run_ops exec xs s1 = Inr (outs, s2)" "inv 0 s2" "spec_run spec xs (abs s1) outs (abs s2)" by auto
  with 1 show ?case by (intro exI [of _ "out # outs"] exI [of _ s2]) auto
qed simp

end

end
