(* ===== verification/Drm_Hashtab.thy ===== *)
theory Drm_Hashtab
  imports Drm_Prelude
begin

text \<open>
  The chained hash table of \<^verbatim>\<open>drm_hashtab.c\<close>: \<open>2 ^ order\<close> chains, each sorted by
  strictly increasing key.  The items are embedded in their owners, so an item of the model is
  its key and a reference to the owner.  \<^verbatim>\<open>hash_long\<close> of \<^verbatim>\<open>linux/hash.h\<close> is an argument
  \<open>hl\<close> of the operations; that its result has at most \<open>order\<close> bits, as its documentation
  promises, is part of the table invariant.
  The theory shows that the table implements a finite map (the locale \<open>key_table\<close>), that
  \<^verbatim>\<open>drm_ht_just_insert_please\<close> ends and fails only when its whole key space is used, and
  that a table is freed by the allocator it came from.
\<close>

section \<open>Data and operations\<close>

record 'v hash_item =
  key :: ulong
  owner :: 'v

text \<open>The allocator a table came from.\<close>

datatype allocator = Kmalloc | Vmalloc

record 'v open_hash =
  order :: nat
  table :: "('v hash_item list list \<times> allocator) option"

text \<open>
  \<open>per_page\<close> is \<^verbatim>\<open>PAGE_SIZE / sizeof(*ht->table)\<close>; \<open>mem\<close> says whether the allocation
  succeeds.  \<^verbatim>\<open>1 << order\<close> is computed at the width of \<^verbatim>\<open>unsigned int\<close>.
\<close>

definition drm_ht_create :: "nat \<Rightarrow> bool \<Rightarrow> nat \<Rightarrow> 'v open_hash \<Rightarrow> 'v open_hash \<times> err option" where
  "drm_ht_create per_page mem ord ht =
     (let size = push_bit ord (1 :: u32);
          ht = ht\<lparr>order := ord, table := None\<rparr>;
          a = (if unat size \<le> per_page then Kmalloc else Vmalloc)
      in if mem then (ht\<lparr>table := Some (replicate (unat size) [], a)\<rparr>, None)
         else (ht, Some ENOMEM))"

text \<open>The walk of a chain: stop at the key, or at the first greater key.\<close>

fun chain_find :: "'v hash_item list \<Rightarrow> ulong \<Rightarrow> 'v hash_item option" where
  "chain_find [] k = None"
| "chain_find (e # es) k =
     (if key e = k then Some e else if key e > k then None else chain_find es k)"

fun chain_insert :: "'v hash_item list \<Rightarrow> 'v hash_item \<Rightarrow> err + 'v hash_item list" where
  "chain_insert [] i = Inr [i]"
| "chain_insert (e # es) i =
     (if key e = key i then Inl EINVAL
      else if key e > key i then Inr (i # e # es)
      else case chain_insert es i of Inl x \<Rightarrow> Inl x | Inr es' \<Rightarrow> Inr (e # es'))"

definition ht_chains :: "'v open_hash \<Rightarrow> 'v hash_item list list" where
  "ht_chains ht = (case table ht of None \<Rightarrow> [] | Some (t, _) \<Rightarrow> t)"

definition set_chains :: "'v hash_item list list \<Rightarrow> 'v open_hash \<Rightarrow> 'v open_hash" where
  "set_chains cs ht = ht\<lparr>table := map_option (\<lambda>(_, a). (cs, a)) (table ht)\<rparr>"

text \<open>
  A table is indexed by the hash of the key.  An index past the end of the table is undefined
  in the source; the model finds no item there and changes nothing.
\<close>

definition chain_of :: "(ulong \<Rightarrow> nat \<Rightarrow> nat) \<Rightarrow> 'v open_hash \<Rightarrow> ulong \<Rightarrow> 'v hash_item list" where
  "chain_of hl ht k = (let i = hl k (order ht) in if i < length (ht_chains ht) then ht_chains ht ! i else [])"

definition drm_ht_find_key :: "(ulong \<Rightarrow> nat \<Rightarrow> nat) \<Rightarrow> 'v open_hash \<Rightarrow> ulong \<Rightarrow> 'v hash_item option" where
  "drm_ht_find_key hl ht k = chain_find (chain_of hl ht k) k"

definition drm_ht_find_key_rcu :: "(ulong \<Rightarrow> nat \<Rightarrow> nat) \<Rightarrow> 'v open_hash \<Rightarrow> ulong \<Rightarrow> 'v hash_item option" where
  "drm_ht_find_key_rcu hl ht k = chain_find (chain_of hl ht k) k"

definition drm_ht_insert_item ::
  "(ulong \<Rightarrow> nat \<Rightarrow> nat) \<Rightarrow> 'v open_hash \<Rightarrow> 'v hash_item \<Rightarrow> err + 'v open_hash" where
  "drm_ht_insert_item hl ht i =
     (case chain_insert (chain_of hl ht (key i)) i of
        Inl e \<Rightarrow> Inl e
      | Inr c \<Rightarrow> Inr (set_chains ((ht_chains ht)[hl (key i) (order ht) := c]) ht))"

text \<open>
  The loop of \<^verbatim>\<open>drm_ht_just_insert_please\<close>: the key is \<open>(u << shift) + add\<close> and \<open>u\<close>
  runs cyclically through the values of \<open>bits\<close> bits, \<open>bits\<close> below 31.  Fuel bounds the number of iterations;
  \<^term>\<open>None\<close> is fuel used up.
\<close>

fun just_insert_loop ::
  "nat \<Rightarrow> (ulong \<Rightarrow> nat \<Rightarrow> nat) \<Rightarrow> 'v open_hash \<Rightarrow> 'v hash_item \<Rightarrow> ulong \<Rightarrow> ulong \<Rightarrow> ulong \<Rightarrow> nat \<Rightarrow> ulong
     \<Rightarrow> (err + 'v open_hash \<times> 'v hash_item) option" where
  "just_insert_loop 0 hl ht i first u msk shift add = None"
| "just_insert_loop (Suc fuel) hl ht i first u msk shift add =
     (let i = i\<lparr>key := push_bit shift u + add\<rparr>
      in case drm_ht_insert_item hl ht i of
           Inr ht' \<Rightarrow> Some (Inr (ht', i))
         | Inl e \<Rightarrow>
             (let u = (u + 1) AND msk
              in if u \<noteq> first then just_insert_loop fuel hl ht i first u msk shift add
                 else Some (Inl EINVAL)))"

definition drm_ht_just_insert_please ::
  "nat \<Rightarrow> (ulong \<Rightarrow> nat \<Rightarrow> nat) \<Rightarrow> 'v open_hash \<Rightarrow> 'v hash_item \<Rightarrow> ulong \<Rightarrow> nat \<Rightarrow> nat \<Rightarrow> ulong
     \<Rightarrow> (err + 'v open_hash \<times> 'v hash_item) option" where
  "drm_ht_just_insert_please fuel hl ht i seed bits shift add =
     (let msk = ucast (push_bit bits (1 :: u32) - 1); u = of_nat (hl seed bits)
      in just_insert_loop fuel hl ht i u u msk shift add)"

definition drm_ht_find_item ::
  "(ulong \<Rightarrow> nat \<Rightarrow> nat) \<Rightarrow> 'v open_hash \<Rightarrow> ulong \<Rightarrow> err + 'v hash_item" where
  "drm_ht_find_item hl ht k =
     (case drm_ht_find_key_rcu hl ht k of None \<Rightarrow> Inl EINVAL | Some i \<Rightarrow> Inr i)"

text \<open>Unlinking an item by its address takes it out of whatever chain it is in.\<close>

definition hlist_del :: "'v hash_item \<Rightarrow> 'v open_hash \<Rightarrow> 'v open_hash" where
  "hlist_del i ht = set_chains (map (remove1 i) (ht_chains ht)) ht"

definition drm_ht_remove_key ::
  "(ulong \<Rightarrow> nat \<Rightarrow> nat) \<Rightarrow> 'v open_hash \<Rightarrow> ulong \<Rightarrow> err + 'v open_hash" where
  "drm_ht_remove_key hl ht k =
     (case drm_ht_find_key hl ht k of Some i \<Rightarrow> Inr (hlist_del i ht) | None \<Rightarrow> Inl EINVAL)"

definition drm_ht_remove_item :: "'v open_hash \<Rightarrow> 'v hash_item \<Rightarrow> 'v open_hash" where
  "drm_ht_remove_item ht i = hlist_del i ht"

text \<open>Freeing the table returns the allocator whose free function was called.\<close>

definition drm_ht_remove :: "nat \<Rightarrow> 'v open_hash \<Rightarrow> 'v open_hash \<times> allocator option" where
  "drm_ht_remove per_page ht =
     (if table ht \<noteq> None
      then (ht\<lparr>table := None\<rparr>, Some (if drop_bit (order ht) per_page \<noteq> 0 then Kmalloc else Vmalloc))
      else (ht, None))"

section \<open>Chains\<close>

definition sorted_chain :: "'v hash_item list \<Rightarrow> bool" where
  "sorted_chain c = sorted_wrt (<) (map key c)"

lemma sorted_chain_simps [simp]:
  "sorted_chain []"
  "sorted_chain (e # es) \<longleftrightarrow> (\<forall>x \<in> set es. key e < key x) \<and> sorted_chain es"
  by (auto simp: sorted_chain_def)

lemma chain_find_Some:
  "sorted_chain c \<Longrightarrow> chain_find c k = Some e \<longleftrightarrow> e \<in> set c \<and> key e = k"
proof (induction c)
  case (Cons a c)
  then show ?case by (cases "key a" k rule: linorder_cases) auto
qed simp

lemma chain_insert_dup:
  "sorted_chain c \<Longrightarrow> e \<in> set c \<Longrightarrow> key e = key i \<Longrightarrow> chain_insert c i = Inl EINVAL"
proof (induction c)
  case (Cons a c)
  then show ?case by (cases "key a" "key i" rule: linorder_cases) auto
qed simp

lemma chain_insert_new:
  "sorted_chain c \<Longrightarrow> \<forall>e \<in> set c. key e \<noteq> key i \<Longrightarrow>
    \<exists>c'. chain_insert c i = Inr c' \<and> sorted_chain c' \<and> set c' = insert i (set c)"
proof (induction c)
  case (Cons e es)
  then obtain es' where es': "chain_insert es i = Inr es'" "sorted_chain es'"
    "set es' = insert i (set es)"
    by auto
  show ?case
  proof (cases "key e" "key i" rule: linorder_cases)
    case less
    with Cons.prems es' show ?thesis by auto
  next
    case greater
    with Cons.prems have "\<forall>x \<in> set es. key i < key x" by (auto intro: less_trans)
    with greater Cons.prems show ?thesis by auto
  qed (use Cons.prems in auto)
qed simp

lemma sorted_chain_remove1: "sorted_chain c \<Longrightarrow> sorted_chain (remove1 i c)"
  by (induction c) (auto dest: notin_set_remove1 in_set_remove1 [THEN iffD1] set_remove1_subset [THEN subsetD])

lemma sorted_chain_distinct: "sorted_chain c \<Longrightarrow> distinct c"
  by (induction c) auto

section \<open>The table invariant\<close>

definition ht_inv :: "(ulong \<Rightarrow> nat \<Rightarrow> nat) \<Rightarrow> 'v open_hash \<Rightarrow> bool" where
  "ht_inv hl ht \<longleftrightarrow> table ht \<noteq> None \<and> (\<forall>k. hl k (order ht) < length (ht_chains ht)) \<and>
     (\<forall>n < length (ht_chains ht). sorted_chain (ht_chains ht ! n) \<and>
        (\<forall>e \<in> set (ht_chains ht ! n). hl (key e) (order ht) = n))"

lemma chains_set_chains [simp]: "table ht \<noteq> None \<Longrightarrow> ht_chains (set_chains cs ht) = cs"
  by (auto simp: ht_chains_def set_chains_def)

lemma set_chains_simps [simp]:
  "order (set_chains cs ht) = order ht" "(table (set_chains cs ht) = None) = (table ht = None)"
  by (auto simp: set_chains_def)

lemma ht_inv_chain_of:
  "ht_inv hl ht \<Longrightarrow> chain_of hl ht k = ht_chains ht ! hl k (order ht)"
  by (simp add: ht_inv_def chain_of_def)

lemma ht_inv_chain_sorted: "ht_inv hl ht \<Longrightarrow> sorted_chain (chain_of hl ht k)"
  by (simp add: ht_inv_chain_of) (simp add: ht_inv_def)

lemma ht_invD:
  assumes "ht_inv hl ht"
  shows "table ht \<noteq> None" and "hl k (order ht) < length (ht_chains ht)"
    and "n < length (ht_chains ht) \<Longrightarrow> sorted_chain (ht_chains ht ! n)"
    and "n < length (ht_chains ht) \<Longrightarrow> e \<in> set (ht_chains ht ! n) \<Longrightarrow> hl (key e) (order ht) = n"
  using assms by (auto simp: ht_inv_def)

lemma ht_inv_set_chain:
  assumes inv: "ht_inv hl ht" and "sorted_chain c" and "\<forall>e \<in> set c. hl (key e) (order ht) = m"
  shows "ht_inv hl (set_chains ((ht_chains ht)[m := c]) ht)"
proof (cases "m < length (ht_chains ht)")
  case True
  with assms(2,3) ht_invD [OF inv] show ?thesis
    unfolding ht_inv_def by (simp add: nth_list_update)
next
  case False
  with ht_invD [OF inv] show ?thesis
    unfolding ht_inv_def by simp
qed

lemma ht_inv_create:
  assumes "\<forall>k. hl k ord < 2 ^ ord" and "ord < 32"
  shows "\<exists>ht'. drm_ht_create per_page True ord ht = (ht', None) \<and> ht_inv hl ht' \<and>
    (\<forall>k. drm_ht_find_key hl ht' k = None)"
proof -
  have "unat (push_bit ord (1 :: u32)) = 2 ^ ord"
    using assms(2) by (simp add: unat_2_power)
  with assms show ?thesis
    by (simp add: drm_ht_create_def ht_inv_def ht_chains_def Let_def drm_ht_find_key_def chain_of_def)
qed

lemma find_key_iff:
  "ht_inv hl ht \<Longrightarrow> drm_ht_find_key hl ht k = Some e \<longleftrightarrow> e \<in> set (chain_of hl ht k) \<and> key e = k"
  by (simp add: drm_ht_find_key_def chain_find_Some ht_inv_chain_sorted)

lemma find_key_rcu [simp]: "drm_ht_find_key_rcu hl ht k = drm_ht_find_key hl ht k"
  by (simp add: drm_ht_find_key_rcu_def drm_ht_find_key_def)

lemma option_eqI: "(\<And>x. a = Some x \<longleftrightarrow> b = Some x) \<Longrightarrow> a = b"
  by (cases a; cases b) auto

lemma insert_item_dup:
  "ht_inv hl ht \<Longrightarrow> drm_ht_find_key hl ht (key i) = Some e \<Longrightarrow> drm_ht_insert_item hl ht i = Inl EINVAL"
  by (auto simp: find_key_iff drm_ht_insert_item_def chain_insert_dup [OF ht_inv_chain_sorted])

lemma insert_item_new:
  assumes inv: "ht_inv hl ht" and new: "drm_ht_find_key hl ht (key i) = None"
  shows "\<exists>ht'. drm_ht_insert_item hl ht i = Inr ht' \<and> ht_inv hl ht' \<and>
    drm_ht_find_key hl ht' = (drm_ht_find_key hl ht)(key i \<mapsto> i)"
proof -
  let ?n = "hl (key i) (order ht)"
  have nokey: "\<forall>e \<in> set (chain_of hl ht (key i)). key e \<noteq> key i"
    using new inv find_key_iff [OF inv, of "key i"] by auto
  then obtain c where c: "chain_insert (chain_of hl ht (key i)) i = Inr c" "sorted_chain c"
    "set c = insert i (set (chain_of hl ht (key i)))"
    using chain_insert_new [OF ht_inv_chain_sorted [OF inv]] by blast
  let ?ht = "set_chains ((ht_chains ht)[?n := c]) ht"
  have inv': "ht_inv hl ?ht"
    using c ht_invD [OF inv] by (intro ht_inv_set_chain [OF inv]) (auto simp: ht_inv_chain_of [OF inv])
  moreover have "drm_ht_find_key hl ?ht k = ((drm_ht_find_key hl ht)(key i \<mapsto> i)) k" for k
  proof (rule option_eqI)
    fix x
    have "chain_of hl ?ht k = (if hl k (order ht) = ?n then c else chain_of hl ht k)"
      using ht_invD(1,2) [OF inv] by (simp add: chain_of_def nth_list_update)
    then show "drm_ht_find_key hl ?ht k = Some x \<longleftrightarrow> ((drm_ht_find_key hl ht)(key i \<mapsto> i)) k = Some x"
      using find_key_iff [OF inv'] find_key_iff [OF inv] c nokey
      by (auto simp: ht_inv_chain_of [OF inv])
  qed
  ultimately show ?thesis
    using c by (auto simp: drm_ht_insert_item_def fun_eq_iff)
qed

lemma hlist_del_spec:
  assumes inv: "ht_inv hl ht" and i: "drm_ht_find_key hl ht (key i) = Some i"
  shows "ht_inv hl (hlist_del i ht)"
    and "drm_ht_find_key hl (hlist_del i ht) = (drm_ht_find_key hl ht)(key i := None)"
proof -
  show inv': "ht_inv hl (hlist_del i ht)"
    using inv by (auto simp: ht_inv_def hlist_del_def sorted_chain_remove1
      dest!: set_remove1_subset [THEN subsetD])
  have ch: "chain_of hl (hlist_del i ht) k = remove1 i (chain_of hl ht k)" for k
    using inv by (simp add: chain_of_def hlist_del_def) (simp add: ht_inv_def)
  have "distinct (chain_of hl ht k)" for k
    by (simp add: sorted_chain_distinct ht_inv_chain_sorted [OF inv])
  then show "drm_ht_find_key hl (hlist_del i ht) = (drm_ht_find_key hl ht)(key i := None)"
    using find_key_iff [OF inv'] find_key_iff [OF inv] i
    by (intro ext option_eqI) (auto simp: ch, metis option.inject)
qed

section \<open>The interface\<close>

text \<open>
  What the users of the table rely on: a lookup by key, an insertion that refuses a used key
  and otherwise adds the item, and a removal of an item that is in the table.
\<close>

locale key_table =
  fixes invar :: "'m \<Rightarrow> bool"
    and lookup :: "'m \<Rightarrow> ulong \<Rightarrow> 'i option"
    and ins :: "'m \<Rightarrow> 'i \<Rightarrow> err + 'm"
    and del :: "'m \<Rightarrow> 'i \<Rightarrow> 'm"
    and ikey :: "'i \<Rightarrow> ulong"
  assumes lookup_key: "invar m \<Longrightarrow> lookup m k = Some i \<Longrightarrow> ikey i = k"
    and ins_dup: "invar m \<Longrightarrow> lookup m (ikey i) = Some e \<Longrightarrow> ins m i = Inl EINVAL"
    and ins_new: "invar m \<Longrightarrow> lookup m (ikey i) = None \<Longrightarrow>
      \<exists>m'. ins m i = Inr m' \<and> invar m' \<and> lookup m' = (lookup m)(ikey i \<mapsto> i)"
    and del_invar: "invar m \<Longrightarrow> lookup m (ikey i) = Some i \<Longrightarrow> invar (del m i)"
    and del_lookup: "invar m \<Longrightarrow> lookup m (ikey i) = Some i \<Longrightarrow>
      lookup (del m i) = (lookup m)(ikey i := None)"
begin

lemma ins_cases:
  assumes "invar m"
  obtains (dup) e where "lookup m (ikey i) = Some e" "ins m i = Inl EINVAL"
  | (new) m' where "lookup m (ikey i) = None" "ins m i = Inr m'" "invar m'"
      "lookup m' = (lookup m)(ikey i \<mapsto> i)"
  using assms ins_dup ins_new by (cases "lookup m (ikey i)") blast+

lemma ins_InrD:
  assumes "invar m" and "ins m i = Inr m'"
  shows "invar m'" and "lookup m (ikey i) = None" and "lookup m' = (lookup m)(ikey i \<mapsto> i)"
  using assms by (cases rule: ins_cases [OF assms(1), of i]; auto)+

lemma ins_del:
  assumes "invar m" and "ins m i = Inr m'"
  shows "invar (del m' i)" and "lookup (del m' i) = lookup m"
proof -
  note d = ins_InrD [OF assms]
  then have "lookup m' (ikey i) = Some i" by simp
  with d show "invar (del m' i)" and "lookup (del m' i) = lookup m"
    by (auto simp: del_invar del_lookup fun_eq_iff)
qed

end

interpretation ht: key_table "ht_inv hl" "drm_ht_find_key hl" "drm_ht_insert_item hl"
  "drm_ht_remove_item" key for hl
proof unfold_locales
  fix m :: "'a open_hash" and k i
  assume "ht_inv hl m" and "drm_ht_find_key hl m k = Some i"
  then show "key i = k" by (simp add: find_key_iff)
qed (simp_all add: insert_item_dup insert_item_new hlist_del_spec drm_ht_remove_item_def)

text \<open>
  C5: the table is a map from keys to items.  In a well-formed table an insertion fails exactly
  when its key is used and then changes nothing; otherwise the new table is well formed and
  maps the key to the item and every other key as before.
\<close>

theorem drm_ht_insert_item_correct:
  assumes "ht_inv hl ht"
  shows "case drm_ht_insert_item hl ht i of
      Inl e \<Rightarrow> e = EINVAL \<and> drm_ht_find_item hl ht (key i) \<noteq> Inl EINVAL
    | Inr ht' \<Rightarrow> drm_ht_find_item hl ht (key i) = Inl EINVAL \<and> ht_inv hl ht' \<and>
        drm_ht_find_item hl ht' = (drm_ht_find_item hl ht)(key i := Inr i)"
  by (cases rule: ht.ins_cases [OF assms, of i])
     (auto simp: drm_ht_find_item_def fun_eq_iff)

definition ht0 :: "nat open_hash" where
  "ht0 = \<lparr>order = 1, table = Some ([[], [\<lparr>key = 5, owner = 50\<rparr>]], Kmalloc)\<rparr>"

definition hash_mod :: "ulong \<Rightarrow> nat \<Rightarrow> nat" where
  "hash_mod k b = unat k mod 2 ^ b"

lemma ht0_inv: "ht_inv hash_mod ht0"
  by (auto simp: ht_inv_def ht0_def hash_mod_def ht_chains_def less_Suc_eq nth_Cons')

theorem drm_ht_insert_item_correct_witness:
  "ht_inv hash_mod ht0 \<and> drm_ht_insert_item hash_mod ht0 \<lparr>key = 3, owner = 30\<rparr> =
     Inr \<lparr>order = 1, table = Some ([[], [\<lparr>key = 3, owner = 30\<rparr>, \<lparr>key = 5, owner = 50\<rparr>]], Kmalloc)\<rparr> \<and>
   drm_ht_find_item hash_mod ht0 3 = Inl EINVAL"
proof -
  have e: "drm_ht_insert_item hash_mod ht0 \<lparr>key = 3, owner = 30\<rparr> =
     Inr \<lparr>order = 1, table = Some ([[], [\<lparr>key = 3, owner = 30\<rparr>, \<lparr>key = 5, owner = 50\<rparr>]], Kmalloc)\<rparr>"
    by (simp add: drm_ht_insert_item_def ht0_def hash_mod_def ht_chains_def chain_of_def set_chains_def)
  show ?thesis
    using e ht0_inv drm_ht_insert_item_correct [OF ht0_inv, of "\<lparr>key = 3, owner = 30\<rparr>"] by simp
qed

text \<open>
  C6: removing a key undoes inserting it.  In a well-formed table a removal fails exactly when
  the key is not there; otherwise the table stays well formed, the key is gone and every other
  key keeps its item.  Removing an item right after its insertion restores every lookup.
\<close>

theorem drm_ht_remove_correct:
  assumes "ht_inv hl ht"
  shows "(case drm_ht_remove_key hl ht k of
      Inl e \<Rightarrow> e = EINVAL \<and> drm_ht_find_item hl ht k = Inl EINVAL
    | Inr ht' \<Rightarrow> drm_ht_find_item hl ht k \<noteq> Inl EINVAL \<and> ht_inv hl ht' \<and>
        drm_ht_find_item hl ht' = (drm_ht_find_item hl ht)(k := Inl EINVAL)) \<and>
    (\<forall>i ht'. drm_ht_insert_item hl ht i = Inr ht' \<longrightarrow>
       drm_ht_find_item hl (drm_ht_remove_item ht' i) = drm_ht_find_item hl ht)"
proof -
  have "drm_ht_find_key hl ht k = Some i \<Longrightarrow> key i = k" for i
    using ht.lookup_key [OF assms] .
  then show ?thesis
    using hlist_del_spec [OF assms] ht.ins_del(2) [OF assms]
    by (fastforce simp: drm_ht_remove_key_def drm_ht_find_item_def fun_eq_iff split: option.splits)
qed

theorem drm_ht_remove_correct_witness:
  "ht_inv hash_mod ht0 \<and> drm_ht_remove_key hash_mod ht0 5 = Inr (ht0\<lparr>table := Some ([[], []], Kmalloc)\<rparr>) \<and>
   drm_ht_find_item hash_mod (ht0\<lparr>table := Some ([[], []], Kmalloc)\<rparr>) 5 = Inl EINVAL"
proof -
  have e: "drm_ht_remove_key hash_mod ht0 5 = Inr (ht0\<lparr>table := Some ([[], []], Kmalloc)\<rparr>)"
    by (simp add: drm_ht_remove_key_def drm_ht_find_key_def ht0_def hash_mod_def ht_chains_def
        chain_of_def set_chains_def hlist_del_def)
  show ?thesis
    using e ht0_inv drm_ht_remove_correct [OF ht0_inv, of 5] by simp
qed

section \<open>Choosing a free key\<close>

definition try_key :: "nat \<Rightarrow> ulong \<Rightarrow> nat \<Rightarrow> ulong" where
  "try_key shift add u = push_bit shift (of_nat u) + add"

lemma next_unshifted:
  assumes "bits < 31"
  shows "(of_nat u + 1 :: ulong) AND ucast (push_bit bits (1 :: u32) - 1) = of_nat (Suc u mod 2 ^ bits)"
proof -
  have "(push_bit bits 1 - 1 :: u32) = mask bits"
    by (simp add: mask_eq_exp_minus_1)
  moreover have "(ucast (mask bits :: u32) :: ulong) = mask bits"
    using assms by (auto intro!: bit_word_eqI simp: bit_simps)
  ultimately show ?thesis
    using of_nat_and_mask [of "Suc u" bits, where 'a = 64] by (simp add: add.commute)
qed

lemma mod_Suc_neq:
  fixes f :: nat
  assumes "f < N" and "Suc j < N"
  shows "(f + Suc j) mod N \<noteq> f mod N"
  using assms by (cases "f + Suc j < N") (auto simp: le_mod_geq)

lemma just_insert_loop_spec:
  assumes inv: "ht_inv hl ht" and b: "bits < 31" and f: "f < 2 ^ bits"
    and msk: "msk = ucast (push_bit bits (1 :: u32) - 1)"
    and j: "j < 2 ^ bits" "n = 2 ^ bits - j"
    and used: "\<forall>m < j. drm_ht_find_key hl ht (try_key shift add ((f + m) mod 2 ^ bits)) \<noteq> None"
  shows "case just_insert_loop n hl ht i (of_nat f) (of_nat ((f + j) mod 2 ^ bits)) msk shift add of
      None \<Rightarrow> False
    | Some (Inl e) \<Rightarrow> e = EINVAL \<and>
        (\<forall>m < 2 ^ bits. drm_ht_find_key hl ht (try_key shift add ((f + m) mod 2 ^ bits)) \<noteq> None)
    | Some (Inr (ht', i')) \<Rightarrow> ht_inv hl ht' \<and> owner i' = owner i \<and>
        (\<exists>u < 2 ^ bits. key i' = try_key shift add u) \<and> drm_ht_find_key hl ht (key i') = None \<and>
        drm_ht_find_key hl ht' = (drm_ht_find_key hl ht)(key i' \<mapsto> i')"
  using j used
proof (induction n arbitrary: j i)
  case 0
  then show ?case by simp
next
  case (Suc n)
  let ?u = "(f + j) mod 2 ^ bits"
  let ?i = "i\<lparr>key := try_key shift add ?u\<rparr>"
  have step: "(of_nat ?u + 1 :: ulong) AND msk = of_nat ((f + Suc j) mod 2 ^ bits)"
    using next_unshifted [OF b, of ?u] by (simp add: msk mod_Suc_eq)
  have lt: "x mod 2 ^ bits < 2 ^ LENGTH(64)" for x :: nat
  proof -
    have "(2::nat) ^ bits \<le> 2 ^ 31" using b by (intro power_increasing) auto
    then have "x mod 2 ^ bits < 2 ^ 31" by (rule order_less_le_trans [rotated]) simp
    then show ?thesis by simp
  qed
  show ?case
  proof (cases rule: ht.ins_cases [OF inv, of ?i])
    case new: 2
    then show ?thesis by (auto simp: try_key_def Let_def intro: exI [of _ ?u])
  next
    case dup: 1
    then have used': "\<forall>m < Suc j. drm_ht_find_key hl ht (try_key shift add ((f + m) mod 2 ^ bits)) \<noteq> None"
      using Suc.prems(3) by (auto simp: less_Suc_eq)
    show ?thesis
    proof (cases "Suc j < 2 ^ bits")
      case True
      have "(f + Suc j) mod 2 ^ bits \<noteq> f mod 2 ^ bits"
        using f True by (rule mod_Suc_neq)
      then have "(of_nat ((f + Suc j) mod 2 ^ bits) :: ulong) \<noteq> of_nat f"
        using of_nat_word_inject [OF lt lt, of "f + Suc j" f] f by simp
      moreover have "n = 2 ^ bits - Suc j" using Suc.prems(2) by simp
      ultimately show ?thesis
        using Suc.IH [OF True _ used', of ?i] dup step
        by (auto simp: try_key_def Let_def split: option.splits sum.splits)
    next
      case False
      with Suc.prems have "Suc j = 2 ^ bits" by simp
      then have "(f + Suc j) mod 2 ^ bits = f" using f by simp
      with dup used' \<open>Suc j = 2 ^ bits\<close> step show ?thesis
        by (simp add: try_key_def Let_def)
    qed
  qed
qed

text \<open>
  C7: \<^verbatim>\<open>drm_ht_just_insert_please\<close> ends after at most \<open>2 ^ bits\<close> rounds.  It fails only when
  every key \<open>(u << shift) + add\<close> with a \<open>u\<close> of \<open>bits\<close> bits is used; otherwise it stores the
  item under such a key that was free and leaves every other key as it was.
\<close>

theorem drm_ht_just_insert_please_correct:
  assumes "ht_inv hl ht" and "bits < 31" and "hl seed bits < 2 ^ bits"
  shows "case drm_ht_just_insert_please (2 ^ bits) hl ht i seed bits shift add of
      None \<Rightarrow> False
    | Some (Inl e) \<Rightarrow> e = EINVAL \<and>
        (\<forall>u < 2 ^ bits. drm_ht_find_key hl ht (push_bit shift (of_nat u) + add) \<noteq> None)
    | Some (Inr (ht', i')) \<Rightarrow> ht_inv hl ht' \<and> owner i' = owner i \<and>
        (\<exists>u < 2 ^ bits. key i' = push_bit shift (of_nat u) + add) \<and>
        drm_ht_find_key hl ht (key i') = None \<and>
        drm_ht_find_key hl ht' = (drm_ht_find_key hl ht)(key i' \<mapsto> i')"
proof -
  let ?f = "hl seed bits" and ?N = "2 ^ bits :: nat"
  have all: "\<forall>u < ?N. P u" if "\<forall>m < ?N. P ((?f + m) mod ?N)" for P
  proof (intro allI impI)
    fix u assume u: "u < ?N"
    let ?m = "(u + (?N - ?f)) mod ?N"
    have "(?f + ?m) mod ?N = (?f + (u + (?N - ?f))) mod ?N" by (simp add: mod_add_right_eq)
    also have "\<dots> = (u + ?N) mod ?N" using assms(3) by (simp add: add.commute)
    also have "\<dots> = u" using u by simp
    finally have eq: "(?f + ?m) mod ?N = u" .
    have "?m < ?N" by simp
    with that have "P ((?f + ?m) mod ?N)" by blast
    then show "P u" by (simp only: eq)
  qed
  show ?thesis
    using just_insert_loop_spec [OF assms, of "ucast (push_bit bits (1 :: u32) - 1)" 0 ?N shift add i] assms(3)
      all [of "\<lambda>u. drm_ht_find_key hl ht (try_key shift add u) \<noteq> None"]
    by (auto simp: drm_ht_just_insert_please_def Let_def try_key_def split: option.splits sum.splits)
qed

theorem drm_ht_just_insert_please_correct_witness:
  "ht_inv hash_mod ht0 \<and> (1::nat) < 31 \<and> hash_mod 1 1 < 2 ^ 1 \<and>
   drm_ht_just_insert_please (2 ^ 1) hash_mod ht0 \<lparr>key = 0, owner = 9\<rparr> 1 1 0 4 =
     Some (Inr (\<lparr>order = 1, table = Some ([[\<lparr>key = 4, owner = 9\<rparr>], [\<lparr>key = 5, owner = 50\<rparr>]], Kmalloc)\<rparr>,
       \<lparr>key = 4, owner = 9\<rparr>)) \<and> drm_ht_find_key hash_mod ht0 4 = None"
proof -
  have h: "hash_mod 1 1 < 2 ^ 1" by (simp add: hash_mod_def)
  have e: "drm_ht_just_insert_please (2 ^ 1) hash_mod ht0 \<lparr>key = 0, owner = 9\<rparr> 1 1 0 4 =
     Some (Inr (\<lparr>order = 1, table = Some ([[\<lparr>key = 4, owner = 9\<rparr>], [\<lparr>key = 5, owner = 50\<rparr>]], Kmalloc)\<rparr>,
       \<lparr>key = 4, owner = 9\<rparr>))"
    by code_simp
  show ?thesis
    using e h ht0_inv drm_ht_just_insert_please_correct [OF ht0_inv _ h, where
      i = "\<lparr>key = 0, owner = 9\<rparr>" and shift = 0 and add = 4]
    by simp
qed

text \<open>
  C8: a table is freed with the function that matches its allocation, for every order a table can
  have: \<^verbatim>\<open>kfree\<close> for \<^verbatim>\<open>kcalloc\<close>, \<^verbatim>\<open>vfree\<close> for \<^verbatim>\<open>vzalloc\<close>.
\<close>

theorem drm_ht_free_matches_alloc:
  assumes "ord < 32" and "drm_ht_create per_page mem ord ht = (ht', None)"
  shows "snd (drm_ht_remove per_page ht') = map_option snd (table ht')"
proof -
  have "unat (push_bit ord (1 :: u32)) = 2 ^ ord"
    using assms(1) by (simp add: unat_2_power)
  moreover have "drop_bit ord per_page \<noteq> 0 \<longleftrightarrow> 2 ^ ord \<le> per_page"
    by (auto simp: drop_bit_eq_div div_eq_0_iff)
  ultimately show ?thesis
    using assms(2) by (auto simp: drm_ht_create_def drm_ht_remove_def Let_def split: if_splits)
qed

theorem drm_ht_free_matches_alloc_witness:
  "drm_ht_create 512 True 1 ht0 = (\<lparr>order = 1, table = Some ([[], []], Kmalloc)\<rparr>, None) \<and>
   snd (drm_ht_remove 512 (\<lparr>order = 1, table = Some ([[], []], Kmalloc)\<rparr> :: nat open_hash)) = Some Kmalloc"
proof -
  have e: "drm_ht_create 512 True 1 ht0 = (\<lparr>order = 1, table = Some ([[], []], Kmalloc)\<rparr>, None)"
    by code_simp
  show ?thesis using e drm_ht_free_matches_alloc [OF _ e] by simp
qed

end
