(* ===== verification/Drm_Auth.thy ===== *)
theory Drm_Auth
  imports Drm_Hashtab
begin

text \<open>
  The magic-number authentication of \<^verbatim>\<open>drm_auth.c\<close>: a client gets a magic number with
  \<^verbatim>\<open>drm_getmagic\<close>, hands it to the master out of band, and the master authenticates the
  client's file with \<^verbatim>\<open>drm_authmagic\<close>.  The magic numbers of one master are kept in a hash
  table (theory \<open>Drm_Hashtab\<close>) whose items refer to the files.
\<close>

section \<open>State and operations\<close>

record drm_file =
  magic :: u32
  authenticated :: bool

text \<open>
  \<open>seqno\<close> is the static counter of \<^verbatim>\<open>drm_getmagic\<close>, \<open>magiclist\<close> and \<open>magicfree\<close> are the
  table and the list of the master, \<open>files\<close> are the open files by number.
\<close>

record auth_state =
  seqno :: u32
  magiclist :: "nat open_hash"
  magicfree :: "nat hash_item list"
  files :: "nat \<Rightarrow> drm_file"

type_synonym hash_fn = "ulong \<Rightarrow> nat \<Rightarrow> nat"

definition drm_find_file :: "hash_fn \<Rightarrow> auth_state \<Rightarrow> u32 \<Rightarrow> nat option" where
  "drm_find_file hl st m =
     (case drm_ht_find_item hl (magiclist st) (ucast m) of Inr i \<Rightarrow> Some (owner i) | Inl _ \<Rightarrow> None)"

text \<open>
  \<open>mem\<close> says whether the allocation succeeds.  As in the source the result of the insertion is
  not looked at.
\<close>

definition drm_add_magic :: "bool \<Rightarrow> hash_fn \<Rightarrow> auth_state \<Rightarrow> nat \<Rightarrow> u32 \<Rightarrow> auth_state \<times> err option" where
  "drm_add_magic mem hl st priv m =
     (if \<not> mem then (st, Some ENOMEM)
      else let entry = \<lparr>key = ucast m, owner = priv\<rparr>;
               tab = (case drm_ht_insert_item hl (magiclist st) entry of
                        Inr t \<Rightarrow> t | Inl _ \<Rightarrow> magiclist st)
           in (st\<lparr>magiclist := tab, magicfree := magicfree st @ [entry]\<rparr>, None))"

definition drm_remove_magic :: "hash_fn \<Rightarrow> auth_state \<Rightarrow> u32 \<Rightarrow> auth_state \<times> err option" where
  "drm_remove_magic hl st m =
     (case drm_ht_find_item hl (magiclist st) (ucast m) of
        Inl _ \<Rightarrow> (st, Some EINVAL)
      | Inr hash \<Rightarrow> (st\<lparr>magiclist := drm_ht_remove_item (magiclist st) hash,
                      magicfree := remove1 hash (magicfree st)\<rparr>, None))"

text \<open>
  The \<^verbatim>\<open>do\<close>-\<^verbatim>\<open>while\<close> loop that looks for an unused non-zero magic number, with the number of
  rounds bounded by fuel; \<^term>\<open>None\<close> is fuel used up.
\<close>

fun magic_loop :: "nat \<Rightarrow> hash_fn \<Rightarrow> auth_state \<Rightarrow> (auth_state \<times> u32) option" where
  "magic_loop 0 hl st = None"
| "magic_loop (Suc fuel) hl st =
     (let st = (if seqno st = 0 then st\<lparr>seqno := seqno st + 1\<rparr> else st);
          m = seqno st;
          st = st\<lparr>seqno := seqno st + 1\<rparr>
      in if drm_find_file hl st m \<noteq> None then magic_loop fuel hl st else Some (st, m))"

definition set_magic :: "nat \<Rightarrow> u32 \<Rightarrow> auth_state \<Rightarrow> auth_state" where
  "set_magic f m st = st\<lparr>files := (files st)(f := (files st f)\<lparr>magic := m\<rparr>)\<rparr>"

definition drm_getmagic :: "nat \<Rightarrow> bool \<Rightarrow> hash_fn \<Rightarrow> auth_state \<Rightarrow> nat \<Rightarrow> (auth_state \<times> u32) option" where
  "drm_getmagic fuel mem hl st f =
     (if magic (files st f) \<noteq> 0 then Some (st, magic (files st f))
      else case magic_loop fuel hl st of
             None \<Rightarrow> None
           | Some (st, m) \<Rightarrow> Some (fst (drm_add_magic mem hl (set_magic f m st) f m), m))"

definition drm_authmagic :: "hash_fn \<Rightarrow> auth_state \<Rightarrow> u32 \<Rightarrow> auth_state \<times> err option" where
  "drm_authmagic hl st m =
     (case drm_find_file hl st m of
        Some f \<Rightarrow>
          (fst (drm_remove_magic hl
             (st\<lparr>files := (files st)(f := (files st f)\<lparr>authenticated := True\<rparr>)\<rparr>) m), None)
      | None \<Rightarrow> (st, Some EINVAL))"

section \<open>The sequence of candidate magic numbers\<close>

definition nonzero :: "u32 \<Rightarrow> u32" where
  "nonzero s = (if s = 0 then 1 else s)"

fun candidate :: "u32 \<Rightarrow> nat \<Rightarrow> u32" where
  "candidate s 0 = nonzero s"
| "candidate s (Suc n) = candidate (nonzero s + 1) n"

lemma nonzero_nonzero [simp]: "nonzero s \<noteq> 0" "nonzero (nonzero s) = nonzero s"
  by (auto simp: nonzero_def)

lemma unat_nonzero_Suc:
  "unat (nonzero (nonzero s + 1)) = (unat (nonzero s) - 1 + 1) mod (2 ^ 32 - 1) + 1"
proof -
  let ?w = "nonzero s"
  have lt: "unat ?w < 2 ^ 32" and pos: "0 < unat ?w"
    using unsigned_less [of ?w] by (simp_all add: unat_gt_0)
  show ?thesis
  proof (cases "?w + 1 = 0")
    case True
    then have "?w = -1" by (simp add: eq_neg_iff_add_eq_0)
    then have "unat ?w = 2 ^ 32 - 1" by (simp add: unsigned_minus_1_eq_mask mask_eq_exp_minus_1)
    with True show ?thesis by (simp add: nonzero_def)
  next
    case False
    then have suc: "unat (?w + 1) = unat ?w + 1" by (simp add: unatSuc add.commute)
    moreover have "unat (?w + 1) < 2 ^ 32" using unsigned_less [of "?w + 1"] by simp
    ultimately have "(unat ?w - 1 + 1) mod (2 ^ 32 - 1) = unat ?w" using pos by simp
    moreover have "nonzero (?w + 1) = ?w + 1" using False by (simp add: nonzero_def)
    ultimately show ?thesis by (simp only: suc)
  qed
qed

lemma unat_candidate:
  "unat (candidate s n) = (unat (nonzero s) - 1 + n) mod (2 ^ 32 - 1) + 1"
proof (induction n arbitrary: s)
  case 0
  have "unat (nonzero s) < 2 ^ 32" and "0 < unat (nonzero s)"
    using unsigned_less [of "nonzero s"] by (simp_all add: unat_gt_0)
  then show ?case by simp
next
  case (Suc n)
  let ?P = "2 ^ 32 - 1 :: nat"
  have "unat (candidate s (Suc n)) = ((unat (nonzero s) - 1 + 1) mod ?P + n) mod ?P + 1"
    using Suc [of "nonzero s + 1"] unat_nonzero_Suc [of s] by simp
  then show ?case by (simp add: mod_simps)
qed

lemma candidate_inj: "inj_on (candidate s) {..< 2 ^ 32 - 1}"
proof (rule inj_onI)
  let ?P = "2 ^ 32 - 1 :: nat"
  fix i j assume i: "i \<in> {..< ?P}" and j: "j \<in> {..< ?P}" and eq: "candidate s i = candidate s j"
  have "(unat (nonzero s) - 1 + i) mod ?P = (unat (nonzero s) - 1 + j) mod ?P"
    using arg_cong [OF eq, of unat] by (simp only: unat_candidate add_right_cancel)
  then have "x \<le> y \<Longrightarrow> {x, y} = {i, j} \<Longrightarrow> ?P dvd y - x" for x y
    by (metis (no_types, lifting) diff_add_inverse diff_diff_left doubleton_eq_iff
        mod_eq_dvd_iff_nat nat_add_left_cancel_le)
  then have "?P dvd j - i" and "?P dvd i - j"
    by (metis diff_is_0_eq dvd_0_right insert_commute nle_le)+
  moreover have "j - i < ?P" and "i - j < ?P" using i j by auto
  ultimately have "j - i = 0" and "i - j = 0" by (metis nat_dvd_not_less neq0_conv)+
  then show "i = j" by simp
qed

definition used_magics :: "hash_fn \<Rightarrow> auth_state \<Rightarrow> u32 set" where
  "used_magics hl st = {m. drm_find_file hl st m \<noteq> None}"

lemma find_file_seqno [simp]: "drm_find_file hl (st\<lparr>seqno := s\<rparr>) m = drm_find_file hl st m"
  by (simp add: drm_find_file_def)

lemma used_magics_seqno [simp]: "used_magics hl (st\<lparr>seqno := s\<rparr>) = used_magics hl st"
  by (simp add: used_magics_def)

lemma magic_loop_Suc:
  "magic_loop (Suc fuel) hl st =
     (let m = nonzero (seqno st); st' = st\<lparr>seqno := m + 1\<rparr>
      in if m \<in> used_magics hl st then magic_loop fuel hl st' else Some (st', m))"
  by (auto simp: nonzero_def Let_def used_magics_def)

declare magic_loop.simps(2) [simp del]

lemma magic_loop_None:
  "magic_loop fuel hl st = None \<Longrightarrow> i < fuel \<Longrightarrow> candidate (seqno st) i \<in> used_magics hl st"
proof (induction fuel arbitrary: st i)
  case (Suc fuel)
  then have u: "nonzero (seqno st) \<in> used_magics hl st"
    and n: "magic_loop fuel hl (st\<lparr>seqno := nonzero (seqno st) + 1\<rparr>) = None"
    by (auto simp: magic_loop_Suc Let_def split: if_splits)
  show ?case using u Suc.prems(2) Suc.IH [OF n] by (cases i) auto
qed simp

lemma magic_loop_Some:
  "magic_loop fuel hl st = Some (st', m) \<Longrightarrow>
    m \<noteq> 0 \<and> m \<notin> used_magics hl st \<and> (\<exists>s. st' = st\<lparr>seqno := s\<rparr>)"
proof (induction fuel arbitrary: st)
  case (Suc fuel)
  show ?case
  proof (cases "nonzero (seqno st) \<in> used_magics hl st")
    case True
    with Suc.prems have "magic_loop fuel hl (st\<lparr>seqno := nonzero (seqno st) + 1\<rparr>) = Some (st', m)"
      by (simp add: magic_loop_Suc Let_def)
    from Suc.IH [OF this] show ?thesis by auto
  next
    case False
    with Suc.prems show ?thesis by (auto simp: magic_loop_Suc Let_def)
  qed
qed simp

lemma magic_loop_returns:
  assumes free: "card (used_magics hl st) < 2 ^ 32 - 1" and fuel: "card (used_magics hl st) < fuel"
  shows "magic_loop fuel hl st \<noteq> None"
proof
  let ?n = "Suc (card (used_magics hl st))"
  assume "magic_loop fuel hl st = None"
  then have "candidate (seqno st) ` {..< ?n} \<subseteq> used_magics hl st"
    using magic_loop_None fuel by fastforce
  then have "card (candidate (seqno st) ` {..< ?n}) \<le> card (used_magics hl st)"
    by (intro card_mono) auto
  moreover have "inj_on (candidate (seqno st)) {..< ?n}"
    by (rule inj_on_subset [OF candidate_inj]) (use free in auto)
  ultimately show False by (simp add: card_image)
qed

section \<open>Authentication\<close>

lemma find_file_frame [simp]:
  "drm_find_file hl (set_magic f m st) x = drm_find_file hl st x"
  "drm_find_file hl (st\<lparr>files := fs\<rparr>) x = drm_find_file hl st x"
  by (simp_all add: drm_find_file_def set_magic_def)

lemma find_file_None: "drm_find_file hl st m = None \<longleftrightarrow> drm_ht_find_key hl (magiclist st) (ucast m) = None"
  by (auto simp: drm_find_file_def drm_ht_find_item_def split: option.splits)

lemma ucast_u32_inj: "(ucast (a :: u32) :: ulong) = ucast b \<longleftrightarrow> a = b"
  by transfer simp

lemma add_magic_spec:
  assumes inv: "ht_inv hl (magiclist st)" and new: "drm_find_file hl st m = None"
  obtains st' where "drm_add_magic True hl st f m = (st', None)" "ht_inv hl (magiclist st')"
    "drm_find_file hl st' = (drm_find_file hl st)(m \<mapsto> f)" "files st' = files st"
proof -
  from new obtain t where t: "drm_ht_insert_item hl (magiclist st) \<lparr>key = ucast m, owner = f\<rparr> = Inr t"
      "ht_inv hl t" "drm_ht_find_key hl t = (drm_ht_find_key hl (magiclist st))(ucast m \<mapsto> \<lparr>key = ucast m, owner = f\<rparr>)"
    using ht.ins_new [OF inv, of "\<lparr>key = ucast m, owner = f\<rparr>"] by (auto simp: find_file_None)
  show thesis
  proof
    let ?st = "st\<lparr>magiclist := t, magicfree := magicfree st @ [\<lparr>key = ucast m, owner = f\<rparr>]\<rparr>"
    show "drm_add_magic True hl st f m = (?st, None)" using t by (simp add: drm_add_magic_def)
    show "drm_find_file hl ?st = (drm_find_file hl st)(m \<mapsto> f)"
      using t by (auto simp: fun_eq_iff drm_find_file_def drm_ht_find_item_def ucast_u32_inj)
  qed (use t in simp_all)
qed

text \<open>
  C9: a file that has no magic number yet gets one that is non-zero and was not in use, as long
  as not all \<open>2 ^ 32 - 1\<close> numbers are taken: the search ends after at most one round more than
  there are numbers in use, the number is registered for that file, and the registrations of
  all other numbers stay.
\<close>

theorem drm_getmagic_unique:
  assumes inv: "ht_inv hl (magiclist st)" and zero: "magic (files st f) = 0"
    and free: "card (used_magics hl st) < 2 ^ 32 - 1" and fuel: "card (used_magics hl st) < fuel"
  shows "\<exists>st' m. drm_getmagic fuel True hl st f = Some (st', m) \<and> m \<noteq> 0 \<and>
    drm_find_file hl st m = None \<and> magic (files st' f) = m \<and> ht_inv hl (magiclist st') \<and>
    drm_find_file hl st' = (drm_find_file hl st)(m \<mapsto> f) \<and> (\<forall>g. g \<noteq> f \<longrightarrow> files st' g = files st g)"
proof -
  from magic_loop_returns [OF free fuel] obtain s m where l: "magic_loop fuel hl st = Some (s, m)"
    by auto
  from magic_loop_Some [OF l] obtain q where m: "m \<noteq> 0" "drm_find_file hl st m = None" and s: "s = st\<lparr>seqno := q\<rparr>"
    by (auto simp: used_magics_def)
  let ?s = "set_magic f m s"
  have i: "ht_inv hl (magiclist ?s)" and n: "drm_find_file hl ?s m = None"
    using inv m(2) s by (simp_all add: set_magic_def)
  obtain st' where st': "drm_add_magic True hl ?s f m = (st', None)" "ht_inv hl (magiclist st')"
    "drm_find_file hl st' = (drm_find_file hl ?s)(m \<mapsto> f)" "files st' = files ?s"
    by (rule add_magic_spec [OF i n])
  have "drm_find_file hl ?s = drm_find_file hl st" using s by (simp add: fun_eq_iff)
  then show ?thesis
    using st' l m zero s by (auto simp: drm_getmagic_def set_magic_def)
qed

definition auth0 :: auth_state where
  "auth0 = \<lparr>seqno = 5, magiclist = ht0, magicfree = [\<lparr>key = 5, owner = 50\<rparr>],
     files = (\<lambda>_. \<lparr>magic = 0, authenticated = False\<rparr>)\<rparr>"

lemma auth0_used: "used_magics hash_mod auth0 = {5}"
proof -
  have key: "drm_ht_find_key hash_mod ht0 k = Some i \<longleftrightarrow> k = 5 \<and> i = \<lparr>key = 5, owner = 50\<rparr>" for k i
  proof -
    have "set (chain_of hash_mod ht0 k) \<subseteq> {\<lparr>key = 5, owner = 50\<rparr>}"
      by (auto simp: chain_of_def ht0_def ht_chains_def hash_mod_def Let_def nth_Cons' split: if_splits)
    moreover have "chain_of hash_mod ht0 5 = [\<lparr>key = 5, owner = 50\<rparr>]"
      by (simp add: chain_of_def ht0_def ht_chains_def hash_mod_def Let_def)
    ultimately show ?thesis by (auto simp: find_key_iff [OF ht0_inv])
  qed
  have "drm_ht_find_key hash_mod ht0 k \<noteq> None \<longleftrightarrow> k = 5" for k
    using key by auto
  moreover have "(ucast m :: ulong) = 5 \<longleftrightarrow> m = 5" for m :: u32
    using ucast_u32_inj [of m 5] by simp
  ultimately show ?thesis by (auto simp: used_magics_def find_file_None auth0_def)
qed

theorem drm_getmagic_unique_witness:
  "ht_inv hash_mod (magiclist auth0) \<and> magic (files auth0 7) = 0 \<and>
   card (used_magics hash_mod auth0) < 2 \<and>
   (\<exists>st' m. drm_getmagic 2 True hash_mod auth0 7 = Some (st', m) \<and> m \<noteq> 0 \<and> drm_find_file hash_mod st' m = Some 7)"
proof -
  have i: "ht_inv hash_mod (magiclist auth0)" and z: "magic (files auth0 7) = 0"
    and c: "card (used_magics hash_mod auth0) < 2" "card (used_magics hash_mod auth0) < 2 ^ 32 - 1"
    by (simp_all add: auth0_used) (simp_all add: auth0_def ht0_inv)
  show ?thesis
    using i z c drm_getmagic_unique [OF i z c(2,1)] by auto
qed

text \<open>
  C10: a file is authenticated by its own magic number and only by it.  After a client got a
  fresh number, the master's \<^verbatim>\<open>drm_authmagic\<close> on it succeeds, marks that file and no other,
  frees the number, and a second attempt with the same number fails and changes nothing.
\<close>

theorem drm_authmagic_getmagic:
  assumes inv: "ht_inv hl (magiclist st)" and zero: "magic (files st f) = 0"
    and get: "drm_getmagic fuel True hl st f = Some (st', m)"
  shows "\<exists>st''. drm_authmagic hl st' m = (st'', None) \<and> authenticated (files st'' f) \<and>
    (\<forall>g. g \<noteq> f \<longrightarrow> files st'' g = files st g) \<and> drm_find_file hl st'' = drm_find_file hl st \<and>
    drm_authmagic hl st'' m = (st'', Some EINVAL)"
proof -
  from get zero obtain s where l: "magic_loop fuel hl st = Some (s, m)"
    and st': "st' = fst (drm_add_magic True hl (set_magic f m s) f m)"
    by (auto simp: drm_getmagic_def split: option.splits)
  from magic_loop_Some [OF l] obtain q where m: "drm_find_file hl st m = None" and s: "s = st\<lparr>seqno := q\<rparr>"
    by (auto simp: used_magics_def)
  let ?s = "set_magic f m s"
  have i: "ht_inv hl (magiclist ?s)" and n: "drm_find_file hl ?s m = None"
    using inv m s by (simp_all add: set_magic_def)
  have fs: "drm_find_file hl ?s = drm_find_file hl st" using s by (simp add: fun_eq_iff)
  obtain a where a: "drm_add_magic True hl ?s f m = (a, None)" "ht_inv hl (magiclist a)"
    "drm_find_file hl a = (drm_find_file hl ?s)(m \<mapsto> f)" "files a = files ?s"
    by (rule add_magic_spec [OF i n])
  then have ff: "drm_find_file hl st' m = Some f" and [simp]: "st' = a" using st' by auto
  then obtain e where e: "drm_ht_find_key hl (magiclist a) (ucast m) = Some e"
    by (auto simp: drm_find_file_def drm_ht_find_item_def split: option.splits)
  then have ke: "key e = ucast m" using ht.lookup_key [OF a(2)] by simp
  let ?t = "drm_ht_remove_item (magiclist a) e"
  have t: "drm_ht_find_key hl ?t = (drm_ht_find_key hl (magiclist a))(ucast m := None)"
    using ht.del_lookup [OF a(2), of e] e ke by simp
  let ?st = "a\<lparr>files := (files a)(f := (files a f)\<lparr>authenticated := True\<rparr>), magiclist := ?t,
    magicfree := remove1 e (magicfree a)\<rparr>"
  have auth: "drm_authmagic hl st' m = (?st, None)"
    using ff e by (simp add: drm_authmagic_def drm_remove_magic_def drm_ht_find_item_def)
  have "drm_find_file hl ?st x = ((drm_find_file hl a)(m := None)) x" for x
    using t by (auto simp: drm_find_file_def drm_ht_find_item_def ucast_u32_inj)
  then have "drm_find_file hl ?st = drm_find_file hl st"
    using a(3) fs m by (auto simp: fun_eq_iff)
  moreover from this have "drm_authmagic hl ?st m = (?st, Some EINVAL)"
    using m by (simp add: drm_authmagic_def)
  ultimately show ?thesis
    using auth a(4) s by (intro exI [of _ ?st]) (simp add: set_magic_def)
qed

theorem drm_authmagic_getmagic_witness:
  "\<exists>st' m st''. drm_getmagic 2 True hash_mod auth0 7 = Some (st', m) \<and>
    drm_authmagic hash_mod st' m = (st'', None) \<and> authenticated (files st'' 7) \<and> \<not> authenticated (files st'' 8)"
proof -
  have i: "ht_inv hash_mod (magiclist auth0)" and z: "magic (files auth0 7) = 0"
    and n: "\<not> authenticated (files auth0 8)"
    by (simp_all add: auth0_def ht0_inv)
  obtain st' m where g: "drm_getmagic 2 True hash_mod auth0 7 = Some (st', m)"
    using magic_loop_returns [of hash_mod auth0 2] z by (auto simp: drm_getmagic_def auth0_used)
  then show ?thesis
    using drm_authmagic_getmagic [OF i z g] n by fastforce
qed

text \<open>
  C11: when the allocation of the table entry fails, \<^verbatim>\<open>drm_getmagic\<close> still returns 0 with a magic
  number: the number is not registered, so \<^verbatim>\<open>drm_authmagic\<close> on it fails, and because it is
  stored in the file every later \<^verbatim>\<open>drm_getmagic\<close> returns the same dead number.
\<close>

theorem drm_getmagic_oom:
  assumes "magic (files st f) = 0" and get: "drm_getmagic fuel False hl st f = Some (st', m)"
  shows "drm_authmagic hl st' m = (st', Some EINVAL) \<and>
    (\<forall>fuel' mem. drm_getmagic fuel' mem hl st' f = Some (st', m))"
proof -
  from assms obtain s where l: "magic_loop fuel hl st = Some (s, m)"
    and st': "st' = fst (drm_add_magic False hl (set_magic f m s) f m)"
    by (auto simp: drm_getmagic_def split: option.splits)
  from magic_loop_Some [OF l] obtain q where m: "drm_find_file hl st m = None" "m \<noteq> 0"
    and s: "s = st\<lparr>seqno := q\<rparr>"
    by (auto simp: used_magics_def)
  have "st' = set_magic f m s" using st' by (simp add: drm_add_magic_def)
  with m s show ?thesis
    by (auto simp: drm_authmagic_def drm_getmagic_def set_magic_def)
qed

theorem drm_getmagic_oom_witness:
  "\<exists>st' m. magic (files auth0 7) = 0 \<and> drm_getmagic 2 False hash_mod auth0 7 = Some (st', m) \<and>
    drm_authmagic hash_mod st' m = (st', Some EINVAL)"
proof -
  have z: "magic (files auth0 7) = 0" by (simp add: auth0_def)
  obtain st' m where g: "drm_getmagic 2 False hash_mod auth0 7 = Some (st', m)"
    using magic_loop_returns [of hash_mod auth0 2] z by (auto simp: drm_getmagic_def auth0_used)
  then show ?thesis using z drm_getmagic_oom [OF z g] by blast
qed

end
