(* ===== verification/Drm_Mm.thy ===== *)
theory Drm_Mm
  imports Drm_Prelude
begin

text \<open>
  The range allocator of \<^verbatim>\<open>drm_mm.c\<close>.  An allocator is a ring of nodes sorted by address,
  starting and ending at the embedded head node, and a stack of the nodes that are followed by
  a hole.  Nodes are named by addresses; \<open>head_node\<close> is the address of the embedded one.
  The \<^verbatim>\<open>node_list\<close> ring is the list of its entries after the head; while a node is taken off
  the ring by a scan, the two fields of its \<^verbatim>\<open>list_head\<close> that the scan overwrites are fields
  of the node.

  The header \<^verbatim>\<open>drm_mm.h\<close> is not part of the sources.  Its inline functions and its loop macro
  over the holes are the fields of the record \<open>mm_hdr\<close>, an argument of the operations; what the
  code relies on is stated by \<open>hdr_ok\<close>.
\<close>

section \<open>Data\<close>

definition head_node :: ptr where "head_node = 0"

record mm_node =
  start :: ulong
  nsize :: ulong
  color :: ulong
  allocated :: bool
  hole_follows :: bool
  scanned_block :: bool
  scanned_prev_free :: bool
  scanned_next_free :: bool
  scanned_preceeds_hole :: bool
  scan_prev :: ptr
  scan_next :: "ptr option"

text \<open>
  A driver's \<^verbatim>\<open>color_adjust\<close> callback sees the nodes and the ring, the hole's node, the colour of
  the allocation, and may change the bounds of the hole.
\<close>

type_synonym color_fn =
  "(ptr \<Rightarrow> mm_node) \<Rightarrow> ptr list \<Rightarrow> ptr \<Rightarrow> ulong \<Rightarrow> ulong \<times> ulong \<Rightarrow> ulong \<times> ulong"

record drm_mm =
  nodes :: "ptr \<Rightarrow> mm_node"
  node_list :: "ptr list"
  hole_stack :: "ptr list"
  scanned_blocks :: u32
  scan_color :: ulong
  scan_alignment :: u32
  scan_size :: ulong
  scan_hit_start :: ulong
  scan_hit_end :: ulong
  scan_start :: ulong
  scan_end :: ulong
  scan_check_range :: bool
  prev_scanned_node :: "ptr option"
  color_adjust :: "color_fn option"

record mm_hdr =
  hole_node_start :: "drm_mm \<Rightarrow> ptr \<Rightarrow> ulong"
  hole_node_end :: "drm_mm \<Rightarrow> ptr \<Rightarrow> ulong"
  raw_hole_node_start :: "drm_mm \<Rightarrow> ptr \<Rightarrow> ulong"
  raw_hole_node_end :: "drm_mm \<Rightarrow> ptr \<Rightarrow> ulong"
  for_each_hole :: "drm_mm \<Rightarrow> bool \<Rightarrow> (ptr \<times> ulong \<times> ulong) list"

text \<open>The ring, and the neighbours of a node in it.\<close>

definition ring :: "drm_mm \<Rightarrow> ptr list" where
  "ring mm = head_node # node_list mm"

definition next_node :: "drm_mm \<Rightarrow> ptr \<Rightarrow> ptr" where
  "next_node mm p = (case next_of p (ring mm) of Some q \<Rightarrow> q | None \<Rightarrow> head_node)"

definition prev_node :: "drm_mm \<Rightarrow> ptr \<Rightarrow> ptr" where
  "prev_node mm p = (case prev_of p (ring mm) of Some q \<Rightarrow> q | None \<Rightarrow> last (ring mm))"

definition upd_node :: "ptr \<Rightarrow> (mm_node \<Rightarrow> mm_node) \<Rightarrow> drm_mm \<Rightarrow> drm_mm" where
  "upd_node p f mm = mm\<lparr>nodes := (nodes mm)(p := f (nodes mm p))\<rparr>"

text \<open>\<^verbatim>\<open>list_add(&node->node_list, &p->node_list)\<close>.\<close>

definition ring_add :: "ptr \<Rightarrow> ptr \<Rightarrow> drm_mm \<Rightarrow> drm_mm" where
  "ring_add n p mm = mm\<lparr>node_list := tl (insert_after p n (ring mm))\<rparr>"

definition push_hole :: "ptr \<Rightarrow> drm_mm \<Rightarrow> drm_mm" where
  "push_hole p mm = mm\<lparr>hole_stack := p # hole_stack mm\<rparr>"

definition del_hole :: "ptr \<Rightarrow> drm_mm \<Rightarrow> drm_mm" where
  "del_hole p mm = mm\<lparr>hole_stack := remove1 p (hole_stack mm)\<rparr>"

text \<open>What the code relies on in \<^verbatim>\<open>drm_mm.h\<close>.\<close>

definition node_end :: "(ptr \<Rightarrow> mm_node) \<Rightarrow> ptr \<Rightarrow> ulong" where
  "node_end ns p = start (ns p) + nsize (ns p)"

definition hdr_ok :: "mm_hdr \<Rightarrow> bool" where
  "hdr_ok h \<longleftrightarrow> (\<forall>mm p.
     raw_hole_node_start h mm p = node_end (nodes mm) p \<and>
     raw_hole_node_end h mm p = start (nodes mm (next_node mm p)) \<and>
     (hole_follows (nodes mm p) \<longrightarrow> hole_node_start h mm p = node_end (nodes mm) p) \<and>
     hole_node_end h mm p = start (nodes mm (next_node mm p)) \<and>
     (\<forall>b. for_each_hole h mm b = map (\<lambda>p. (p, hole_node_start h mm p, hole_node_end h mm p))
            (if b then rev (hole_stack mm) else hole_stack mm)))"

section \<open>Insertion\<close>

definition adjust :: "drm_mm \<Rightarrow> ptr \<Rightarrow> ulong \<Rightarrow> ulong \<times> ulong \<Rightarrow> ulong \<times> ulong" where
  "adjust mm p col r =
     (case color_adjust mm of None \<Rightarrow> r | Some f \<Rightarrow> f (nodes mm) (ring mm) p col r)"

text \<open>
  The alignment is a 32-bit value.  \<open>tp\<close> is the flag \<^verbatim>\<open>DRM_MM_CREATE_TOP\<close>, \<open>best\<close> and \<open>below\<close> the
  flags \<^verbatim>\<open>DRM_MM_SEARCH_BEST\<close> and \<^verbatim>\<open>DRM_MM_SEARCH_BELOW\<close>.
\<close>

definition align_start :: "bool \<Rightarrow> u32 \<Rightarrow> ulong \<Rightarrow> ulong" where
  "align_start tp alignment a =
     (if alignment \<noteq> 0 then
        let tmp = (ucast (a mod ucast alignment) :: u32)
        in if tmp \<noteq> 0 then (if tp then a - ucast tmp else a + ucast (alignment - tmp)) else a
      else a)"

definition drm_mm_insert_helper ::
  "mm_hdr \<Rightarrow> drm_mm \<Rightarrow> ptr \<Rightarrow> ptr \<Rightarrow> ulong \<Rightarrow> u32 \<Rightarrow> ulong \<Rightarrow> bool \<Rightarrow> err + drm_mm" where
  "drm_mm_insert_helper h mm hole_node node sz alignment col tp =
     (let hole_start = hole_node_start h mm hole_node;
          hole_end = hole_node_end h mm hole_node
      in if allocated (nodes mm node) then Inl BUG else
      let (adj_start, adj_end) = adjust mm hole_node col (hole_start, hole_end);
          adj_start = (if tp then adj_end - sz else adj_start);
          adj_start = align_start tp alignment adj_start
      in if adj_start < hole_start then Inl BUG else
         if adj_end > hole_end then Inl BUG else
      let mm = (if adj_start = hole_start
                then del_hole hole_node (upd_node hole_node (\<lambda>n. n\<lparr>hole_follows := False\<rparr>) mm)
                else mm);
          mm = upd_node node (\<lambda>n. n\<lparr>start := adj_start, nsize := sz, color := col, allocated := True\<rparr>) mm;
          mm = ring_add node hole_node mm
      in if node_end (nodes mm) node > adj_end then Inl BUG else
      let mm = upd_node node (\<lambda>n. n\<lparr>hole_follows := False\<rparr>) mm
      in Inr (if raw_hole_node_start h mm node < hole_end
              then upd_node node (\<lambda>n. n\<lparr>hole_follows := True\<rparr>) (push_hole node mm)
              else mm))"

text \<open>The first hole that contains the node's range, in the order of the stack.\<close>

fun reserve_loop :: "drm_mm \<Rightarrow> ptr \<Rightarrow> ulong \<Rightarrow> (ptr \<times> ulong \<times> ulong) list \<Rightarrow> err + drm_mm" where
  "reserve_loop mm node en [] = Inl ENOSPC"
| "reserve_loop mm node en ((hole, hole_start, hole_end) # hs) =
     (if hole_start > start (nodes mm node) \<or> hole_end < en then reserve_loop mm node en hs
      else
        let mm = upd_node node (\<lambda>n. n\<lparr>allocated := True\<rparr>) mm;
            mm = ring_add node hole mm;
            mm = (if start (nodes mm node) = hole_start
                  then del_hole hole (upd_node hole (\<lambda>n. n\<lparr>hole_follows := False\<rparr>) mm)
                  else mm);
            mm = upd_node node (\<lambda>n. n\<lparr>hole_follows := False\<rparr>) mm
        in Inr (if en \<noteq> hole_end
                then upd_node node (\<lambda>n. n\<lparr>hole_follows := True\<rparr>) (push_hole node mm)
                else mm))"

definition drm_mm_reserve_node :: "mm_hdr \<Rightarrow> drm_mm \<Rightarrow> ptr \<Rightarrow> err + drm_mm" where
  "drm_mm_reserve_node h mm node =
     reserve_loop mm node (start (nodes mm node) + nsize (nodes mm node)) (for_each_hole h mm False)"

definition check_free_hole :: "ulong \<Rightarrow> ulong \<Rightarrow> ulong \<Rightarrow> u32 \<Rightarrow> bool" where
  "check_free_hole st en sz alignment =
     (if en - st < sz then False
      else en \<ge> align_start False alignment st + sz)"

text \<open>
  The search over the holes: the first that fits, or with \<open>best\<close> the smallest (the first of the
  smallest).  \<open>lim\<close> restricts the bounds of a hole before the colour adjustment; it is the
  identity in the unrestricted search.
\<close>

fun search_loop ::
  "drm_mm \<Rightarrow> (ulong \<times> ulong \<Rightarrow> ulong \<times> ulong) \<Rightarrow> ulong \<Rightarrow> u32 \<Rightarrow> ulong \<Rightarrow> bool
     \<Rightarrow> ptr option \<Rightarrow> ulong \<Rightarrow> (ptr \<times> ulong \<times> ulong) list \<Rightarrow> ptr option" where
  "search_loop mm lim sz alignment col best bst best_size [] = bst"
| "search_loop mm lim sz alignment col best bst best_size ((entry, a, e) # hs) =
     (let hole_size = e - a;
          (adj_start, adj_end) = adjust mm entry col (lim (a, e))
      in if color_adjust mm \<noteq> None \<and> adj_end \<le> adj_start
         then search_loop mm lim sz alignment col best bst best_size hs
         else if \<not> check_free_hole adj_start adj_end sz alignment
         then search_loop mm lim sz alignment col best bst best_size hs
         else if \<not> best then Some entry
         else if hole_size < best_size
         then search_loop mm lim sz alignment col best (Some entry) hole_size hs
         else search_loop mm lim sz alignment col best bst best_size hs)"

definition drm_mm_search_free_generic ::
  "mm_hdr \<Rightarrow> drm_mm \<Rightarrow> ulong \<Rightarrow> u32 \<Rightarrow> ulong \<Rightarrow> bool \<Rightarrow> bool \<Rightarrow> err + ptr option" where
  "drm_mm_search_free_generic h mm sz alignment col best below =
     (if scanned_blocks mm \<noteq> 0 then Inl BUG
      else Inr (search_loop mm (\<lambda>r. r) sz alignment col best None (NOT 0) (for_each_hole h mm below)))"

definition range_lim :: "ulong \<Rightarrow> ulong \<Rightarrow> ulong \<times> ulong \<Rightarrow> ulong \<times> ulong" where
  "range_lim st en r = (if fst r < st then st else fst r, if snd r > en then en else snd r)"

definition drm_mm_search_free_in_range_generic ::
  "mm_hdr \<Rightarrow> drm_mm \<Rightarrow> ulong \<Rightarrow> u32 \<Rightarrow> ulong \<Rightarrow> ulong \<Rightarrow> ulong \<Rightarrow> bool \<Rightarrow> bool \<Rightarrow> err + ptr option" where
  "drm_mm_search_free_in_range_generic h mm sz alignment col st en best below =
     (if scanned_blocks mm \<noteq> 0 then Inl BUG
      else Inr (search_loop mm (range_lim st en) sz alignment col best None (NOT 0)
                 (for_each_hole h mm below)))"

definition drm_mm_insert_node_generic ::
  "mm_hdr \<Rightarrow> drm_mm \<Rightarrow> ptr \<Rightarrow> ulong \<Rightarrow> u32 \<Rightarrow> ulong \<Rightarrow> bool \<Rightarrow> bool \<Rightarrow> bool \<Rightarrow> err + drm_mm" where
  "drm_mm_insert_node_generic h mm node sz alignment col best below tp =
     (case drm_mm_search_free_generic h mm sz alignment col best below of
        Inl e \<Rightarrow> Inl e
      | Inr None \<Rightarrow> Inl ENOSPC
      | Inr (Some hole_node) \<Rightarrow> drm_mm_insert_helper h mm hole_node node sz alignment col tp)"

definition drm_mm_insert_helper_range ::
  "mm_hdr \<Rightarrow> drm_mm \<Rightarrow> ptr \<Rightarrow> ptr \<Rightarrow> ulong \<Rightarrow> u32 \<Rightarrow> ulong \<Rightarrow> ulong \<Rightarrow> ulong \<Rightarrow> bool \<Rightarrow> err + drm_mm" where
  "drm_mm_insert_helper_range h mm hole_node node sz alignment col st en tp =
     (let hole_start = hole_node_start h mm hole_node;
          hole_end = hole_node_end h mm hole_node
      in if \<not> hole_follows (nodes mm hole_node) \<or> allocated (nodes mm node) then Inl BUG else
      let adj_start = (if hole_start < st then st else hole_start);
          adj_end = (if hole_end > en then en else hole_end);
          adj_start = (if tp then adj_end - sz else adj_start);
          (adj_start, adj_end) = adjust mm hole_node col (adj_start, adj_end);
          adj_start = align_start tp alignment adj_start;
          mm = (if adj_start = hole_start
                then del_hole hole_node (upd_node hole_node (\<lambda>n. n\<lparr>hole_follows := False\<rparr>) mm)
                else mm);
          mm = upd_node node (\<lambda>n. n\<lparr>start := adj_start, nsize := sz, color := col, allocated := True\<rparr>) mm;
          mm = ring_add node hole_node mm
      in if start (nodes mm node) < st \<or> start (nodes mm node) < adj_start \<or>
            node_end (nodes mm) node > adj_end \<or> node_end (nodes mm) node > en then Inl BUG else
      let mm = upd_node node (\<lambda>n. n\<lparr>hole_follows := False\<rparr>) mm
      in Inr (if raw_hole_node_start h mm node < hole_end
              then upd_node node (\<lambda>n. n\<lparr>hole_follows := True\<rparr>) (push_hole node mm)
              else mm))"

definition drm_mm_insert_node_in_range_generic ::
  "mm_hdr \<Rightarrow> drm_mm \<Rightarrow> ptr \<Rightarrow> ulong \<Rightarrow> u32 \<Rightarrow> ulong \<Rightarrow> ulong \<Rightarrow> ulong \<Rightarrow> bool \<Rightarrow> bool \<Rightarrow> bool \<Rightarrow> err + drm_mm" where
  "drm_mm_insert_node_in_range_generic h mm node sz alignment col st en best below tp =
     (case drm_mm_search_free_in_range_generic h mm sz alignment col st en best below of
        Inl e \<Rightarrow> Inl e
      | Inr None \<Rightarrow> Inl ENOSPC
      | Inr (Some hole_node) \<Rightarrow>
          drm_mm_insert_helper_range h mm hole_node node sz alignment col st en tp)"

section \<open>Removal, replacement, initialisation\<close>

text \<open>
  Removing a node that is not allocated warns and does nothing.
\<close>

definition drm_mm_remove_node :: "mm_hdr \<Rightarrow> drm_mm \<Rightarrow> ptr \<Rightarrow> err + drm_mm" where
  "drm_mm_remove_node h mm node =
     (if \<not> allocated (nodes mm node) then Inr mm else
      if scanned_block (nodes mm node) \<or> scanned_prev_free (nodes mm node) \<or>
         scanned_next_free (nodes mm node) then Inl BUG else
      let prev = prev_node mm node;
          same = (raw_hole_node_start h mm node = raw_hole_node_end h mm node)
      in if hole_follows (nodes mm node) = same then Inl BUG else
      let mm = (if hole_follows (nodes mm node) then del_hole node mm else mm);
          mm = (if \<not> hole_follows (nodes mm prev)
                then push_hole prev (upd_node prev (\<lambda>n. n\<lparr>hole_follows := True\<rparr>) mm)
                else push_hole prev (del_hole prev mm));
          mm = mm\<lparr>node_list := remove1 node (node_list mm)\<rparr>
      in Inr (upd_node node (\<lambda>n. n\<lparr>allocated := False\<rparr>) mm))"

text \<open>\<^verbatim>\<open>list_replace\<close> puts the new entry in the place of the old one.\<close>

definition list_replace :: "'a \<Rightarrow> 'a \<Rightarrow> 'a list \<Rightarrow> 'a list" where
  "list_replace old new = map (\<lambda>x. if x = old then new else x)"

definition drm_mm_replace_node :: "drm_mm \<Rightarrow> ptr \<Rightarrow> ptr \<Rightarrow> drm_mm" where
  "drm_mm_replace_node mm old new =
     (let mm = mm\<lparr>node_list := list_replace old new (node_list mm),
                   hole_stack := list_replace old new (hole_stack mm)\<rparr>;
          od = nodes mm old;
          mm = upd_node new (\<lambda>n. n\<lparr>hole_follows := hole_follows od, start := start od, nsize := nsize od,
                 color := color od\<rparr>) mm;
          mm = upd_node old (\<lambda>n. n\<lparr>allocated := False\<rparr>) mm
      in upd_node new (\<lambda>n. n\<lparr>allocated := True\<rparr>) mm)"

definition drm_mm_clean :: "drm_mm \<Rightarrow> bool" where
  "drm_mm_clean mm = (next_node mm (next_node mm head_node) = head_node)"

definition drm_mm_init :: "ulong \<Rightarrow> ulong \<Rightarrow> drm_mm \<Rightarrow> drm_mm" where
  "drm_mm_init st sz mm =
     (let mm = mm\<lparr>hole_stack := [], scanned_blocks := 0, node_list := []\<rparr>;
          mm = upd_node head_node (\<lambda>n. n\<lparr>hole_follows := True, scanned_block := False,
                 scanned_prev_free := False, scanned_next_free := False, start := st + sz,
                 nsize := st - (st + sz)\<rparr>) mm
      in mm\<lparr>hole_stack := hole_stack mm @ [head_node], color_adjust := None\<rparr>)"

text \<open>Taking an allocator down only warns, when a node is left.\<close>

definition drm_mm_takedown :: "drm_mm \<Rightarrow> bool" where
  "drm_mm_takedown mm = (node_list mm \<noteq> [])"

section \<open>Scanning\<close>

definition drm_mm_init_scan :: "drm_mm \<Rightarrow> ulong \<Rightarrow> u32 \<Rightarrow> ulong \<Rightarrow> drm_mm" where
  "drm_mm_init_scan mm sz alignment col =
     mm\<lparr>scan_color := col, scan_alignment := alignment, scan_size := sz, scanned_blocks := 0,
        scan_hit_start := 0, scan_hit_end := 0, scan_check_range := False, prev_scanned_node := None\<rparr>"

definition drm_mm_init_scan_with_range ::
  "drm_mm \<Rightarrow> ulong \<Rightarrow> u32 \<Rightarrow> ulong \<Rightarrow> ulong \<Rightarrow> ulong \<Rightarrow> drm_mm" where
  "drm_mm_init_scan_with_range mm sz alignment col st en =
     mm\<lparr>scan_color := col, scan_alignment := alignment, scan_size := sz, scanned_blocks := 0,
        scan_hit_start := 0, scan_hit_end := 0, scan_start := st, scan_end := en,
        scan_check_range := True, prev_scanned_node := None\<rparr>"

definition drm_mm_scan_add_block :: "mm_hdr \<Rightarrow> drm_mm \<Rightarrow> ptr \<Rightarrow> err + drm_mm \<times> bool" where
  "drm_mm_scan_add_block h mm node =
     (let mm = mm\<lparr>scanned_blocks := scanned_blocks mm + 1\<rparr>
      in if scanned_block (nodes mm node) then Inl BUG else
      let prev = prev_node mm node;
          mm = upd_node node (\<lambda>n. n\<lparr>scanned_block := True,
                 scanned_preceeds_hole := hole_follows (nodes mm prev)\<rparr>) mm;
          mm = upd_node prev (\<lambda>n. n\<lparr>hole_follows := True\<rparr>) mm;
          mm = mm\<lparr>node_list := remove1 node (node_list mm)\<rparr>;
          mm = upd_node node (\<lambda>n. n\<lparr>scan_prev := prev, scan_next := prev_scanned_node mm\<rparr>) mm;
          mm = mm\<lparr>prev_scanned_node := Some node\<rparr>;
          hole_start = hole_node_start h mm prev;
          hole_end = hole_node_end h mm prev;
          (adj_start, adj_end) = (if scan_check_range mm
             then range_lim (scan_start mm) (scan_end mm) (hole_start, hole_end)
             else (hole_start, hole_end));
          (adj_start, adj_end) = adjust mm prev (scan_color mm) (adj_start, adj_end)
      in Inr (if check_free_hole adj_start adj_end (scan_size mm) (scan_alignment mm)
              then (mm\<lparr>scan_hit_start := hole_start, scan_hit_end := hole_end\<rparr>, True)
              else (mm, False)))"

definition drm_mm_scan_remove_block :: "mm_hdr \<Rightarrow> drm_mm \<Rightarrow> ptr \<Rightarrow> err + drm_mm \<times> bool" where
  "drm_mm_scan_remove_block h mm node =
     (let mm = mm\<lparr>scanned_blocks := scanned_blocks mm - 1\<rparr>
      in if \<not> scanned_block (nodes mm node) then Inl BUG else
      let mm = upd_node node (\<lambda>n. n\<lparr>scanned_block := False\<rparr>) mm;
          prev = scan_prev (nodes mm node);
          mm = upd_node prev (\<lambda>n. n\<lparr>hole_follows := scanned_preceeds_hole (nodes mm node)\<rparr>) mm;
          mm = ring_add node prev mm
      in Inr (mm, hole_node_end h mm node > scan_hit_start mm \<and> start (nodes mm node) < scan_hit_end mm))"

section \<open>Totals\<close>

text \<open>
  The totals that \<^verbatim>\<open>drm_mm_debug_table\<close> and \<^verbatim>\<open>drm_mm_dump_table\<close> print: used, free and their sum.
\<close>

definition drm_mm_debug_hole :: "mm_hdr \<Rightarrow> drm_mm \<Rightarrow> ptr \<Rightarrow> ulong" where
  "drm_mm_debug_hole h mm entry =
     (if hole_follows (nodes mm entry) then hole_node_end h mm entry - hole_node_start h mm entry else 0)"

definition drm_mm_debug_table :: "mm_hdr \<Rightarrow> drm_mm \<Rightarrow> ulong \<times> ulong \<times> ulong" where
  "drm_mm_debug_table h mm =
     (let total_free = drm_mm_debug_hole h mm head_node;
          (total_used, total_free) = foldl (\<lambda>(u, f) entry.
             (u + nsize (nodes mm entry), f + drm_mm_debug_hole h mm entry))
             (0, total_free) (node_list mm)
      in (total_free + total_used, total_used, total_free))"

end
