(* ===== verification/Drm_Mm_Inv.thy ===== *)
theory Drm_Mm_Inv
  imports Drm_Mm
begin

text \<open>
  The invariant of the range allocator and that every operation keeps it: the nodes of the ring
  are ordered by address and do not overlap, a node is marked as followed by a hole exactly when
  there is free space behind it, and the hole stack holds exactly the marked nodes.
\<close>

section \<open>Alignment\<close>

definition align_up :: "nat \<Rightarrow> nat \<Rightarrow> nat" where
  "align_up A a = (if A = 0 \<or> a mod A = 0 then a else a + (A - a mod A))"

definition align_down :: "nat \<Rightarrow> nat \<Rightarrow> nat" where
  "align_down A a = (if A = 0 then a else a - a mod A)"

lemma align_up_ge: "a \<le> align_up A a"
  by (metis align_up_def le_add1 order_refl)

lemma align_up_less: "A < B \<Longrightarrow> align_up A a < a + B"
  by (auto simp: align_up_def)

lemma align_up_dvd: "A dvd align_up A a \<or> A = 0"
proof (cases "A = 0 \<or> a mod A = 0")
  case False
  then have "a + (A - a mod A) = a div A * A + A"
    using mod_less_divisor [of A a] div_mult_mod_eq [of a A] by linarith
  with False show ?thesis by (simp add: align_up_def)
qed (auto simp: align_up_def dvd_eq_mod_eq_0)

lemma align_down_le: "align_down A a \<le> a"
  by (simp add: align_down_def)

lemma align_down_dvd: "A dvd align_down A a \<or> A = 0"
  by (simp add: align_down_def minus_mod_eq_mult_div)

lemma align_down_greatest:
  assumes "b \<le> a" and "A dvd b \<or> A = 0"
  shows "b \<le> align_down A a"
proof (cases "A = 0")
  case False
  with assms obtain k where b: "b = A * k" by auto
  from assms(1) b False have "k \<le> a div A" by (simp add: less_eq_div_iff_mult_less_eq mult.commute)
  then have "A * k \<le> A * (a div A)" by simp
  with b False show ?thesis by (simp add: align_down_def minus_mod_eq_mult_div)
qed (use assms in \<open>simp add: align_down_def\<close>)

lemma unat_mod_u32:
  fixes a :: ulong and al :: u32
  assumes "al \<noteq> 0"
  shows "unat (ucast (a mod ucast al) :: u32) = unat a mod unat al"
proof -
  have m: "unat (a mod ucast al) = unat a mod unat al"
    by (simp add: unat_mod unat_ucast_up)
  have "unat a mod unat al < unat al" using assms by (simp add: unat_gt_0)
  also have "\<dots> < 2 ^ 32" using unsigned_less [of al] by simp
  finally show ?thesis using m by (subst unat_ucast_small) simp_all
qed

lemma unat_align_down: "unat (align_start True al a) = align_down (unat al) (unat a)"
proof (cases "al = 0")
  case False
  let ?t = "ucast (a mod ucast al) :: u32"
  have t: "unat (ucast ?t :: ulong) = unat a mod unat al"
    using unat_mod_u32 [OF False] by (simp add: unat_ucast_up)
  moreover have "unat (a - ucast ?t) = unat a - unat a mod unat al"
    using t by (subst unat_sub) (simp_all add: word_le_nat_alt)
  moreover have "?t = 0 \<Longrightarrow> unat a mod unat al = 0"
    using unat_mod_u32 [OF False, of a] by simp
  ultimately show ?thesis
    using False by (auto simp: align_start_def align_down_def Let_def unat_eq_zero)
qed (simp add: align_start_def align_down_def)

lemma unat_align_up:
  assumes "unat a + 2 ^ 32 \<le> 2 ^ 64"
  shows "unat (align_start False al a) = align_up (unat al) (unat a)"
proof (cases "al = 0 \<or> unat a mod unat al = 0")
  case True
  moreover have "(ucast (a mod ucast al) :: u32) = 0" if "al \<noteq> 0"
    using unat_mod_u32 [OF that, of a] that True by (metis unat_eq_zero)
  ultimately show ?thesis by (auto simp: align_start_def align_up_def Let_def unat_eq_zero)
next
  case False
  let ?t = "ucast (a mod ucast al) :: u32"
  have t: "unat ?t = unat a mod unat al" using unat_mod_u32 False by blast
  have lt: "unat a mod unat al < unat al" using False by (simp add: unat_gt_0)
  have d: "unat (al - ?t) = unat al - unat a mod unat al"
    using t lt by (subst unat_sub) (simp_all add: word_le_nat_alt)
  have "unat al < 2 ^ 32" using unsigned_less [of al] by simp
  then have "unat a + unat (al - ?t) < 2 ^ 64" using assms d False by linarith
  then have "unat (a + ucast (al - ?t)) = unat a + unat (al - ?t)"
    by (subst unat_add_lem [THEN iffD1]) (simp_all add: unat_ucast_up)
  moreover have "?t \<noteq> 0" using t False by (auto simp: unat_eq_zero)
  ultimately show ?thesis
    using d False by (simp add: align_start_def align_up_def Let_def unat_eq_zero)
qed

section \<open>The invariant\<close>

fun spaced :: "(ptr \<Rightarrow> mm_node) \<Rightarrow> ptr list \<Rightarrow> bool" where
  "spaced ns (p # q # r) \<longleftrightarrow> node_end ns p \<le> start (ns q) \<and>
     hole_follows (ns p) = (node_end ns p < start (ns q)) \<and> spaced ns (q # r)"
| "spaced ns r \<longleftrightarrow> True"

definition node_ok :: "mm_node \<Rightarrow> bool" where
  "node_ok n \<longleftrightarrow> allocated n \<and> start n < start n + nsize n \<and>
     \<not> scanned_block n \<and> \<not> scanned_prev_free n \<and> \<not> scanned_next_free n"

definition mm_wf :: "drm_mm \<Rightarrow> bool" where
  "mm_wf mm \<longleftrightarrow> distinct (ring mm) \<and> spaced (nodes mm) (ring mm @ [head_node]) \<and>
     (\<forall>p \<in> set (node_list mm). node_ok (nodes mm p)) \<and>
     distinct (hole_stack mm) \<and>
     set (hole_stack mm) = {p \<in> set (ring mm). hole_follows (nodes mm p)} \<and>
     scanned_blocks mm = 0 \<and> unat (start (nodes mm head_node)) + 2 ^ 32 \<le> 2 ^ 64"

lemma mm_wfD:
  assumes "mm_wf mm"
  shows "distinct (ring mm)" and "spaced (nodes mm) (ring mm @ [head_node])"
    and "p \<in> set (node_list mm) \<Longrightarrow> node_ok (nodes mm p)" and "distinct (hole_stack mm)"
    and "set (hole_stack mm) = {p \<in> set (ring mm). hole_follows (nodes mm p)}"
    and "scanned_blocks mm = 0" and "unat (start (nodes mm head_node)) + 2 ^ 32 \<le> 2 ^ 64"
  using assms by (auto simp: mm_wf_def)

text \<open>The part of the invariant about the ring alone; it also holds in the middle of a scan.\<close>

definition ring_ok :: "drm_mm \<Rightarrow> bool" where
  "ring_ok mm \<longleftrightarrow> distinct (ring mm) \<and> spaced (nodes mm) (ring mm @ [head_node]) \<and>
     (\<forall>p \<in> set (node_list mm). start (nodes mm p) < node_end (nodes mm) p)"

lemma ring_okD:
  assumes "ring_ok mm"
  shows "distinct (ring mm)" and "spaced (nodes mm) (ring mm @ [head_node])"
    and "p \<in> set (node_list mm) \<Longrightarrow> start (nodes mm p) < node_end (nodes mm) p"
  using assms by (auto simp: ring_ok_def)

lemma wf_ring: "mm_wf mm \<Longrightarrow> ring_ok mm"
  by (auto simp: mm_wf_def ring_ok_def node_ok_def node_end_def)

subsection \<open>Lists of nodes\<close>

lemma spaced_append:
  "spaced ns (xs @ p # ys) \<longleftrightarrow> spaced ns (xs @ [p]) \<and> spaced ns (p # ys)"
proof (induction xs)
  case (Cons a xs)
  then show ?case by (cases xs) auto
qed simp

lemma spaced_cong:
  assumes "\<forall>q \<in> set l. start (ns' q) = start (ns q) \<and> nsize (ns' q) = nsize (ns q)"
    and "\<forall>q \<in> set (butlast l). hole_follows (ns' q) = hole_follows (ns q)"
  shows "spaced ns' l = spaced ns l"
  using assms by (induction ns l rule: spaced.induct) (auto simp: node_end_def)

lemma spaced_map:
  assumes "\<forall>q \<in> set l. start (ns' (f q)) = start (ns q) \<and> nsize (ns' (f q)) = nsize (ns q) \<and>
    hole_follows (ns' (f q)) = hole_follows (ns q)"
  shows "spaced ns' (map f l) = spaced ns l"
  using assms by (induction ns l rule: spaced.induct) (auto simp: node_end_def)

lemma ok_ring_split:
  assumes "ring_ok mm" and "p \<in> set (ring mm)"
  obtains xs ys where "ring mm = xs @ p # ys" "p \<notin> set xs" "p \<notin> set ys"
    "next_node mm p = hd (ys @ [head_node])"
proof -
  from assms(2) obtain xs ys where r: "ring mm = xs @ p # ys" by (meson split_list)
  with ring_okD(1) [OF assms(1)] have "p \<notin> set xs" "p \<notin> set ys" by auto
  moreover from this r have "next_node mm p = hd (ys @ [head_node])"
    by (cases ys) (simp_all add: next_node_def next_of_split)
  ultimately show thesis using r that by blast
qed

lemmas ring_split = ok_ring_split [OF wf_ring]

lemma ok_next_in_ring:
  assumes "ring_ok mm" and "p \<in> set (ring mm)"
  shows "next_node mm p \<in> set (ring mm)"
proof -
  obtain xs ys where "ring mm = xs @ p # ys" "next_node mm p = hd (ys @ [head_node])"
    by (rule ok_ring_split [OF assms])
  moreover have "head_node \<in> set (ring mm)" by (simp add: ring_def)
  ultimately show ?thesis by (cases ys) auto
qed

lemmas next_in_ring = ok_next_in_ring [OF wf_ring]

lemma ok_hole_nonempty:
  assumes wf: "ring_ok mm" and p: "p \<in> set (ring mm)"
  shows "node_end (nodes mm) p \<le> start (nodes mm (next_node mm p))"
    and "hole_follows (nodes mm p) = (node_end (nodes mm) p < start (nodes mm (next_node mm p)))"
proof -
  obtain xs ys where r: "ring mm = xs @ p # ys" "next_node mm p = hd (ys @ [head_node])"
    by (rule ok_ring_split [OF wf p])
  then obtain q zs where q: "ys @ [head_node] = q # zs" by (cases ys) auto
  have "spaced (nodes mm) (p # q # zs)"
    using ring_okD(2) [OF wf] r q spaced_append [of "nodes mm" xs p "q # zs"] by simp
  with r q show "node_end (nodes mm) p \<le> start (nodes mm (next_node mm p))"
    and "hole_follows (nodes mm p) = (node_end (nodes mm) p < start (nodes mm (next_node mm p)))"
    by auto
qed

lemmas hole_nonempty = ok_hole_nonempty [OF wf_ring]

subsection \<open>Placing a node in a hole\<close>

text \<open>
  What the three insertion routines do to the allocator when they put node \<open>n\<close> at address \<open>a\<close>
  with size \<open>sz\<close> into the hole behind \<open>p\<close>.
\<close>

definition placed :: "drm_mm \<Rightarrow> ptr \<Rightarrow> ptr \<Rightarrow> ulong \<Rightarrow> ulong \<Rightarrow> drm_mm \<Rightarrow> bool" where
  "placed mm p n a sz mm' \<longleftrightarrow>
     (let hs = node_end (nodes mm) p; he = start (nodes mm (next_node mm p)) in
      ring mm' = insert_after p n (ring mm) \<and>
      (\<forall>q. q \<noteq> n \<longrightarrow> nodes mm' q = (if q = p \<and> a = hs then (nodes mm p)\<lparr>hole_follows := False\<rparr> else nodes mm q)) \<and>
      start (nodes mm' n) = a \<and> nsize (nodes mm' n) = sz \<and> allocated (nodes mm' n) \<and>
      hole_follows (nodes mm' n) = (a + sz < he) \<and>
      scanned_block (nodes mm' n) = scanned_block (nodes mm n) \<and>
      scanned_prev_free (nodes mm' n) = scanned_prev_free (nodes mm n) \<and>
      scanned_next_free (nodes mm' n) = scanned_next_free (nodes mm n) \<and>
      hole_stack mm' = (if a + sz < he then [n] else []) @
        (if a = hs then remove1 p (hole_stack mm) else hole_stack mm) \<and>
      scanned_blocks mm' = scanned_blocks mm \<and> color_adjust mm' = color_adjust mm)"

lemma placed_nodes:
  assumes "placed mm p n a sz mm'" and "n \<notin> set (ring mm)" and "x \<in> set (ring mm)"
  shows "start (nodes mm' x) = start (nodes mm x)" and "nsize (nodes mm' x) = nsize (nodes mm x)"
    and "node_end (nodes mm') x = node_end (nodes mm) x"
    and "hole_follows (nodes mm' x) = (hole_follows (nodes mm x) \<and> \<not> (x = p \<and> a = node_end (nodes mm) p))"
    and "node_ok (nodes mm' x) = node_ok (nodes mm x)"
proof -
  have "x \<noteq> n" using assms(2,3) by auto
  with assms(1) have "nodes mm' x = (if x = p \<and> a = node_end (nodes mm) p
      then (nodes mm p)\<lparr>hole_follows := False\<rparr> else nodes mm x)"
    by (simp add: placed_def Let_def)
  then show "start (nodes mm' x) = start (nodes mm x)" "nsize (nodes mm' x) = nsize (nodes mm x)"
    "node_end (nodes mm') x = node_end (nodes mm) x"
    "hole_follows (nodes mm' x) = (hole_follows (nodes mm x) \<and> \<not> (x = p \<and> a = node_end (nodes mm) p))"
    "node_ok (nodes mm' x) = node_ok (nodes mm x)"
    by (auto simp: node_end_def node_ok_def)
qed

lemma placed_new:
  assumes "placed mm p n a sz mm'"
  shows "start (nodes mm' n) = a" and "nsize (nodes mm' n) = sz" and "node_end (nodes mm') n = a + sz"
    and "hole_follows (nodes mm' n) = (a + sz < start (nodes mm (next_node mm p)))"
  using assms by (simp_all add: placed_def Let_def node_end_def)

lemma placed_ring:
  assumes "placed mm p n a sz mm'" and "ring mm = xs @ p # ys" and "p \<notin> set xs"
  shows "ring mm' = xs @ p # n # ys"
  using assms by (simp add: placed_def Let_def insert_after_split)

lemma placed_spaced:
  assumes wf: "mm_wf mm" and pl: "placed mm p n a sz mm'"
    and p: "p \<in> set (ring mm)" "hole_follows (nodes mm p)" and n: "n \<notin> set (ring mm)"
    and lo: "node_end (nodes mm) p \<le> a" and hi: "a + sz \<le> start (nodes mm (next_node mm p))"
  shows "spaced (nodes mm') (ring mm' @ [head_node])"
proof -
  let ?ns = "nodes mm" and ?ns' = "nodes mm'"
  note frame = placed_nodes [OF pl n] and new = placed_new [OF pl]
  obtain xs ys where r: "ring mm = xs @ p # ys" "p \<notin> set xs" "p \<notin> set ys"
    "next_node mm p = hd (ys @ [head_node])"
    by (rule ring_split [OF wf p(1)])
  obtain q zs where q: "ys @ [head_node] = q # zs" by (cases ys) auto
  have nq: "next_node mm p = q" using r(4) q by simp
  have sp: "spaced ?ns (xs @ [p])" "spaced ?ns (p # q # zs)"
    using mm_wfD(2) [OF wf] r(1) q spaced_append [of ?ns xs p "q # zs"] by simp_all
  have "head_node \<in> set (ring mm)" by (simp add: ring_def)
  with r(1) have inq: "set (q # zs) \<subseteq> set (ring mm)" by (auto simp flip: q)
  have "spaced ?ns' (xs @ [p]) = spaced ?ns (xs @ [p])"
    using r by (intro spaced_cong) (auto simp: frame)
  moreover have "spaced ?ns' (q # zs) = spaced ?ns (q # zs)"
  proof (rule spaced_cong)
    show "\<forall>x \<in> set (q # zs). start (?ns' x) = start (?ns x) \<and> nsize (?ns' x) = nsize (?ns x)"
      using inq frame by blast
    have "butlast (q # zs) = ys" using q by (metis butlast_snoc)
    then show "\<forall>x \<in> set (butlast (q # zs)). hole_follows (?ns' x) = hole_follows (?ns x)"
      using r by (auto simp: frame)
  qed
  moreover have "start (?ns' q) = start (?ns q)" using inq by (simp add: frame)
  ultimately show ?thesis
    using sp q lo hi nq p frame [OF p(1)] new placed_ring [OF pl r(1,2)]
      spaced_append [of ?ns' xs p "n # q # zs"] by (auto simp: less_le)
qed

lemma placed_holes:
  assumes wf: "mm_wf mm" and pl: "placed mm p n a sz mm'" and p: "p \<in> set (ring mm)"
    and n: "n \<notin> set (ring mm)" and sr: "set (ring mm') = insert n (set (ring mm))"
  shows "distinct (hole_stack mm')"
    and "set (hole_stack mm') = {x \<in> set (ring mm'). hole_follows (nodes mm' x)}"
proof -
  let ?old = "if a = node_end (nodes mm) p then remove1 p (hole_stack mm) else hole_stack mm"
  have hs': "hole_stack mm' = (if hole_follows (nodes mm' n) then [n] else []) @ ?old"
    using pl placed_new [OF pl] by (simp add: placed_def Let_def)
  have old: "set ?old = {x \<in> set (ring mm). hole_follows (nodes mm' x)}"
    using mm_wfD(4,5) [OF wf] placed_nodes(4) [OF pl n] by auto
  with n have "n \<notin> set ?old" by auto
  with hs' mm_wfD(4) [OF wf] show "distinct (hole_stack mm')" by auto
  show "set (hole_stack mm') = {x \<in> set (ring mm'). hole_follows (nodes mm' x)}"
    using hs' old sr n by auto
qed

lemma placed_wf:
  assumes wf: "mm_wf mm" and pl: "placed mm p n a sz mm'" and p: "p \<in> set (hole_stack mm)"
    and n: "n \<notin> set (ring mm)" and clear: "\<not> scanned_block (nodes mm n)"
      "\<not> scanned_prev_free (nodes mm n)" "\<not> scanned_next_free (nodes mm n)"
    and lo: "node_end (nodes mm) p \<le> a" and sz: "a < a + sz"
    and hi: "a + sz \<le> start (nodes mm (next_node mm p))"
  shows "mm_wf mm'"
proof -
  have pr: "p \<in> set (ring mm)" "hole_follows (nodes mm p)"
    using p mm_wfD(5) [OF wf] by auto
  have hr: "head_node \<in> set (ring mm)" by (simp add: ring_def)
  obtain xs ys where r: "ring mm = xs @ p # ys" "p \<notin> set xs" by (rule ring_split [OF wf pr(1)])
  note r' = placed_ring [OF pl r]
  have dist: "distinct (ring mm')" using mm_wfD(1) [OF wf] r(1) r' n by auto
  have sr: "set (ring mm') = insert n (set (ring mm))" using r(1) r' by auto
  have "node_ok (nodes mm' x)" if x: "x \<in> set (node_list mm')" for x
  proof (cases "x = n")
    case True
    with pl placed_new [OF pl] clear sz show ?thesis by (simp add: placed_def Let_def node_ok_def)
  next
    case False
    with x sr dist have "x \<in> set (node_list mm)" by (auto simp: ring_def)
    then show ?thesis
      using mm_wfD(3) [OF wf] placed_nodes(5) [OF pl n, of x] by (simp add: ring_def)
  qed
  moreover have "scanned_blocks mm' = 0" using pl mm_wfD(6) [OF wf] by (simp add: placed_def Let_def)
  ultimately show ?thesis
    using dist placed_spaced [OF wf pl pr n lo hi] placed_holes [OF wf pl pr(1) n sr]
      placed_nodes(1) [OF pl n hr] mm_wfD(7) [OF wf]
    by (simp add: mm_wf_def)
qed

subsection \<open>The insertion routines place a node\<close>

lemma hdr_okD:
  assumes "hdr_ok h"
  shows "raw_hole_node_start h mm p = node_end (nodes mm) p"
    and "raw_hole_node_end h mm p = start (nodes mm (next_node mm p))"
    and "hole_follows (nodes mm p) \<Longrightarrow> hole_node_start h mm p = node_end (nodes mm) p"
    and "hole_node_end h mm p = start (nodes mm (next_node mm p))"
    and "for_each_hole h mm b = map (\<lambda>p. (p, hole_node_start h mm p, hole_node_end h mm p))
           (if b then rev (hole_stack mm) else hole_stack mm)"
  using assms by (auto simp: hdr_ok_def)

lemma mm_upd_simps [simp]:
  "ring (ring_add n p mm) = insert_after p n (ring mm)"
  "nodes (ring_add n p mm) = nodes mm" "hole_stack (ring_add n p mm) = hole_stack mm"
  "scanned_blocks (ring_add n p mm) = scanned_blocks mm" "color_adjust (ring_add n p mm) = color_adjust mm"
  "ring (upd_node q f mm) = ring mm" "nodes (upd_node q f mm) = (nodes mm)(q := f (nodes mm q))"
  "hole_stack (upd_node q f mm) = hole_stack mm" "scanned_blocks (upd_node q f mm) = scanned_blocks mm"
  "color_adjust (upd_node q f mm) = color_adjust mm"
  "ring (push_hole q mm) = ring mm" "nodes (push_hole q mm) = nodes mm"
  "hole_stack (push_hole q mm) = q # hole_stack mm" "scanned_blocks (push_hole q mm) = scanned_blocks mm"
  "color_adjust (push_hole q mm) = color_adjust mm"
  "ring (del_hole q mm) = ring mm" "nodes (del_hole q mm) = nodes mm"
  "hole_stack (del_hole q mm) = remove1 q (hole_stack mm)" "scanned_blocks (del_hole q mm) = scanned_blocks mm"
  "color_adjust (del_hole q mm) = color_adjust mm"
  by (simp_all add: ring_def ring_add_def upd_node_def push_hole_def del_hole_def)

text \<open>The bounds of the hole behind a node.\<close>

definition hole_of :: "drm_mm \<Rightarrow> ptr \<Rightarrow> ulong \<times> ulong" where
  "hole_of mm p = (node_end (nodes mm) p, start (nodes mm (next_node mm p)))"

text \<open>
  The common effect of the insertion routines: \<open>f\<close> sets the fields of the new node, \<open>flush\<close> says
  that it starts where the hole starts, \<open>rest\<close> that it ends before the hole ends.
\<close>

definition put :: "drm_mm \<Rightarrow> ptr \<Rightarrow> ptr \<Rightarrow> (mm_node \<Rightarrow> mm_node) \<Rightarrow> bool \<Rightarrow> bool \<Rightarrow> drm_mm" where
  "put mm p n f flush rest =
     (let mm = (if flush then del_hole p (upd_node p (\<lambda>n. n\<lparr>hole_follows := False\<rparr>) mm) else mm);
          mm = upd_node n (\<lambda>n. n\<lparr>hole_follows := False\<rparr>) (ring_add n p (upd_node n f mm))
      in if rest then upd_node n (\<lambda>n. n\<lparr>hole_follows := True\<rparr>) (push_hole n mm) else mm)"

lemma put_placed:
  assumes "p \<noteq> n" and "flush \<longleftrightarrow> a = fst (hole_of mm p)" and "rest \<longleftrightarrow> a + sz < snd (hole_of mm p)"
    and "start (f (nodes mm n)) = a" "nsize (f (nodes mm n)) = sz" "allocated (f (nodes mm n))"
    and "scanned_block (f (nodes mm n)) = scanned_block (nodes mm n)"
      "scanned_prev_free (f (nodes mm n)) = scanned_prev_free (nodes mm n)"
      "scanned_next_free (f (nodes mm n)) = scanned_next_free (nodes mm n)"
  shows "placed mm p n a sz (put mm p n f flush rest)"
proof -
  let ?g = "\<lambda>x. (f (nodes mm n))\<lparr>hole_follows := x\<rparr>"
  have "nodes (put mm p n f flush rest) = (if flush then (nodes mm)(p := (nodes mm p)\<lparr>hole_follows := False\<rparr>, n := ?g rest)
      else (nodes mm)(n := ?g rest))"
    using assms(1) by (simp add: put_def fun_eq_iff Let_def)
  moreover have "hole_stack (put mm p n f flush rest) =
      (if rest then [n] else []) @ (if flush then remove1 p (hole_stack mm) else hole_stack mm)"
    by (simp add: put_def Let_def)
  moreover have "ring (put mm p n f flush rest) = insert_after p n (ring mm)"
    "scanned_blocks (put mm p n f flush rest) = scanned_blocks mm"
    "color_adjust (put mm p n f flush rest) = color_adjust mm"
    by (simp_all add: put_def Let_def)
  ultimately show ?thesis
    using assms unfolding placed_def hole_of_def Let_def fst_conv snd_conv by simp
qed

lemma insert_helper_put:
  assumes h: "hdr_ok h" and p: "hole_follows (nodes mm p)" "p \<noteq> n"
    and i: "drm_mm_insert_helper h mm p n sz al col tp = Inr mm'"
    and adj: "adjust mm p col (hole_of mm p) = (s, e)"
    and a: "a = align_start tp al (if tp then e - sz else s)"
  shows "fst (hole_of mm p) \<le> a \<and> e \<le> snd (hole_of mm p) \<and> a + sz \<le> e \<and>
    mm' = put mm p n (\<lambda>n. n\<lparr>start := a, nsize := sz, color := col, allocated := True\<rparr>)
      (a = fst (hole_of mm p)) (a + sz < snd (hole_of mm p))"
  using i adj p unfolding drm_mm_insert_helper_def hdr_okD(3) [OF h p(1)] hdr_okD(4) [OF h]
  by (simp add: Let_def hole_of_def a [symmetric] hdr_okD [OF h] put_def node_end_def not_less
      split: if_split_asm)

lemma insert_helper_placed:
  assumes h: "hdr_ok h" and p: "hole_follows (nodes mm p)" "p \<noteq> n"
    and i: "drm_mm_insert_helper h mm p n sz al col tp = Inr mm'"
    and adj: "adjust mm p col (hole_of mm p) = (s, e)"
  defines "a \<equiv> align_start tp al (if tp then e - sz else s)"
  shows "placed mm p n a sz mm'" and "fst (hole_of mm p) \<le> a" and "e \<le> snd (hole_of mm p)"
    and "a + sz \<le> e"
proof -
  note * = insert_helper_put [OF h p i adj meta_eq_to_obj_eq [OF a_def]]
  then show "fst (hole_of mm p) \<le> a" and "e \<le> snd (hole_of mm p)" and "a + sz \<le> e" by blast+
  from * show "placed mm p n a sz mm'" using p(2) by (simp add: put_placed)
qed

lemma insert_helper_range_put:
  assumes h: "hdr_ok h" and p: "hole_follows (nodes mm p)" "p \<noteq> n"
    and i: "drm_mm_insert_helper_range h mm p n sz al col st en tp = Inr mm'"
    and lim: "range_lim st en (hole_of mm p) = (s0, e0)"
    and adj: "adjust mm p col (if tp then e0 - sz else s0, e0) = (s, e)"
    and a: "a = align_start tp al s"
  shows "st \<le> a \<and> a + sz \<le> e \<and> a + sz \<le> en \<and>
    mm' = put mm p n (\<lambda>n. n\<lparr>start := a, nsize := sz, color := col, allocated := True\<rparr>)
      (a = fst (hole_of mm p)) (a + sz < snd (hole_of mm p))"
proof -
  have s0: "s0 = (if fst (hole_of mm p) < st then st else fst (hole_of mm p))"
    and e0: "e0 = (if snd (hole_of mm p) > en then en else snd (hole_of mm p))"
    using lim by (simp_all add: range_lim_def)
  let ?mm = "put mm p n (\<lambda>n. n\<lparr>start := a, nsize := sz, color := col, allocated := True\<rparr>)
      (a = fst (hole_of mm p)) (a + sz < snd (hole_of mm p))"
  have "drm_mm_insert_helper_range h mm p n sz al col st en tp = (if allocated (nodes mm n) then Inl BUG
      else if a < st \<or> a < a \<or> a + sz > e \<or> a + sz > en then Inl BUG else Inr ?mm)"
    unfolding drm_mm_insert_helper_range_def hdr_okD(3) [OF h p(1)] hdr_okD(4) [OF h] Let_def
        s0 [symmetric, unfolded hole_of_def fst_conv] e0 [symmetric, unfolded hole_of_def snd_conv] adj
        prod.case a [symmetric] hole_of_def fst_conv snd_conv
    using p by (cases "a = node_end (nodes mm) p")
      (simp_all add: put_def hdr_okD(1) [OF h] node_end_def [of _ n])
  with i
show ?thesis by (simp add: not_less split: if_split_asm)
qed

lemma insert_helper_range_placed:
  assumes h: "hdr_ok h" and p: "hole_follows (nodes mm p)" "p \<noteq> n"
    and i: "drm_mm_insert_helper_range h mm p n sz al col st en tp = Inr mm'"
    and lim: "range_lim st en (hole_of mm p) = (s0, e0)"
    and adj: "adjust mm p col (if tp then e0 - sz else s0, e0) = (s, e)"
  defines "a \<equiv> align_start tp al s"
  shows "placed mm p n a sz mm'" and "st \<le> a" and "a + sz \<le> e" and "a + sz \<le> en"
proof -
  note * = insert_helper_range_put [OF h p i lim adj meta_eq_to_obj_eq [OF a_def]]
  then show "st \<le> a" and "a + sz \<le> e" and "a + sz \<le> en" by blast+
  from * show "placed mm p n a sz mm'" using p(2) by (simp add: put_placed)
qed

lemma reserve_step_put:
  assumes "p \<noteq> n" and "\<not> (hs > start (nodes mm n) \<or> he < en)"
  shows "reserve_loop mm n en ((p, hs, he) # l) =
    Inr (put mm p n (\<lambda>n. n\<lparr>allocated := True\<rparr>) (start (nodes mm n) = hs) (en \<noteq> he))"
proof -
  have *: "del_hole p (upd_node p f (ring_add n p (upd_node n g mm))) =
      ring_add n p (upd_node n g (del_hole p (upd_node p f mm)))" for f g
    using assms(1) by (cases mm) (simp add: del_hole_def upd_node_def ring_add_def ring_def fun_eq_iff)
  show ?thesis using assms by (simp add: put_def Let_def *)
qed

lemma reserve_loop_placed:
  assumes "\<forall>p \<in> set l. p \<noteq> n"
    and "reserve_loop mm n (node_end (nodes mm) n) (map (\<lambda>p. (p, hole_of mm p)) l) = Inr mm'"
  shows "\<exists>p \<in> set l. placed mm p n (start (nodes mm n)) (nsize (nodes mm n)) mm' \<and>
    fst (hole_of mm p) \<le> start (nodes mm n) \<and> node_end (nodes mm) n \<le> snd (hole_of mm p)"
  using assms
proof (induction l)
  case (Cons p l)
  show ?case
  proof (cases "fst (hole_of mm p) > start (nodes mm n) \<or> snd (hole_of mm p) < node_end (nodes mm) n")
    case True
    with Cons show ?thesis by (cases "hole_of mm p") auto
  next
    case False
    then have "mm' = put mm p n (\<lambda>n. n\<lparr>allocated := True\<rparr>) (start (nodes mm n) = fst (hole_of mm p))
        (node_end (nodes mm) n \<noteq> snd (hole_of mm p))"
      using reserve_step_put [where hs = "fst (hole_of mm p)" and he = "snd (hole_of mm p)"] Cons.prems by simp
    moreover have "placed mm p n (start (nodes mm n)) (nsize (nodes mm n)) (put mm p n (\<lambda>n. n\<lparr>allocated := True\<rparr>)
        (start (nodes mm n) = fst (hole_of mm p)) (node_end (nodes mm) n \<noteq> snd (hole_of mm p)))"
      using Cons.prems(1) False by (intro put_placed) (auto simp: node_end_def)
    ultimately show ?thesis using False by (auto simp: not_less)
  qed
qed simp

lemma reserve_placed:
  assumes h: "hdr_ok h" and wf: "mm_wf mm" and n: "n \<notin> set (ring mm)"
    and i: "drm_mm_reserve_node h mm n = Inr mm'"
  obtains p where "p \<in> set (hole_stack mm)" "placed mm p n (start (nodes mm n)) (nsize (nodes mm n)) mm'"
    "fst (hole_of mm p) \<le> start (nodes mm n)" "node_end (nodes mm) n \<le> snd (hole_of mm p)"
proof -
  have "for_each_hole h mm False = map (\<lambda>p. (p, hole_of mm p)) (hole_stack mm)"
    using hdr_okD [OF h] mm_wfD(5) [OF wf] by (auto simp: hole_of_def)
  moreover have "\<forall>p \<in> set (hole_stack mm). p \<noteq> n" using n mm_wfD(5) [OF wf] by auto
  ultimately show thesis
    using reserve_loop_placed [of "hole_stack mm" n mm mm'] i that
    by (auto simp: drm_mm_reserve_node_def node_end_def)
qed

end
