(* ===== verification/Drm_Mm_Alloc.thy ===== *)
theory Drm_Mm_Alloc
  imports Drm_Mm_Inv
begin

text \<open>
  Allocation: what the searches over the holes return, and that an insertion after a search puts
  the node, aligned and of the size asked for, into free space, or reports that no hole fits.
\<close>

section \<open>The searches\<close>

text \<open>
  A hole fits when the first aligned address in it leaves room for the node.  The condition is on
  natural numbers, without wrap-around.
\<close>

definition fits :: "drm_mm \<Rightarrow> (ulong \<times> ulong \<Rightarrow> ulong \<times> ulong) \<Rightarrow> ulong \<Rightarrow> u32 \<Rightarrow> ulong \<Rightarrow> ptr \<Rightarrow> bool" where
  "fits mm lim sz al col p \<longleftrightarrow> (case adjust mm p col (lim (hole_of mm p)) of (s, e) \<Rightarrow>
     (color_adjust mm = None \<or> s < e) \<and> align_up (unat al) (unat s) + unat sz \<le> unat e)"

text \<open>A colour callback may only shrink a hole.\<close>

definition color_ok :: "drm_mm \<Rightarrow> (ulong \<times> ulong \<Rightarrow> ulong \<times> ulong) \<Rightarrow> ulong \<Rightarrow> bool" where
  "color_ok mm lim col \<longleftrightarrow> (\<forall>p \<in> set (hole_stack mm).
     case adjust mm p col (lim (hole_of mm p)) of (s, e) \<Rightarrow>
       fst (lim (hole_of mm p)) \<le> s \<and> e \<le> snd (lim (hole_of mm p)))"

lemma check_free_hole_iff:
  assumes e: "unat e + 2 ^ 32 \<le> 2 ^ 64" and s: "s \<le> e \<or> unat s + unat sz + 2 ^ 32 \<le> 2 ^ 64"
  shows "check_free_hole s e sz al \<longleftrightarrow> align_up (unat al) (unat s) + unat sz \<le> unat e"
proof -
  have al: "unat al < 2 ^ 32" using unsigned_less [of al] by simp
  note ge = align_up_ge [of "unat s" "unat al"] and lt = align_up_less [OF al, of "unat s"]
  show ?thesis
  proof (cases "s \<le> e")
    case True
    then have d: "unat (e - s) = unat e - unat s" by (simp add: unat_sub word_le_nat_alt)
    have se: "unat s \<le> unat e" using True by (simp add: word_le_nat_alt)
    then have a: "unat (align_start False al s) = align_up (unat al) (unat s)"
      using e by (intro unat_align_up) simp
    show ?thesis
    proof (cases "unat s + unat sz \<le> unat e")
      case True
      then have "unat (align_start False al s) + unat sz < 2 ^ 64" using a lt e by linarith
      then have "unat (align_start False al s + sz) = align_up (unat al) (unat s) + unat sz"
        using a by (subst unat_add_lem [THEN iffD1]) simp_all
      with True d se show ?thesis by (auto simp add: check_free_hole_def word_less_nat_alt word_le_nat_alt)
    next
      case False
      then show ?thesis using d ge se by (auto simp add: check_free_hole_def word_less_nat_alt)
    qed
  next
    case False
    with s have s': "unat s + unat sz + 2 ^ 32 \<le> 2 ^ 64" by simp
    then have a: "unat (align_start False al s) = align_up (unat al) (unat s)"
      by (intro unat_align_up) simp
    then have "unat (align_start False al s) + unat sz < 2 ^ 64" using lt s' by linarith
    then have "unat (align_start False al s + sz) = align_up (unat al) (unat s) + unat sz"
      using a by (subst unat_add_lem [THEN iffD1]) simp_all
    with False ge show ?thesis by (simp add: check_free_hole_def word_le_nat_alt)
  qed
qed

text \<open>The test of the search loops on a hole.\<close>

definition hole_fits :: "drm_mm \<Rightarrow> (ulong \<times> ulong \<Rightarrow> ulong \<times> ulong) \<Rightarrow> ulong \<Rightarrow> u32 \<Rightarrow> ulong \<Rightarrow> ptr \<Rightarrow> bool" where
  "hole_fits mm lim sz al col p \<longleftrightarrow> (case adjust mm p col (lim (hole_of mm p)) of (s, e) \<Rightarrow>
     (color_adjust mm = None \<or> s < e) \<and> check_free_hole s e sz al)"

definition hole_size :: "drm_mm \<Rightarrow> ptr \<Rightarrow> ulong" where
  "hole_size mm p = snd (hole_of mm p) - fst (hole_of mm p)"

lemma search_step:
  "search_loop mm lim sz al col best bst bs (map (\<lambda>p. (p, hole_of mm p)) (p # ps)) =
     (if \<not> hole_fits mm lim sz al col p
      then search_loop mm lim sz al col best bst bs (map (\<lambda>p. (p, hole_of mm p)) ps)
      else if \<not> best then Some p
      else if hole_size mm p < bs
      then search_loop mm lim sz al col best (Some p) (hole_size mm p) (map (\<lambda>p. (p, hole_of mm p)) ps)
      else search_loop mm lim sz al col best bst bs (map (\<lambda>p. (p, hole_of mm p)) ps))"
  by (cases "hole_of mm p"; cases "adjust mm p col (lim (hole_of mm p))")
    (auto simp: hole_fits_def hole_size_def not_less Let_def)

lemma search_first:
  "search_loop mm lim sz al col False bst bs (map (\<lambda>p. (p, hole_of mm p)) ps) =
     (case find (hole_fits mm lim sz al col) ps of None \<Rightarrow> bst | Some p \<Rightarrow> Some p)"
proof (induction ps)
  case (Cons p ps)
  then show ?case unfolding search_step by simp
qed simp

lemma search_best:
  assumes "search_loop mm lim sz al col True bst bs (map (\<lambda>p. (p, hole_of mm p)) ps) = r"
  shows "(r = bst \<and> (\<forall>q \<in> set ps. hole_fits mm lim sz al col q \<longrightarrow> bs \<le> hole_size mm q)) \<or>
    (\<exists>p \<in> set ps. r = Some p \<and> hole_fits mm lim sz al col p \<and> hole_size mm p < bs \<and>
      (\<forall>q \<in> set ps. hole_fits mm lim sz al col q \<longrightarrow> hole_size mm p \<le> hole_size mm q))"
  using assms
proof (induction ps arbitrary: bst bs)
  case (Cons p ps)
  show ?case
  proof (cases "hole_fits mm lim sz al col p \<and> hole_size mm p < bs")
    case True
    with Cons.prems have "search_loop mm lim sz al col True (Some p) (hole_size mm p)
        (map (\<lambda>p. (p, hole_of mm p)) ps) = r" unfolding search_step by simp
    from Cons.IH [OF this] show ?thesis
      by (elim disjE bexE conjE) (use True in \<open>auto intro: less_imp_le less_trans\<close>)
  next
    case False
    with Cons.prems have "search_loop mm lim sz al col True bst bs (map (\<lambda>p. (p, hole_of mm p)) ps) = r"
      unfolding search_step by (simp split: if_split_asm)
    from Cons.IH [OF this] show ?thesis
      by (elim disjE bexE conjE) (use False in \<open>auto simp: not_less intro: less_imp_le less_le_trans\<close>)
  qed
qed simp

subsection \<open>Bounds\<close>

lemma spaced_before:
  assumes "spaced ns (p # ys @ q # zs)" and "\<forall>x \<in> set ys. start (ns x) \<le> node_end ns x"
  shows "node_end ns p \<le> start (ns q)"
  using assms
proof (induction ys arbitrary: p)
  case (Cons y ys)
  then have "node_end ns y \<le> start (ns q)" by simp
  with Cons.prems show ?case by (auto intro: order_trans)
qed simp

lemma node_ok_le: "node_ok (ns p) \<Longrightarrow> start (ns p) \<le> node_end ns p"
  by (auto simp: node_ok_def node_end_def)

lemma ok_ring_before:
  assumes wf: "ring_ok mm" and r: "ring mm @ [head_node] = xs @ p # ys @ q # zs"
  shows "node_end (nodes mm) p \<le> start (nodes mm q)"
proof (rule spaced_before)
  show "spaced (nodes mm) (p # ys @ q # zs)"
    using ring_okD(2) [OF wf] r spaced_append [of "nodes mm" xs p "ys @ q # zs"] by simp
  have "butlast (tl (ring mm @ [head_node])) = node_list mm" by (simp add: ring_def)
  moreover have "set ys \<subseteq> set (butlast (tl (xs @ p # ys @ q # zs)))"
    by (cases xs) (auto simp: butlast_append)
  ultimately have "set ys \<subseteq> set (node_list mm)" using r by simp
  then show "\<forall>x \<in> set ys. start (nodes mm x) \<le> node_end (nodes mm) x"
    using ring_okD(3) [OF wf] less_imp_le by blast
qed

lemmas ring_before = ok_ring_before [OF wf_ring]

lemma ok_node_bounds:
  assumes "ring_ok mm" and "p \<in> set (node_list mm)"
  shows "node_end (nodes mm) head_node \<le> start (nodes mm p)"
    and "node_end (nodes mm) p \<le> start (nodes mm head_node)"
proof -
  from assms(2) obtain xs ys where n: "node_list mm = xs @ p # ys" by (meson split_list)
  show "node_end (nodes mm) head_node \<le> start (nodes mm p)"
    using ok_ring_before [OF assms(1), of "[]" head_node xs p] n by (simp add: ring_def)
  show "node_end (nodes mm) p \<le> start (nodes mm head_node)"
    using ok_ring_before [OF assms(1), of "head_node # xs" p ys head_node "[]"] n by (simp add: ring_def)
qed

lemmas node_bounds = ok_node_bounds [OF wf_ring]

lemma ok_nodes_disjoint:
  assumes "ring_ok mm" and "p \<in> set (node_list mm)" and "q \<in> set (node_list mm)" and "p \<noteq> q"
  shows "node_end (nodes mm) p \<le> start (nodes mm q) \<or> node_end (nodes mm) q \<le> start (nodes mm p)"
proof -
  from assms(2) obtain xs ys where n: "node_list mm = xs @ p # ys" by (meson split_list)
  with assms(3,4) consider "q \<in> set ys" | "q \<in> set xs" by auto
  then show ?thesis
  proof cases
    case 1
    then obtain us vs where "ys = us @ q # vs" by (meson split_list)
    with n show ?thesis
      using ok_ring_before [OF assms(1), of "head_node # xs" p us q "vs @ [head_node]"] by (simp add: ring_def)
  next
    case 2
    then obtain us vs where "xs = us @ q # vs" by (meson split_list)
    with n show ?thesis
      using ok_ring_before [OF assms(1), of "head_node # us" q vs p "ys @ [head_node]"] by (simp add: ring_def)
  qed
qed

lemmas nodes_disjoint = ok_nodes_disjoint [OF wf_ring]

lemma hole_bounds:
  assumes wf: "mm_wf mm" and p: "p \<in> set (hole_stack mm)"
  shows "fst (hole_of mm p) < snd (hole_of mm p)"
    and "snd (hole_of mm p) \<le> start (nodes mm head_node)"
    and "unat (snd (hole_of mm p)) + 2 ^ 32 \<le> 2 ^ 64"
proof -
  have pr: "p \<in> set (ring mm)" "hole_follows (nodes mm p)" using p mm_wfD(5) [OF wf] by auto
  with hole_nonempty [OF wf] show "fst (hole_of mm p) < snd (hole_of mm p)" by (simp add: hole_of_def)
  have "next_node mm p \<in> set (ring mm)" by (rule next_in_ring [OF wf pr(1)])
  then have "next_node mm p \<in> set (node_list mm) \<or> next_node mm p = head_node" by (auto simp: ring_def)
  then show "snd (hole_of mm p) \<le> start (nodes mm head_node)"
    using node_bounds(2) [OF wf] node_ok_le [where ns = "nodes mm", OF mm_wfD(3) [OF wf]] order_trans
    by (fastforce simp: hole_of_def)
  then show "unat (snd (hole_of mm p)) + 2 ^ 32 \<le> 2 ^ 64"
    using mm_wfD(7) [OF wf] by (simp add: word_le_nat_alt)
qed

subsection \<open>The test of the code is the specification's\<close>

text \<open>
  A restriction of the holes is sane when it stays inside them and a hole that it turns inside out
  is not so high that a node behind its start would wrap around.
\<close>

definition lim_ok :: "drm_mm \<Rightarrow> (ulong \<times> ulong \<Rightarrow> ulong \<times> ulong) \<Rightarrow> ulong \<Rightarrow> bool" where
  "lim_ok mm lim sz \<longleftrightarrow> (\<forall>p \<in> set (hole_stack mm). case lim (hole_of mm p) of (s, e) \<Rightarrow>
     fst (hole_of mm p) \<le> s \<and> e \<le> snd (hole_of mm p) \<and>
     (s \<le> e \<or> unat s + unat sz + 2 ^ 32 \<le> 2 ^ 64))"

lemma lim_ok_id: "mm_wf mm \<Longrightarrow> lim_ok mm (\<lambda>r. r) sz"
  using hole_bounds(1) by (fastforce simp: lim_ok_def split: prod.splits)

lemma lim_ok_range:
  assumes wf: "mm_wf mm" and "unat st + unat sz + 2 ^ 32 \<le> 2 ^ 64"
    and "unat (start (nodes mm head_node)) + unat sz + 2 ^ 32 \<le> 2 ^ 64"
  shows "lim_ok mm (range_lim st en) sz"
proof -
  have "unat (fst (hole_of mm p)) + unat sz + 2 ^ 32 \<le> 2 ^ 64" if "p \<in> set (hole_stack mm)" for p
    using hole_bounds(1,2) [OF wf that] assms(3) by (simp add: word_less_nat_alt word_le_nat_alt)
  then show ?thesis using assms(2) by (fastforce simp: lim_ok_def range_lim_def)
qed

lemma hole_fits_iff:
  assumes wf: "mm_wf mm" and lim: "lim_ok mm lim sz" and c: "color_ok mm lim col"
    and p: "p \<in> set (hole_stack mm)"
  shows "hole_fits mm lim sz al col p = fits mm lim sz al col p"
proof -
  obtain s e where a: "adjust mm p col (lim (hole_of mm p)) = (s, e)" by fastforce
  obtain s0 e0 where l: "lim (hole_of mm p) = (s0, e0)" by fastforce
  have e: "e \<le> e0" "e0 \<le> snd (hole_of mm p)"
    using c lim p a l by (auto simp: color_ok_def lim_ok_def)
  then have e': "unat e + 2 ^ 32 \<le> 2 ^ 64"
    using hole_bounds(3) [OF wf p] by (simp add: word_le_nat_alt)
  have "s \<le> e \<or> unat s + unat sz + 2 ^ 32 \<le> 2 ^ 64" if "color_adjust mm = None \<or> s < e"
    using that lim p a l by (auto simp: lim_ok_def adjust_def)
  then show ?thesis using a check_free_hole_iff [OF e'] by (auto simp: hole_fits_def fits_def)
qed

lemma for_each_hole_map:
  assumes h: "hdr_ok h" and wf: "mm_wf mm"
  shows "for_each_hole h mm b = map (\<lambda>p. (p, hole_of mm p)) (if b then rev (hole_stack mm) else hole_stack mm)"
  using hdr_okD [OF h] mm_wfD(5) [OF wf] by (auto simp: hole_of_def)

lemma hole_size_less:
  assumes "mm_wf mm" and "p \<in> set (hole_stack mm)"
  shows "hole_size mm p < NOT 0"
proof -
  have "unat (hole_size mm p) = unat (snd (hole_of mm p)) - unat (fst (hole_of mm p))"
    using hole_bounds(1) [OF assms] by (simp add: hole_size_def unat_sub word_le_nat_alt word_less_nat_alt)
  moreover have "unat (NOT 0 :: ulong) = 2 ^ 64 - 1"
    by (simp add: unsigned_minus_1_eq_mask mask_eq_exp_minus_1)
  ultimately show ?thesis using hole_bounds(3) [OF assms] by (simp add: word_less_nat_alt)
qed

text \<open>The searches return a hole that fits if there is one, and the best search a smallest.\<close>

lemma search_loop_correct:
  assumes h: "hdr_ok h" and wf: "mm_wf mm" and lim: "lim_ok mm lim sz" and c: "color_ok mm lim col"
    and r: "search_loop mm lim sz al col best None (NOT 0) (for_each_hole h mm below) = r"
  shows "r = None \<Longrightarrow> \<forall>p \<in> set (hole_stack mm). \<not> fits mm lim sz al col p"
    and "r = Some p \<Longrightarrow> p \<in> set (hole_stack mm) \<and> fits mm lim sz al col p"
    and "r = Some p \<Longrightarrow> best \<Longrightarrow>
      \<forall>q \<in> set (hole_stack mm). fits mm lim sz al col q \<longrightarrow> hole_size mm p \<le> hole_size mm q"
proof -
  obtain ps where ps: "ps = (if below then rev (hole_stack mm) else hole_stack mm)" by simp
  then have s: "set ps = set (hole_stack mm)" by simp
  note f = hole_fits_iff [OF wf lim c]
  note r' = r [unfolded for_each_hole_map [OF h wf] ps [symmetric]]
  have res: "case r of None \<Rightarrow> \<forall>q \<in> set ps. \<not> hole_fits mm lim sz al col q
    | Some p \<Rightarrow> p \<in> set ps \<and> hole_fits mm lim sz al col p \<and>
        (best \<longrightarrow> (\<forall>q \<in> set ps. hole_fits mm lim sz al col q \<longrightarrow> hole_size mm p \<le> hole_size mm q))"
  proof (cases best)
    case True
    show ?thesis
      using search_best [OF r' [unfolded True eqTrueI [OF True]]] hole_size_less [OF wf] s
      by (auto simp flip: not_less)
  next
    case False
    then have "r = find (hole_fits mm lim sz al col) ps"
      using r' by (simp add: search_first split: option.splits)
    then show ?thesis
      using False by (auto simp: find_None_iff find_Some_iff split: option.splits)
  qed
  show "\<forall>p \<in> set (hole_stack mm). \<not> fits mm lim sz al col p" if "r = None"
    using that res s f by simp
  show "p \<in> set (hole_stack mm) \<and> fits mm lim sz al col p" if "r = Some p"
    using that res s f by auto
  show "\<forall>q \<in> set (hole_stack mm). fits mm lim sz al col q \<longrightarrow> hole_size mm p \<le> hole_size mm q"
    if "r = Some p" and best
    using that res s f by simp
qed

section \<open>Insertion\<close>

text \<open>The address the helpers compute lies in the hole, is aligned, and does not wrap around.\<close>

lemma addr_ok:
  assumes f: "align_up (unat al) (unat s) + unat sz \<le> unat e" and e: "unat e + 2 ^ 32 \<le> 2 ^ 64"
    and sz: "sz \<noteq> 0" and a: "a = align_start tp al (if tp then e - sz else s)"
  shows "s \<le> a" and "a + sz \<le> e" and "a < a + sz" and "al = 0 \<or> unat al dvd unat a"
proof -
  have s: "unat s \<le> align_up (unat al) (unat s)" by (rule align_up_ge)
  have "unat s \<le> unat a \<and> unat a + unat sz \<le> unat e \<and> (al = 0 \<or> unat al dvd unat a)"
  proof (cases tp)
    case True
    have "unat (e - sz) = unat e - unat sz" using f by (simp add: unat_sub word_le_nat_alt)
    then have "unat a = align_down (unat al) (unat e - unat sz)"
      using a True by (simp add: unat_align_down)
    moreover have "align_up (unat al) (unat s) \<le> align_down (unat al) (unat e - unat sz)"
      using f align_up_dvd [of "unat al" "unat s"] by (intro align_down_greatest) simp_all
    ultimately show ?thesis
      using s f align_down_le [of "unat al" "unat e - unat sz"]
        align_down_dvd [of "unat al" "unat e - unat sz"] by (auto simp: unat_eq_zero)
  next
    case False
    then have "unat a = align_up (unat al) (unat s)"
      using a f s e by (simp add: unat_align_up)
    then show ?thesis using s f align_up_dvd [of "unat al" "unat s"] by (auto simp: unat_eq_zero)
  qed
  moreover from this have "unat (a + sz) = unat a + unat sz"
    using e by (subst unat_add_lem [THEN iffD1]) simp_all
  ultimately show "s \<le> a" and "a + sz \<le> e" and "a < a + sz" and "al = 0 \<or> unat al dvd unat a"
    using sz by (simp_all add: word_le_nat_alt word_less_nat_alt unat_gt_0)
qed

text \<open>A node that is not in use: not on the ring and with its flags clear.\<close>

definition fresh :: "drm_mm \<Rightarrow> ptr \<Rightarrow> bool" where
  "fresh mm n \<longleftrightarrow> n \<notin> set (ring mm) \<and> \<not> allocated (nodes mm n) \<and> \<not> scanned_block (nodes mm n) \<and>
     \<not> scanned_prev_free (nodes mm n) \<and> \<not> scanned_next_free (nodes mm n)"

text \<open>
  What an insertion promises: the allocator stays well formed, the other nodes keep their places,
  the new node has the size and alignment asked for, and no node off the ring is written to.
\<close>

definition allocated_at :: "drm_mm \<Rightarrow> ptr \<Rightarrow> ulong \<Rightarrow> u32 \<Rightarrow> drm_mm \<Rightarrow> bool" where
  "allocated_at mm n sz al mm' \<longleftrightarrow> mm_wf mm' \<and>
     n \<in> set (node_list mm') \<and> remove1 n (node_list mm') = node_list mm \<and>
     (\<forall>q \<in> set (ring mm). start (nodes mm' q) = start (nodes mm q) \<and> nsize (nodes mm' q) = nsize (nodes mm q)) \<and>
     nsize (nodes mm' n) = sz \<and> (al = 0 \<or> unat al dvd unat (start (nodes mm' n))) \<and>
     (\<forall>q. q \<notin> set (ring mm) \<and> q \<noteq> n \<longrightarrow> nodes mm' q = nodes mm q) \<and> color_adjust mm' = color_adjust mm"

lemma hole_in_ring:
  assumes "mm_wf mm" and "p \<in> set (hole_stack mm)"
  shows "p \<in> set (ring mm)" and "hole_follows (nodes mm p)"
  using assms mm_wfD(5) by auto

lemma placed_node_list:
  assumes wf: "mm_wf mm" and pl: "placed mm p n a sz mm'" and p: "p \<in> set (hole_stack mm)"
    and n: "n \<notin> set (ring mm)"
  shows "n \<in> set (node_list mm')" and "remove1 n (node_list mm') = node_list mm"
proof -
  obtain xs ys where r: "ring mm = xs @ p # ys" "p \<notin> set xs"
    by (rule ring_split [OF wf hole_in_ring(1) [OF wf p]])
  from placed_ring [OF pl r] r n show "n \<in> set (node_list mm')" "remove1 n (node_list mm') = node_list mm"
    by (cases xs; auto simp: ring_def remove1_append)+
qed

lemma placed_allocated:
  assumes wf: "mm_wf mm" and pl: "placed mm p n a sz mm'" and p: "p \<in> set (hole_stack mm)"
    and n: "fresh mm n" and lo: "fst (hole_of mm p) \<le> a" and hi: "a + sz \<le> snd (hole_of mm p)"
    and sz: "a < a + sz" and al: "al = 0 \<or> unat al dvd unat a"
  shows "allocated_at mm n sz al mm'"
proof -
  have "color_adjust mm' = color_adjust mm" "\<forall>q. q \<notin> set (ring mm) \<and> q \<noteq> n \<longrightarrow> nodes mm' q = nodes mm q"
    using pl hole_in_ring(1) [OF wf p] by (auto simp: placed_def Let_def)
  then show ?thesis
    using placed_wf [OF wf pl p] n lo hi sz al placed_node_list [OF wf pl p] placed_new [OF pl]
      placed_nodes(1,2) [OF pl]
    by (auto simp: allocated_at_def fresh_def hole_of_def)
qed

lemma insert_helper_Inr:
  assumes h: "hdr_ok h" and p: "hole_follows (nodes mm p)" and n: "\<not> allocated (nodes mm n)"
    and adj: "adjust mm p col (hole_of mm p) = (s, e)"
    and a: "a = align_start tp al (if tp then e - sz else s)"
    and b: "fst (hole_of mm p) \<le> a" "e \<le> snd (hole_of mm p)" "a + sz \<le> e"
  shows "\<exists>mm'. drm_mm_insert_helper h mm p n sz al col tp = Inr mm'"
  using adj n b unfolding drm_mm_insert_helper_def hdr_okD(3) [OF h p(1)] hdr_okD(4) [OF h]
  by (simp add: Let_def hole_of_def a [symmetric] node_end_def not_less [symmetric])

lemma insert_helper_range_Inr:
  assumes h: "hdr_ok h" and p: "hole_follows (nodes mm p)" and n: "\<not> allocated (nodes mm n)"
    and lim: "range_lim st en (hole_of mm p) = (s0, e0)"
    and adj: "adjust mm p col (if tp then e0 - sz else s0, e0) = (s, e)"
    and a: "a = align_start tp al s"
    and b: "st \<le> a" "a + sz \<le> e" "a + sz \<le> en"
  shows "\<exists>mm'. drm_mm_insert_helper_range h mm p n sz al col st en tp = Inr mm'"
proof -
  have s0: "s0 = (if fst (hole_of mm p) < st then st else fst (hole_of mm p))"
    and e0: "e0 = (if snd (hole_of mm p) > en then en else snd (hole_of mm p))"
    using lim by (simp_all add: range_lim_def)
  show ?thesis
    unfolding drm_mm_insert_helper_range_def hdr_okD(3) [OF h p(1)] hdr_okD(4) [OF h] Let_def
        s0 [symmetric, unfolded hole_of_def fst_conv] e0 [symmetric, unfolded hole_of_def snd_conv] adj
        prod.case a [symmetric]
    using p n b by (simp add: node_end_def [of _ n] not_less [symmetric])
qed

lemma insert_helper_correct:
  assumes h: "hdr_ok h" and wf: "mm_wf mm" and c: "color_ok mm (\<lambda>r. r) col" and n: "fresh mm n"
    and sz: "sz \<noteq> 0" and p: "p \<in> set (hole_stack mm)" and f: "fits mm (\<lambda>r. r) sz al col p"
  shows "\<exists>mm'. drm_mm_insert_helper h mm p n sz al col tp = Inr mm' \<and> allocated_at mm n sz al mm'"
proof -
  note pr = hole_in_ring [OF wf p]
  have pn: "p \<noteq> n" "\<not> allocated (nodes mm n)" using n pr by (auto simp: fresh_def)
  obtain s e where adj: "adjust mm p col (hole_of mm p) = (s, e)" by fastforce
  with c p have b: "fst (hole_of mm p) \<le> s" "e \<le> snd (hole_of mm p)" by (auto simp: color_ok_def)
  with hole_bounds(3) [OF wf p] have e: "unat e + 2 ^ 32 \<le> 2 ^ 64" by (simp add: word_le_nat_alt)
  from f adj have "align_up (unat al) (unat s) + unat sz \<le> unat e" by (simp add: fits_def)
  note a = addr_ok [OF this e sz refl, of tp]
  obtain mm' where mm': "drm_mm_insert_helper h mm p n sz al col tp = Inr mm'"
    using insert_helper_Inr [OF h pr(2) pn(2) adj refl order_trans [OF b(1) a(1)] b(2) a(2)] by blast
  note i = insert_helper_placed [OF h pr(2) pn(1) mm' adj]
  show ?thesis using mm' placed_allocated [OF wf i(1) p n i(2) order_trans [OF i(4,3)] a(3,4)] by blast
qed

lemma insert_helper_range_correct:
  assumes h: "hdr_ok h" and wf: "mm_wf mm" and c: "color_ok mm (range_lim st en) col" and n: "fresh mm n"
    and sz: "sz \<noteq> 0" and p: "p \<in> set (hole_stack mm)" and f: "fits mm (range_lim st en) sz al col p"
    and tp: "tp \<longrightarrow> color_adjust mm = None"
  shows "\<exists>mm'. drm_mm_insert_helper_range h mm p n sz al col st en tp = Inr mm' \<and>
    allocated_at mm n sz al mm' \<and> st \<le> start (nodes mm' n) \<and> node_end (nodes mm') n \<le> en"
proof -
  note pr = hole_in_ring [OF wf p]
  have pn: "p \<noteq> n" "\<not> allocated (nodes mm n)" using n pr by (auto simp: fresh_def)
  obtain s0 e0 where l: "range_lim st en (hole_of mm p) = (s0, e0)" by fastforce
  then have l': "fst (hole_of mm p) \<le> s0" "st \<le> s0" "e0 \<le> snd (hole_of mm p)" "e0 \<le> en"
    by (auto simp: range_lim_def)
  obtain s1 e where adj1: "adjust mm p col (s0, e0) = (s1, e)" by fastforce
  with c p l have b: "s0 \<le> s1" "e \<le> e0" by (auto simp: color_ok_def)
  with l' hole_bounds(3) [OF wf p] have e: "unat e + 2 ^ 32 \<le> 2 ^ 64" by (simp add: word_le_nat_alt)
  from f adj1 l have "align_up (unat al) (unat s1) + unat sz \<le> unat e" by (simp add: fits_def)
  note a = addr_ok [OF this e sz refl, of tp]
  have adj: "adjust mm p col (if tp then e0 - sz else s0, e0) = (if tp then e - sz else s1, e)"
    using adj1 tp by (auto simp: adjust_def)
  have st: "st \<le> align_start tp al (if tp then e - sz else s1)"
    and hs: "fst (hole_of mm p) \<le> align_start tp al (if tp then e - sz else s1)"
    using a(1) b(1) l'(1,2) by (meson order_trans)+
  have en: "align_start tp al (if tp then e - sz else s1) + sz \<le> en"
    and he: "align_start tp al (if tp then e - sz else s1) + sz \<le> snd (hole_of mm p)"
    using a(2) b(2) l'(3,4) by (meson order_trans)+
  obtain mm' where mm': "drm_mm_insert_helper_range h mm p n sz al col st en tp = Inr mm'"
    using insert_helper_range_Inr [OF h pr(2) pn(2) l adj refl st a(2) en] by blast
  note i = insert_helper_range_placed [OF h pr(2) pn(1) mm' l adj]
  show ?thesis
    using mm' placed_allocated [OF wf i(1) p n hs he a(3,4)] placed_new [OF i(1)] st en by auto
qed

end
