(* ===== verification/Drm_Mm_Reserve.thy ===== *)
theory Drm_Mm_Reserve
  imports Drm_Mm_Alloc
begin

text \<open>
  Allocation, as the callers see it: the insertions after a search, and the reservation of a given
  range, which succeeds exactly when the range is free.
\<close>

section \<open>Free ranges\<close>

definition range_free :: "drm_mm \<Rightarrow> ulong \<Rightarrow> ulong \<Rightarrow> bool" where
  "range_free mm a b \<longleftrightarrow> node_end (nodes mm) head_node \<le> a \<and> b \<le> start (nodes mm head_node) \<and>
     (\<forall>q \<in> set (node_list mm). b \<le> start (nodes mm q) \<or> node_end (nodes mm) q \<le> a)"

lemma gap_in_list:
  assumes "node_end ns p \<le> a" and "b \<le> start (ns q)"
    and "\<forall>y \<in> set ys. b \<le> start (ns y) \<or> node_end ns y \<le> a"
  shows "\<exists>us x z vs. p # ys @ [q] = us @ x # z # vs \<and> node_end ns x \<le> a \<and> b \<le> start (ns z)"
  using assms
proof (induction ys arbitrary: p)
  case Nil
  then show ?case by (intro exI [of _ "[]"] exI [of _ p] exI [of _ q]) simp
next
  case (Cons y ys)
  show ?case
  proof (cases "b \<le> start (ns y)")
    case True
    with Cons.prems show ?thesis
      by (intro exI [of _ "[]"] exI [of _ p] exI [of _ y] exI [of _ "ys @ [q]"]) simp
  next
    case False
    with Cons.prems Cons.IH [of y] obtain us x z vs
      where "y # ys @ [q] = us @ x # z # vs" "node_end ns x \<le> a" "b \<le> start (ns z)" by auto
    then show ?thesis by (intro exI [of _ "p # us"] exI [of _ x] exI [of _ z] exI [of _ vs]) simp
  qed
qed

lemma next_node_split:
  assumes "distinct (ring mm)" and r: "ring mm @ [head_node] = us @ x # z # vs"
  shows "next_node mm x = z" and "x \<in> set (ring mm)"
proof -
  have b: "ring mm = butlast (us @ x # z # vs)" using r by (metis butlast_snoc)
  then have b': "ring mm = us @ x # butlast (z # vs)" by (simp add: butlast_append)
  then show "x \<in> set (ring mm)" by simp
  have x: "x \<notin> set us" using assms(1) b' by auto
  show "next_node mm x = z"
  proof (cases vs rule: rev_cases)
    case Nil
    with r have "z = head_node" by (metis append.assoc append_Cons append_Nil last_snoc)
    with b' x Nil show ?thesis by (simp add: next_node_def next_of_split)
  next
    case (snoc ws w)
    with b' x show ?thesis by (simp add: next_node_def next_of_split butlast_append)
  qed
qed

lemma ok_ends_before_hole:
  assumes wf: "ring_ok mm" and r: "ring mm = xs @ p # ys" and q: "q \<in> set (xs @ [p])"
  shows "node_end (nodes mm) q \<le> node_end (nodes mm) p"
proof (cases "q = p")
  case False
  with q obtain us vs where x: "xs = us @ q # vs" by (auto dest: split_list)
  with r have "p \<in> set (node_list mm)" by (cases us) (auto simp: ring_def)
  then have "start (nodes mm p) \<le> node_end (nodes mm) p" by (rule less_imp_le [OF ring_okD(3) [OF wf]])
  with ok_ring_before [OF wf, of us q vs p "ys @ [head_node]"] r x show ?thesis by simp
qed simp

lemmas ends_before_hole = ok_ends_before_hole [OF wf_ring]

lemma ok_starts_after_hole:
  assumes wf: "ring_ok mm" and r: "ring mm = xs @ p # ys" and q: "q \<in> set (ys @ [head_node])"
  shows "start (nodes mm (hd (ys @ [head_node]))) \<le> start (nodes mm q)"
proof -
  obtain z zs where z: "ys @ [head_node] = z # zs" by (cases ys) auto
  show ?thesis
  proof (cases "q = z")
    case False
    with q z obtain us vs where zs: "zs = us @ q # vs" by (auto dest: split_list)
    with z have "z \<in> set ys" by (cases ys) auto
    with r have "z \<in> set (node_list mm)" by (cases xs) (auto simp: ring_def)
    then have "start (nodes mm z) \<le> node_end (nodes mm) z" by (rule less_imp_le [OF ring_okD(3) [OF wf]])
    with ok_ring_before [OF wf, of "xs @ [p]" z us q vs] r z zs show ?thesis by simp
  qed (use z in simp)
qed

lemmas starts_after_hole = ok_starts_after_hole [OF wf_ring]

lemma range_free_iff:
  assumes wf: "mm_wf mm" and ab: "a < b"
  shows "range_free mm a b \<longleftrightarrow>
    (\<exists>p \<in> set (hole_stack mm). fst (hole_of mm p) \<le> a \<and> b \<le> snd (hole_of mm p))"
proof
  assume f: "range_free mm a b"
  then obtain us x z vs where s: "head_node # node_list mm @ [head_node] = us @ x # z # vs"
    "node_end (nodes mm) x \<le> a" "b \<le> start (nodes mm z)"
    using gap_in_list [of "nodes mm" head_node a b head_node "node_list mm"] by (auto simp: range_free_def)
  then have x: "next_node mm x = z" "x \<in> set (ring mm)"
    using next_node_split [OF mm_wfD(1) [OF wf]] by (auto simp: ring_def)
  moreover from this s ab have "hole_follows (nodes mm x)" using hole_nonempty [OF wf] by auto
  ultimately show "\<exists>p \<in> set (hole_stack mm). fst (hole_of mm p) \<le> a \<and> b \<le> snd (hole_of mm p)"
    using s mm_wfD(5) [OF wf] by (auto simp: hole_of_def)
next
  assume "\<exists>p \<in> set (hole_stack mm). fst (hole_of mm p) \<le> a \<and> b \<le> snd (hole_of mm p)"
  then obtain p where p: "p \<in> set (hole_stack mm)" "node_end (nodes mm) p \<le> a"
    "b \<le> start (nodes mm (next_node mm p))" by (auto simp: hole_of_def)
  obtain xs ys where r: "ring mm = xs @ p # ys" "next_node mm p = hd (ys @ [head_node])"
    by (rule ring_split [OF wf hole_in_ring(1) [OF wf p(1)]])
  have "node_end (nodes mm) q \<le> a" if "q \<in> set (xs @ [p])" for q
    using ends_before_hole [OF wf r(1) that] p(2) by simp
  moreover have "b \<le> start (nodes mm q)" if "q \<in> set (ys @ [head_node])" for q
    using starts_after_hole [OF wf r(1) that] p(3) r(2) by simp
  moreover have "head_node \<in> set (xs @ [p])" using r(1) by (cases xs) (simp_all add: ring_def)
  moreover have "set (node_list mm) \<subseteq> set (xs @ [p]) \<union> set (ys @ [head_node])"
    using r(1) by (cases xs) (auto simp: ring_def)
  ultimately show "range_free mm a b" by (fastforce simp: range_free_def)
qed

section \<open>Reservation\<close>

lemma reserve_loop_none:
  assumes "\<forall>x \<in> set l. start (nodes mm n) < fst (snd x) \<or> snd (snd x) < en"
  shows "reserve_loop mm n en l = Inl ENOSPC"
  using assms by (induction l) auto

lemma reserve_loop_some:
  assumes "x \<in> set l" and "fst (snd x) \<le> start (nodes mm n)" and "en \<le> snd (snd x)"
  shows "\<exists>mm'. reserve_loop mm n en l = Inr mm'"
  using assms by (induction l) (auto simp: Let_def not_less [symmetric])

lemma reserve_node_correct:
  assumes h: "hdr_ok h" and wf: "mm_wf mm" and n: "fresh mm n"
    and sz: "start (nodes mm n) < node_end (nodes mm) n"
  shows "if range_free mm (start (nodes mm n)) (node_end (nodes mm) n)
    then \<exists>mm'. drm_mm_reserve_node h mm n = Inr mm' \<and> allocated_at mm n (nsize (nodes mm n)) 0 mm' \<and>
      start (nodes mm' n) = start (nodes mm n)
    else drm_mm_reserve_node h mm n = Inl ENOSPC"
proof (cases "range_free mm (start (nodes mm n)) (node_end (nodes mm) n)")
  case True
  then obtain q where "q \<in> set (hole_stack mm)" "fst (hole_of mm q) \<le> start (nodes mm n)"
    "node_end (nodes mm) n \<le> snd (hole_of mm q)" using range_free_iff [OF wf sz] by blast
  then obtain mm' where i: "drm_mm_reserve_node h mm n = Inr mm'"
    using reserve_loop_some [of "(q, hole_of mm q)" "for_each_hole h mm False" mm n "node_end (nodes mm) n"]
    by (auto simp: drm_mm_reserve_node_def node_end_def for_each_hole_map [OF h wf])
  have nr: "n \<notin> set (ring mm)" using n by (simp add: fresh_def)
  obtain p where p: "p \<in> set (hole_stack mm)" "placed mm p n (start (nodes mm n)) (nsize (nodes mm n)) mm'"
    "fst (hole_of mm p) \<le> start (nodes mm n)" "node_end (nodes mm) n \<le> snd (hole_of mm p)"
    by (rule reserve_placed [OF h wf nr i])
  with sz have "allocated_at mm n (nsize (nodes mm n)) 0 mm'"
    by (intro placed_allocated [OF wf p(2,1) n]) (auto simp: node_end_def)
  with True i placed_new [OF p(2)] show ?thesis by simp
next
  case False
  then have "\<forall>x \<in> set (for_each_hole h mm False).
      start (nodes mm n) < fst (snd x) \<or> snd (snd x) < node_end (nodes mm) n"
    using range_free_iff [OF wf sz] by (auto simp: for_each_hole_map [OF h wf] not_le)
  then have "drm_mm_reserve_node h mm n = Inl ENOSPC"
    unfolding drm_mm_reserve_node_def node_end_def by (rule reserve_loop_none)
  with False show ?thesis by simp
qed

section \<open>Insertion after a search\<close>

lemma insert_generic_correct:
  assumes "hdr_ok h" and "mm_wf mm" and "color_ok mm (\<lambda>r. r) col" and "fresh mm n" and "sz \<noteq> 0"
  shows "if \<exists>p \<in> set (hole_stack mm). fits mm (\<lambda>r. r) sz al col p
    then \<exists>mm'. drm_mm_insert_node_generic h mm n sz al col best below tp = Inr mm' \<and>
      allocated_at mm n sz al mm'
    else drm_mm_insert_node_generic h mm n sz al col best below tp = Inl ENOSPC"
proof -
  obtain r where r: "search_loop mm (\<lambda>r. r) sz al col best None (NOT 0) (for_each_hole h mm below) = r" by simp
  note s = search_loop_correct [OF assms(1,2) lim_ok_id [OF assms(2)] assms(3) r]
  have i: "drm_mm_insert_node_generic h mm n sz al col best below tp = (case r of None \<Rightarrow> Inl ENOSPC
      | Some p \<Rightarrow> drm_mm_insert_helper h mm p n sz al col tp)"
    using r mm_wfD(6) [OF assms(2)]
    by (simp add: drm_mm_insert_node_generic_def drm_mm_search_free_generic_def)
  show ?thesis
  proof (cases r)
    case None
    with s(1) i show ?thesis by simp
  next
    case (Some p)
    with s(2) i insert_helper_correct [OF assms] show ?thesis by auto
  qed
qed

lemma insert_in_range_correct:
  assumes "hdr_ok h" and "mm_wf mm" and "color_ok mm (range_lim st en) col" and "fresh mm n" and "sz \<noteq> 0"
    and "tp \<longrightarrow> color_adjust mm = None" and "unat st + unat sz + 2 ^ 32 \<le> 2 ^ 64"
    and "unat (start (nodes mm head_node)) + unat sz + 2 ^ 32 \<le> 2 ^ 64"
  shows "if \<exists>p \<in> set (hole_stack mm). fits mm (range_lim st en) sz al col p
    then \<exists>mm'. drm_mm_insert_node_in_range_generic h mm n sz al col st en best below tp = Inr mm' \<and>
      allocated_at mm n sz al mm' \<and> st \<le> start (nodes mm' n) \<and> node_end (nodes mm') n \<le> en
    else drm_mm_insert_node_in_range_generic h mm n sz al col st en best below tp = Inl ENOSPC"
proof -
  obtain r where r: "search_loop mm (range_lim st en) sz al col best None (NOT 0) (for_each_hole h mm below) = r"
    by simp
  note s = search_loop_correct [OF assms(1,2) lim_ok_range [OF assms(2,7,8)] assms(3) r]
  have i: "drm_mm_insert_node_in_range_generic h mm n sz al col st en best below tp = (case r of
      None \<Rightarrow> Inl ENOSPC | Some p \<Rightarrow> drm_mm_insert_helper_range h mm p n sz al col st en tp)"
    using r mm_wfD(6) [OF assms(2)]
    by (simp add: drm_mm_insert_node_in_range_generic_def drm_mm_search_free_in_range_generic_def)
  show ?thesis
  proof (cases r)
    case None
    with s(1) i show ?thesis by simp
  next
    case (Some p)
    with s(2) i insert_helper_range_correct [OF assms(1-5) _ _ assms(6)] show ?thesis by auto
  qed
qed

section \<open>Initialisation\<close>

text \<open>A caller may write to a node that is not on the ring.\<close>

lemma upd_node_off_ring:
  assumes wf: "mm_wf mm" and n: "n \<notin> set (ring mm)"
  shows "mm_wf (upd_node n f mm)"
proof -
  have hr: "head_node \<in> set (ring mm)" by (simp add: ring_def)
  have "spaced (nodes (upd_node n f mm)) (ring mm @ [head_node]) = spaced (nodes mm) (ring mm @ [head_node])"
    using n hr by (intro spaced_cong) (auto simp: fun_upd_other dest: in_set_butlastD)
  moreover have "node_list (upd_node n f mm) = node_list mm" by (simp add: upd_node_def)
  moreover have "n \<notin> set (node_list mm)" "n \<noteq> head_node" using n by (auto simp: ring_def)
  ultimately show ?thesis using wf n by (auto simp: mm_wf_def)
qed

lemma init_wf:
  assumes "st < st + sz" and "unat (st + sz) + 2 ^ 32 \<le> 2 ^ 64"
  shows "mm_wf (drm_mm_init st sz mm)"
  using assms by (simp add: mm_wf_def drm_mm_init_def ring_def upd_node_def node_end_def Let_def)

text \<open>A header that does what the code relies on, and an allocator for the range from 4 KiB to 64 KiB.\<close>

definition hdr0 :: mm_hdr where
  "hdr0 = \<lparr>hole_node_start = (\<lambda>mm. node_end (nodes mm)),
    hole_node_end = (\<lambda>mm p. start (nodes mm (next_node mm p))),
    raw_hole_node_start = (\<lambda>mm. node_end (nodes mm)),
    raw_hole_node_end = (\<lambda>mm p. start (nodes mm (next_node mm p))),
    for_each_hole = (\<lambda>mm b. map (\<lambda>p. (p, node_end (nodes mm) p, start (nodes mm (next_node mm p))))
      (if b then rev (hole_stack mm) else hole_stack mm))\<rparr>"

lemma hdr0_ok: "hdr_ok hdr0"
  by (simp add: hdr_ok_def hdr0_def)

definition blank_node :: mm_node where
  "blank_node = \<lparr>start = 0, nsize = 0, color = 0, allocated = False, hole_follows = False,
     scanned_block = False, scanned_prev_free = False, scanned_next_free = False,
     scanned_preceeds_hole = False, scan_prev = 0, scan_next = None\<rparr>"

definition mm0 :: drm_mm where
  "mm0 = drm_mm_init 4096 61440 \<lparr>nodes = (\<lambda>p. blank_node), node_list = [], hole_stack = [],
     scanned_blocks = 0, scan_color = 0, scan_alignment = 0, scan_size = 0, scan_hit_start = 0,
     scan_hit_end = 0, scan_start = 0, scan_end = 0, scan_check_range = False,
     prev_scanned_node = None, color_adjust = None\<rparr>"

lemma mm0_simps:
  "ring mm0 = [0]" "node_list mm0 = []" "hole_stack mm0 = [0]" "hole_of mm0 0 = (4096, 65536)"
  "color_adjust mm0 = None" "start (nodes mm0 0) = 65536" "node_end (nodes mm0) 0 = 4096" "p \<noteq> 0 \<Longrightarrow> nodes mm0 p = blank_node"
  by (simp_all add: mm0_def drm_mm_init_def ring_def upd_node_def head_node_def hole_of_def node_end_def
      next_node_def Let_def)

lemma mm0_wf: "mm_wf mm0"
  unfolding mm0_def by (rule init_wf) simp_all

lemma mm0_fresh: "n \<noteq> 0 \<Longrightarrow> fresh mm0 n"
  by (simp add: fresh_def mm0_def drm_mm_init_def ring_def upd_node_def head_node_def blank_node_def Let_def)

lemma mm0_color: "color_ok mm0 lim col"
  by (simp add: color_ok_def adjust_def mm0_def drm_mm_init_def Let_def split: prod.splits)

section \<open>Properties\<close>

text \<open>
  C12: \<^verbatim>\<open>drm_mm_insert_node_generic\<close> on a well-formed allocator whose colour callback only shrinks
  holes never runs into a \<^verbatim>\<open>BUG_ON\<close>: it either inserts the node, with the size and alignment asked
  for, in free space and without moving another node, or it returns \<^verbatim>\<open>-ENOSPC\<close> and no hole fits.
\<close>

theorem drm_mm_insert_node_generic_correct:
  assumes "hdr_ok h" and "mm_wf mm" and "color_ok mm (\<lambda>r. r) col" and "fresh mm n" and "sz \<noteq> 0"
  shows "if \<exists>p \<in> set (hole_stack mm). fits mm (\<lambda>r. r) sz al col p
    then \<exists>mm'. drm_mm_insert_node_generic h mm n sz al col best below tp = Inr mm' \<and>
      allocated_at mm n sz al mm'
    else drm_mm_insert_node_generic h mm n sz al col best below tp = Inl ENOSPC"
  by (rule insert_generic_correct [OF assms])

theorem drm_mm_insert_node_generic_correct_witness:
  "\<exists>mm'. drm_mm_insert_node_generic hdr0 mm0 1 100 64 0 True False True = Inr mm' \<and>
     allocated_at mm0 1 100 64 mm'"
proof -
  have "\<exists>p \<in> set (hole_stack mm0). fits mm0 (\<lambda>r. r) 100 64 0 p" by (simp add: mm0_simps fits_def adjust_def align_up_def)
  then show ?thesis
    using drm_mm_insert_node_generic_correct [OF hdr0_ok mm0_wf mm0_color [of _ 0] mm0_fresh,
        where n = 1 and sz = 100 and al = 64 and best = True and below = False and tp = True]
    by simp
qed

text \<open>
  C13: \<^verbatim>\<open>drm_mm_insert_node_in_range_generic\<close> does the same inside the range asked for: the node also
  lies between the bounds of the range, or no hole has room for it there.  The sizes must not
  wrap around, and \<^verbatim>\<open>DRM_MM_CREATE_TOP\<close> must not be combined with a colour callback.
\<close>

theorem drm_mm_insert_node_in_range_generic_correct:
  assumes "hdr_ok h" and "mm_wf mm" and "color_ok mm (range_lim st en) col" and "fresh mm n" and "sz \<noteq> 0"
    and "tp \<longrightarrow> color_adjust mm = None" and "unat st + unat sz + 2 ^ 32 \<le> 2 ^ 64"
    and "unat (start (nodes mm head_node)) + unat sz + 2 ^ 32 \<le> 2 ^ 64"
  shows "if \<exists>p \<in> set (hole_stack mm). fits mm (range_lim st en) sz al col p
    then \<exists>mm'. drm_mm_insert_node_in_range_generic h mm n sz al col st en best below tp = Inr mm' \<and>
      allocated_at mm n sz al mm' \<and> st \<le> start (nodes mm' n) \<and> node_end (nodes mm') n \<le> en
    else drm_mm_insert_node_in_range_generic h mm n sz al col st en best below tp = Inl ENOSPC"
  by (rule insert_in_range_correct [OF assms])

theorem drm_mm_insert_node_in_range_generic_correct_witness:
  "\<exists>mm'. drm_mm_insert_node_in_range_generic hdr0 mm0 1 100 64 0 8192 12288 False True True = Inr mm' \<and>
     allocated_at mm0 1 100 64 mm' \<and> 8192 \<le> start (nodes mm' 1) \<and> node_end (nodes mm') 1 \<le> 12288"
proof -
  have "\<exists>p \<in> set (hole_stack mm0). fits mm0 (range_lim 8192 12288) 100 64 0 p"
    by (simp add: mm0_simps fits_def adjust_def align_up_def range_lim_def)
  then show ?thesis
    using drm_mm_insert_node_in_range_generic_correct [OF hdr0_ok mm0_wf mm0_color [of _ 0] mm0_fresh,
        where n = 1 and sz = 100 and al = 64 and best = False and below = True and tp = True
          and st = 8192 and en = 12288]
    by (simp add: mm0_simps head_node_def)
qed

text \<open>
  C14: the best-fit search returns a hole that fits and than which no hole that fits is smaller,
  and it returns none only when no hole fits.
\<close>

theorem drm_mm_search_free_generic_best:
  assumes "hdr_ok h" and "mm_wf mm" and "color_ok mm (\<lambda>r. r) col"
  shows "case drm_mm_search_free_generic h mm sz al col True below of
      Inl er \<Rightarrow> False
    | Inr None \<Rightarrow> \<forall>q \<in> set (hole_stack mm). \<not> fits mm (\<lambda>r. r) sz al col q
    | Inr (Some p) \<Rightarrow> p \<in> set (hole_stack mm) \<and> fits mm (\<lambda>r. r) sz al col p \<and>
        (\<forall>q \<in> set (hole_stack mm). fits mm (\<lambda>r. r) sz al col q \<longrightarrow> hole_size mm p \<le> hole_size mm q)"
  using search_loop_correct [OF assms(1,2) lim_ok_id [OF assms(2)] assms(3) refl,
      where al = al and best = True and below = below and sz = sz] mm_wfD(6) [OF assms(2)]
  by (simp add: drm_mm_search_free_generic_def split: option.splits)

theorem drm_mm_search_free_generic_best_witness:
  "case drm_mm_search_free_generic hdr0 mm0 100 64 0 True False of
      Inl er \<Rightarrow> False
    | Inr None \<Rightarrow> \<forall>q \<in> set (hole_stack mm0). \<not> fits mm0 (\<lambda>r. r) 100 64 0 q
    | Inr (Some p) \<Rightarrow> p \<in> set (hole_stack mm0) \<and> fits mm0 (\<lambda>r. r) 100 64 0 p \<and>
        (\<forall>q \<in> set (hole_stack mm0). fits mm0 (\<lambda>r. r) 100 64 0 q \<longrightarrow> hole_size mm0 p \<le> hole_size mm0 q)"
  by (rule drm_mm_search_free_generic_best [OF hdr0_ok mm0_wf mm0_color])

text \<open>
  C15: \<^verbatim>\<open>drm_mm_reserve_node\<close> succeeds exactly when the range of the node lies inside the managed range
  and overlaps no allocated node; then the node keeps its place and the allocator is well formed.
\<close>

theorem drm_mm_reserve_node_iff_free:
  assumes "hdr_ok h" and "mm_wf mm" and "fresh mm n" and "start (nodes mm n) < node_end (nodes mm) n"
  shows "if range_free mm (start (nodes mm n)) (node_end (nodes mm) n)
    then \<exists>mm'. drm_mm_reserve_node h mm n = Inr mm' \<and> allocated_at mm n (nsize (nodes mm n)) 0 mm' \<and>
      start (nodes mm' n) = start (nodes mm n)
    else drm_mm_reserve_node h mm n = Inl ENOSPC"
  by (rule reserve_node_correct [OF assms])

definition mm_res :: drm_mm where
  "mm_res = upd_node 1 (\<lambda>n. n\<lparr>start := 8192, nsize := 4096\<rparr>) mm0"

lemma mm_res_wf: "mm_wf mm_res" and mm_res_fresh: "fresh mm_res 1"
  using upd_node_off_ring [OF mm0_wf] mm0_fresh [of 1] by (simp_all add: mm_res_def mm0_simps fresh_def)

theorem drm_mm_reserve_node_iff_free_witness:
  "\<exists>mm'. drm_mm_reserve_node hdr0 mm_res 1 = Inr mm' \<and> allocated_at mm_res 1 4096 0 mm' \<and>
     start (nodes mm' 1) = 8192"
proof -
  have "range_free mm_res 8192 12288"
    by (simp add: range_free_def mm_res_def mm0_simps head_node_def node_end_def) (simp add: mm0_def drm_mm_init_def upd_node_def head_node_def Let_def)
  then show ?thesis
    using drm_mm_reserve_node_iff_free [OF hdr0_ok mm_res_wf mm_res_fresh]
    by (simp add: mm_res_def node_end_def)
qed

end
