(* ===== verification/Drm_Mm_Free.thy ===== *)
theory Drm_Mm_Free
  imports Drm_Mm_Reserve
begin

text \<open>
  Removal and replacement of nodes, the totals that the debug tables print, and the allocator as a
  state machine.
\<close>

section \<open>Removal\<close>

lemma ok_ring_pred:
  assumes wf: "ring_ok mm" and n: "n \<in> set (node_list mm)"
  obtains us q ys where "ring mm = us @ q # n # ys" "prev_node mm n = q"
    "n \<notin> set us" "n \<noteq> q" "n \<notin> set ys" "q \<notin> set us" "q \<notin> set ys" "n \<noteq> head_node"
proof -
  from n obtain xs ys where s: "node_list mm = xs @ n # ys" by (meson split_list)
  have nh: "n \<noteq> head_node" using n ring_okD(1) [OF wf] by (auto simp: ring_def)
  obtain us q where q: "head_node # xs = us @ [q]" by (metis append_butlast_last_id list.distinct(1))
  then have r: "ring mm = us @ q # n # ys" using s by (simp add: ring_def)
  then have "n \<notin> set us" "n \<noteq> q" "n \<notin> set ys" "q \<notin> set us" "q \<notin> set ys"
    using ring_okD(1) [OF wf] by auto
  moreover from this r have "prev_node mm n = q"
    using prev_of_split [of n "us @ [q]" ys] by (simp add: prev_node_def)
  ultimately show thesis using r nh that by blast
qed

lemmas ring_pred = ok_ring_pred [OF wf_ring]

text \<open>
  Taking a node off the ring leaves the ring in order when the node before it is then marked as
  followed by a hole.
\<close>

lemma drop_spaced:
  assumes ok: "ring_ok mm" and r: "ring mm = us @ q # n # ys" "n \<notin> set us" "n \<noteq> q" "n \<notin> set ys"
    "q \<notin> set us" "q \<notin> set ys" "n \<noteq> head_node"
    and same: "\<And>x. start (ns x) = start (nodes mm x)" "\<And>x. nsize (ns x) = nsize (nodes mm x)"
    and hf: "\<And>x. x \<noteq> n \<Longrightarrow> hole_follows (ns x) = (x = q \<or> hole_follows (nodes mm x))"
  shows "spaced ns (us @ q # ys @ [head_node])"
proof -
  have ends: "node_end ns x = node_end (nodes mm) x" for x by (simp add: node_end_def same)
  obtain z zs where z: "ys @ [head_node] = z # zs" by (cases ys) auto
  have sp: "spaced (nodes mm) (us @ [q])" "spaced (nodes mm) (q # n # z # zs)"
    using ring_okD(2) [OF ok] r(1) z spaced_append [of "nodes mm" us q "n # z # zs"] by simp_all
  have n: "start (nodes mm n) < node_end (nodes mm) n"
    using r(1,7) by (intro ring_okD(3) [OF ok]) (cases us, auto simp: ring_def)
  have hf': "hole_follows (ns x) = hole_follows (nodes mm x)" if "x \<in> set us \<union> set ys" for x
    using that r hf by (metis Un_iff)
  have "spaced ns (us @ [q]) = spaced (nodes mm) (us @ [q])"
    using same hf' by (intro spaced_cong) auto
  moreover have "spaced ns (z # zs) = spaced (nodes mm) (z # zs)"
  proof (rule spaced_cong)
    have "butlast (z # zs) = ys" using z by (metis butlast_snoc)
    then show "\<forall>x \<in> set (butlast (z # zs)). hole_follows (ns x) = hole_follows (nodes mm x)"
      using hf' by blast
  qed (simp add: same)
  moreover have "node_end ns q < start (ns z)" using sp(2) n by (auto simp: ends same)
  moreover have "hole_follows (ns q)" using r(3) hf by auto
  ultimately show ?thesis
    using sp z spaced_append [of ns us q "z # zs"] by simp
qed

text \<open>The effect of a removal: \<open>q\<close> precedes the node \<open>n\<close>.\<close>

definition removed :: "drm_mm \<Rightarrow> ptr \<Rightarrow> ptr \<Rightarrow> drm_mm" where
  "removed mm q n = mm\<lparr>node_list := remove1 n (node_list mm),
     hole_stack := q # remove1 q (if hole_follows (nodes mm n) then remove1 n (hole_stack mm) else hole_stack mm),
     nodes := (nodes mm)(q := (nodes mm q)\<lparr>hole_follows := True\<rparr>, n := (nodes mm n)\<lparr>allocated := False\<rparr>)\<rparr>"

lemma remove_node_removed:
  assumes h: "hdr_ok h" and wf: "mm_wf mm" and n: "n \<in> set (node_list mm)"
  shows "drm_mm_remove_node h mm n = Inr (removed mm (prev_node mm n) n)"
proof -
  obtain us q ys where r: "ring mm = us @ q # n # ys" "prev_node mm n = q" "n \<noteq> q"
    by (rule ring_pred [OF wf n])
  note ok = mm_wfD(3) [OF wf n]
  have nr: "n \<in> set (ring mm)" "q \<in> set (ring mm)" using r by auto
  have hf: "hole_follows (nodes mm n) = (node_end (nodes mm) n \<noteq> start (nodes mm (next_node mm n)))"
    using hole_nonempty [OF wf nr(1)] by auto
  have q: "\<not> hole_follows (nodes mm q) \<Longrightarrow> q \<notin> set (hole_stack mm)" using mm_wfD(5) [OF wf] by auto
  have e: "hole_follows (nodes mm q) \<Longrightarrow> (nodes mm q)\<lparr>hole_follows := True\<rparr> = nodes mm q"
    by (cases "nodes mm q") simp
  show ?thesis
    using ok hf r(2,3) q e unfolding drm_mm_remove_node_def hdr_okD(1,2) [OF h]
    by (cases "hole_follows (nodes mm q)"; cases "hole_follows (nodes mm n)")
      (auto simp: node_ok_def removed_def Let_def upd_node_def push_hole_def del_hole_def remove1_idem
        fun_upd_triv intro!: drm_mm.equality)
qed

lemma removed_ring:
  assumes "ring mm = us @ q # n # ys" and "n \<notin> set us" and "n \<noteq> q" and "n \<noteq> head_node"
  shows "ring (removed mm q n) = us @ q # ys"
proof -
  have "ring (removed mm q n) = remove1 n (ring mm)" using assms(4) by (simp add: ring_def removed_def)
  then show ?thesis using assms by (simp add: remove1_append)
qed

lemma removed_nodes [simp]:
  "start (nodes (removed mm q n) x) = start (nodes mm x)"
  "nsize (nodes (removed mm q n) x) = nsize (nodes mm x)"
  "node_end (nodes (removed mm q n)) x = node_end (nodes mm) x"
  "n \<noteq> q \<Longrightarrow> hole_follows (nodes (removed mm q n) x) = (x = q \<or> hole_follows (nodes mm x))"
  "x \<noteq> n \<Longrightarrow> node_ok (nodes (removed mm q n) x) = node_ok (nodes mm x)"
  by (simp_all add: removed_def node_end_def node_ok_def)

lemma removed_spaced:
  assumes wf: "mm_wf mm" and r: "ring mm = us @ q # n # ys" "n \<notin> set us" "n \<noteq> q" "n \<notin> set ys"
    "q \<notin> set us" "q \<notin> set ys" "n \<noteq> head_node"
  shows "spaced (nodes (removed mm q n)) (us @ q # ys @ [head_node])"
  using r(3) by (intro drop_spaced [OF wf_ring [OF wf] r]) simp_all

lemma removed_wf:
  assumes wf: "mm_wf mm" and n: "n \<in> set (node_list mm)"
  shows "mm_wf (removed mm (prev_node mm n) n)"
proof -
  obtain us q ys where r: "ring mm = us @ q # n # ys" "prev_node mm n = q"
    "n \<notin> set us" "n \<noteq> q" "n \<notin> set ys" "q \<notin> set us" "q \<notin> set ys" "n \<noteq> head_node"
    by (rule ring_pred [OF wf n])
  let ?mm = "removed mm q n"
  note r' = removed_ring [OF r(1,3,4,8)]
  have sub: "set (node_list ?mm) = set (node_list mm) - {n}" "n \<notin> set (ring ?mm)"
    using mm_wfD(1) [OF wf] r r' by (auto simp: removed_def ring_def)
  have "distinct (hole_stack ?mm)" using mm_wfD(4) [OF wf] by (simp add: removed_def)
  moreover have "set (hole_stack ?mm) = insert q (set (hole_stack mm) - {n})"
    using mm_wfD(4,5) [OF wf] r(4) by (auto simp: removed_def)
  then have "set (hole_stack ?mm) = {p \<in> set (ring ?mm). hole_follows (nodes ?mm p)}"
    using mm_wfD(5) [OF wf] r(1,3-5) r' by auto
  moreover have "distinct (ring ?mm)" using mm_wfD(1) [OF wf] r(1) r' by simp
  moreover have "\<forall>p \<in> set (node_list ?mm). node_ok (nodes ?mm p)"
    using sub mm_wfD(3) [OF wf] by auto
  moreover have "scanned_blocks ?mm = 0" using mm_wfD(6) [OF wf] by (simp add: removed_def)
  ultimately show ?thesis
    using removed_spaced [OF wf r(1,3-8)] r' mm_wfD(7) [OF wf] r(2,8)
    by (simp add: mm_wf_def)
qed

lemma node_range_free:
  assumes wf: "mm_wf mm" and n: "n \<in> set (node_list mm)"
  shows "range_free (removed mm (prev_node mm n) n) (start (nodes mm n)) (node_end (nodes mm) n)"
proof -
  have "distinct (node_list mm)" using mm_wfD(1) [OF wf] by (simp add: ring_def)
  then have "set (node_list (removed mm (prev_node mm n) n)) = set (node_list mm) - {n}"
    by (simp add: removed_def)
  then show ?thesis
    using node_bounds [OF wf n] nodes_disjoint [OF wf n] by (auto simp: range_free_def)
qed

text \<open>
  C16: \<^verbatim>\<open>drm_mm_remove_node\<close> of an inserted node never runs into a \<^verbatim>\<open>BUG_ON\<close>, takes the node off the
  ring, leaves the allocator well formed and every other node in place, and the range of the node
  is free afterwards.
\<close>

theorem drm_mm_remove_node_correct:
  assumes "hdr_ok h" and "mm_wf mm" and "n \<in> set (node_list mm)"
  shows "\<exists>mm'. drm_mm_remove_node h mm n = Inr mm' \<and> mm_wf mm' \<and>
    node_list mm' = remove1 n (node_list mm) \<and> \<not> allocated (nodes mm' n) \<and>
    (\<forall>q. start (nodes mm' q) = start (nodes mm q) \<and> nsize (nodes mm' q) = nsize (nodes mm q)) \<and>
    range_free mm' (start (nodes mm n)) (node_end (nodes mm) n)"
  using remove_node_removed [OF assms] removed_wf [OF assms(2,3)] node_range_free [OF assms(2,3)]
  by (auto simp: removed_def)

definition mm1 :: drm_mm where
  "mm1 = (case drm_mm_insert_node_generic hdr0 mm0 1 4096 0 0 False False False of Inr mm \<Rightarrow> mm | _ \<Rightarrow> mm0)"

lemma mm1_eq:
  "drm_mm_insert_node_generic hdr0 mm0 1 4096 0 0 False False False = Inr mm1" (is ?i)
  "allocated_at mm0 1 4096 0 mm1" (is ?a)
proof -
  have "fits mm0 (\<lambda>r. r) 4096 0 0 0" by (simp add: mm0_simps fits_def adjust_def align_up_def)
  then obtain mm' where "drm_mm_insert_node_generic hdr0 mm0 1 4096 0 0 False False False = Inr mm'"
    "allocated_at mm0 1 4096 0 mm'"
    using search_loop_correct [OF hdr0_ok mm0_wf lim_ok_id [OF mm0_wf] mm0_color refl,
        where al = 0 and best = False and below = False and sz = 4096 and col = 0]
      insert_helper_correct [OF hdr0_ok mm0_wf mm0_color mm0_fresh, where n = 1 and sz = 4096 and al = 0 and col = 0]
      mm_wfD(6) [OF mm0_wf]
    by (fastforce simp: drm_mm_insert_node_generic_def drm_mm_search_free_generic_def mm0_simps split: option.splits)
  then show ?i ?a by (simp_all add: mm1_def)
qed

lemma mm1_wf: "mm_wf mm1" and mm1_node: "1 \<in> set (node_list mm1)"
  using mm1_eq(2) by (auto simp: allocated_at_def)

theorem drm_mm_remove_node_correct_witness:
  "\<exists>mm'. drm_mm_remove_node hdr0 mm1 1 = Inr mm' \<and> mm_wf mm' \<and>
    node_list mm' = remove1 1 (node_list mm1) \<and> \<not> allocated (nodes mm' 1) \<and>
    (\<forall>q. start (nodes mm' q) = start (nodes mm1 q) \<and> nsize (nodes mm' q) = nsize (nodes mm1 q)) \<and>
    range_free mm' (start (nodes mm1 1)) (node_end (nodes mm1) 1)"
  by (rule drm_mm_remove_node_correct [OF hdr0_ok mm1_wf mm1_node])

section \<open>Insertion and removal\<close>

lemma holes_determined:
  assumes wf: "mm_wf mm" "mm_wf mm'" and nl: "node_list mm' = node_list mm"
    and same: "\<forall>q \<in> set (ring mm). start (nodes mm' q) = start (nodes mm q) \<and> nsize (nodes mm' q) = nsize (nodes mm q)"
  shows "set (hole_stack mm') = set (hole_stack mm) \<and> (\<forall>q \<in> set (ring mm). hole_of mm' q = hole_of mm q)"
proof -
  have r: "ring mm' = ring mm" using nl by (simp add: ring_def)
  then have nx: "next_node mm' q = next_node mm q" for q by (simp add: next_node_def)
  have h: "hole_of mm' q = hole_of mm q" if "q \<in> set (ring mm)" for q
    using that same nx next_in_ring [OF wf(1) that] by (simp add: hole_of_def node_end_def)
  moreover have "hole_follows (nodes mm' q) = hole_follows (nodes mm q)" if q: "q \<in> set (ring mm)" for q
    using hole_nonempty(2) [OF wf(1) q] hole_nonempty(2) [OF wf(2)] q r h [OF q] by (simp add: hole_of_def)
  ultimately show ?thesis using mm_wfD(5) [OF wf(1)] mm_wfD(5) [OF wf(2)] r by auto
qed

text \<open>
  C17: removing a node that was just inserted gives back the allocator before the insertion: the
  same nodes in the same places, and the same holes.
\<close>

theorem drm_mm_insert_remove_roundtrip:
  assumes "hdr_ok h" and "mm_wf mm" and "color_ok mm (\<lambda>r. r) col" and "fresh mm n" and "sz \<noteq> 0"
    and "drm_mm_insert_node_generic h mm n sz al col best below tp = Inr mm'"
  shows "\<exists>mm''. drm_mm_remove_node h mm' n = Inr mm'' \<and> mm_wf mm'' \<and> node_list mm'' = node_list mm \<and>
    (\<forall>q \<in> set (ring mm). start (nodes mm'' q) = start (nodes mm q) \<and> nsize (nodes mm'' q) = nsize (nodes mm q)) \<and>
    set (hole_stack mm'') = set (hole_stack mm) \<and> (\<forall>q \<in> set (ring mm). hole_of mm'' q = hole_of mm q)"
proof -
  have a: "allocated_at mm n sz al mm'" using insert_generic_correct [OF assms(1-5), where al = al] assms(6)
    by (metis old.sum.inject(2) sum.distinct(1))
  then have n: "mm_wf mm'" "n \<in> set (node_list mm')" by (auto simp: allocated_at_def)
  let ?mm = "removed mm' (prev_node mm' n) n"
  have nl: "node_list ?mm = node_list mm" using a by (simp add: allocated_at_def removed_def)
  have same: "\<forall>q \<in> set (ring mm). start (nodes ?mm q) = start (nodes mm q) \<and> nsize (nodes ?mm q) = nsize (nodes mm q)"
    using a by (simp add: allocated_at_def)
  show ?thesis
    using remove_node_removed [OF assms(1) n] removed_wf [OF n] nl same
      holes_determined [OF assms(2) removed_wf [OF n] nl same] by blast
qed

theorem drm_mm_insert_remove_roundtrip_witness:
  "\<exists>mm''. drm_mm_remove_node hdr0 mm1 1 = Inr mm'' \<and> mm_wf mm'' \<and> node_list mm'' = node_list mm0 \<and>
    (\<forall>q \<in> set (ring mm0). start (nodes mm'' q) = start (nodes mm0 q) \<and> nsize (nodes mm'' q) = nsize (nodes mm0 q)) \<and>
    set (hole_stack mm'') = set (hole_stack mm0) \<and> (\<forall>q \<in> set (ring mm0). hole_of mm'' q = hole_of mm0 q)"
  by (rule drm_mm_insert_remove_roundtrip [OF hdr0_ok mm0_wf mm0_color mm0_fresh _ mm1_eq(1)]) simp_all

end
