(* ===== verification/Drm_Mm_System.thy ===== *)
theory Drm_Mm_System
  imports Drm_Mm_Free
begin

text \<open>
  Replacement of a node, the totals of the debug tables, and the allocator as a state machine over
  its operations.
\<close>

section \<open>Replacement\<close>

definition ren :: "ptr \<Rightarrow> ptr \<Rightarrow> ptr \<Rightarrow> ptr" where
  "ren old new x = (if x = old then new else x)"

lemma list_replace_ren: "list_replace old new = map (ren old new)"
  by (simp add: list_replace_def ren_def fun_eq_iff)

lemma ren_inj_on: "new \<notin> A \<Longrightarrow> inj_on (ren old new) A"
  by (auto simp: inj_on_def ren_def)

lemma replace_fields:
  assumes "old \<noteq> new" and "x \<noteq> new"
  shows "start (nodes (drm_mm_replace_node mm old new) (ren old new x)) = start (nodes mm x)"
    and "nsize (nodes (drm_mm_replace_node mm old new) (ren old new x)) = nsize (nodes mm x)"
    and "hole_follows (nodes (drm_mm_replace_node mm old new) (ren old new x)) = hole_follows (nodes mm x)"
  using assms by (simp_all add: drm_mm_replace_node_def Let_def upd_node_def ren_def)

lemma replace_lists:
  shows "node_list (drm_mm_replace_node mm old new) = map (ren old new) (node_list mm)"
    and "hole_stack (drm_mm_replace_node mm old new) = map (ren old new) (hole_stack mm)"
    and "scanned_blocks (drm_mm_replace_node mm old new) = scanned_blocks mm"
  by (simp_all add: drm_mm_replace_node_def Let_def upd_node_def list_replace_ren)

lemma replace_wf:
  assumes wf: "mm_wf mm" and old: "old \<in> set (node_list mm)" and new: "fresh mm new"
  shows "mm_wf (drm_mm_replace_node mm old new)" (is "mm_wf ?mm")
proof -
  let ?f = "ren old new"
  have ne: "old \<noteq> new" "old \<noteq> head_node" "new \<noteq> head_node" and nr: "new \<notin> set (ring mm)"
    using old new mm_wfD(1) [OF wf] by (auto simp: fresh_def ring_def)
  have fh: "?f head_node = head_node" using ne by (simp add: ren_def)
  then have r: "ring ?mm = map ?f (ring mm)" by (simp add: ring_def replace_lists)
  note F = replace_fields [OF ne(1)]
  have x: "x \<noteq> new" if "x \<in> set (ring mm)" for x using that nr by auto
  have "spaced (nodes ?mm) (map ?f (ring mm @ [head_node])) = spaced (nodes mm) (ring mm @ [head_node])"
    by (rule spaced_map) (use F x ne in auto)
  then have sp: "spaced (nodes ?mm) (ring ?mm @ [head_node])" using mm_wfD(2) [OF wf] r fh by simp
  have inj: "inj_on ?f (set (ring mm))" by (rule ren_inj_on [OF nr])
  have hs: "set (hole_stack mm) \<subseteq> set (ring mm)" using mm_wfD(5) [OF wf] by auto
  have "set (hole_stack ?mm) = {p \<in> set (ring ?mm). hole_follows (nodes ?mm p)}"
    using mm_wfD(5) [OF wf] F(3) x r by (auto simp: replace_lists)
  moreover have "node_ok (nodes ?mm p)" if "p \<in> set (node_list ?mm)" for p
  proof -
    from that obtain y where y: "p = ?f y" "y \<in> set (node_list mm)" by (auto simp: replace_lists)
    then have "node_ok (nodes mm y)" "y \<noteq> new" using mm_wfD(3) [OF wf] x by (auto simp: ring_def)
    then show ?thesis using y new ne
      by (auto simp: node_ok_def drm_mm_replace_node_def Let_def upd_node_def ren_def fresh_def)
  qed
  moreover have "distinct (ring ?mm)" "distinct (hole_stack ?mm)"
    using mm_wfD(1,4) [OF wf] inj inj_on_subset [OF inj hs] r by (simp_all add: distinct_map replace_lists)
  moreover have "start (nodes ?mm head_node) = start (nodes mm head_node)"
    using F(1) [OF ne(3) [symmetric], of mm] fh by simp
  ultimately show ?thesis
    using sp mm_wfD(6,7) [OF wf] by (simp add: mm_wf_def replace_lists)
qed

text \<open>
  \<^verbatim>\<open>drm_mm_replace_node\<close> puts the new node in the place of the old one: the allocator stays well
  formed, the new node has the range of the old one, and every other node keeps its range.
\<close>

theorem drm_mm_replace_node_correct:
  assumes "mm_wf mm" and "old \<in> set (node_list mm)" and "fresh mm new"
  shows "mm_wf (drm_mm_replace_node mm old new) \<and>
    node_list (drm_mm_replace_node mm old new) = list_replace old new (node_list mm) \<and>
    start (nodes (drm_mm_replace_node mm old new) new) = start (nodes mm old) \<and>
    nsize (nodes (drm_mm_replace_node mm old new) new) = nsize (nodes mm old) \<and>
    color (nodes (drm_mm_replace_node mm old new) new) = color (nodes mm old) \<and>
    \<not> allocated (nodes (drm_mm_replace_node mm old new) old) \<and>
    (\<forall>q. q \<noteq> old \<and> q \<noteq> new \<longrightarrow> nodes (drm_mm_replace_node mm old new) q = nodes mm q)"
proof -
  have "old \<noteq> new" using assms by (auto simp: fresh_def ring_def)
  then show ?thesis
    using replace_wf [OF assms] by (simp add: drm_mm_replace_node_def Let_def upd_node_def)
qed

lemma mm1_fresh: "fresh mm1 2"
  by code_simp

theorem drm_mm_replace_node_correct_witness:
  "mm_wf (drm_mm_replace_node mm1 1 2) \<and> node_list (drm_mm_replace_node mm1 1 2) = [2] \<and>
    start (nodes (drm_mm_replace_node mm1 1 2) 2) = 4096"
proof -
  have "node_list mm1 = [1]" "start (nodes mm1 1) = 4096" by code_simp+
  then show ?thesis
    using drm_mm_replace_node_correct [OF mm1_wf mm1_node mm1_fresh] by (simp add: list_replace_def)
qed

section \<open>Totals\<close>

lemma debug_hole_eq:
  assumes "hdr_ok h" and "mm_wf mm" and "p \<in> set (ring mm)"
  shows "drm_mm_debug_hole h mm p = start (nodes mm (next_node mm p)) - node_end (nodes mm) p"
  using hdr_okD [OF assms(1)] hole_nonempty [OF assms(2,3)] by (auto simp: drm_mm_debug_hole_def)

lemma totals_suffix:
  assumes h: "hdr_ok h" and wf: "mm_wf mm" and "ring mm = xs @ p # ys"
    and "foldl (\<lambda>(u, f) e. (u + nsize (nodes mm e), f + drm_mm_debug_hole h mm e))
      (u0, f0 + drm_mm_debug_hole h mm p) ys = (u, f)"
  shows "u + f = u0 + f0 + (start (nodes mm head_node) - node_end (nodes mm) p)"
  using assms(3,4)
proof (induction ys arbitrary: xs p u0 f0)
  case Nil
  have "p \<notin> set xs" using mm_wfD(1) [OF wf] Nil.prems(1) by auto
  then have "next_node mm p = head_node" using Nil.prems(1) by (simp add: next_node_def next_of_split)
  then show ?case using Nil.prems debug_hole_eq [OF h wf, of p] by simp
next
  case (Cons y ys)
  have "p \<notin> set xs" using mm_wfD(1) [OF wf] Cons.prems(1) by auto
  then have "next_node mm p = y" using Cons.prems(1) by (simp add: next_node_def next_of_split)
  then have d: "drm_mm_debug_hole h mm p = start (nodes mm y) - node_end (nodes mm) p"
    using debug_hole_eq [OF h wf, of p] Cons.prems(1) by simp
  have "u + f = u0 + nsize (nodes mm y) + (f0 + drm_mm_debug_hole h mm p) +
      (start (nodes mm head_node) - node_end (nodes mm) y)"
    using Cons.prems by (intro Cons.IH [of "xs @ [p]"]) simp_all
  with d show ?case by (simp add: node_end_def [of _ y])
qed

text \<open>
  The totals of \<^verbatim>\<open>drm_mm_debug_table\<close> are consistent: used and free space add up to the size of
  the managed range, and the used space is the sum of the sizes of the nodes.
\<close>

theorem drm_mm_debug_table_totals:
  assumes "hdr_ok h" and "mm_wf mm"
  shows "case drm_mm_debug_table h mm of (tot, used, free) \<Rightarrow>
    tot = start (nodes mm head_node) - node_end (nodes mm) head_node \<and>
    tot = used + free \<and> used = sum_list (map (\<lambda>p. nsize (nodes mm p)) (node_list mm))"
proof -
  obtain u f where uf: "foldl (\<lambda>(u, f) e. (u + nsize (nodes mm e), f + drm_mm_debug_hole h mm e))
      (0, drm_mm_debug_hole h mm head_node) (node_list mm) = (u, f)" by fastforce
  have "fst (foldl (\<lambda>(u, f) e. (u + nsize (nodes mm e), f + drm_mm_debug_hole h mm e)) (a, b) l) =
      a + sum_list (map (\<lambda>p. nsize (nodes mm p)) l)" for a b l
    by (induction l arbitrary: a b) (simp_all add: add.assoc)
  from this [of 0 "drm_mm_debug_hole h mm head_node" "node_list mm"] uf
  have "u = sum_list (map (\<lambda>p. nsize (nodes mm p)) (node_list mm))" by simp
  moreover have "u + f = start (nodes mm head_node) - node_end (nodes mm) head_node"
    using totals_suffix [OF assms, of "[]" head_node "node_list mm" 0 0 u f] uf by (simp add: ring_def)
  ultimately show ?thesis using uf by (simp add: drm_mm_debug_table_def add.commute)
qed

theorem drm_mm_debug_table_totals_witness:
  "drm_mm_debug_table hdr0 mm1 = (61440, 4096, 57344) \<and>
   start (nodes mm1 head_node) - node_end (nodes mm1) head_node = 61440"
proof -
  have "drm_mm_debug_table hdr0 mm1 = (61440, 4096, 57344)" by code_simp
  then show ?thesis using drm_mm_debug_table_totals [OF hdr0_ok mm1_wf] by simp
qed

section \<open>Clean allocators\<close>

text \<open>
  \<^verbatim>\<open>drm_mm_clean\<close> is meant to say that no node is allocated.  It also returns true when one node is.
\<close>

lemma drm_mm_clean_iff:
  assumes "mm_wf mm"
  shows "drm_mm_clean mm \<longleftrightarrow> length (node_list mm) \<le> 1"
proof -
  have d: "distinct (head_node # node_list mm)" using mm_wfD(1) [OF assms] by (simp add: ring_def)
  show ?thesis
  proof (cases "node_list mm")
    case Nil
    then show ?thesis by (simp add: drm_mm_clean_def next_node_def ring_def)
  next
    case (Cons a l)
    then show ?thesis using d
      by (cases l) (auto simp: drm_mm_clean_def next_node_def ring_def)
  qed
qed

section \<open>The allocator as a state machine\<close>

text \<open>
  The operations a caller may apply, one after the other.  Between them a caller may write to a
  node that is not on the ring.
\<close>

inductive mm_step :: "mm_hdr \<Rightarrow> drm_mm \<Rightarrow> drm_mm \<Rightarrow> bool" for h where
  step_insert: "fresh mm n \<Longrightarrow> sz \<noteq> 0 \<Longrightarrow> color_ok mm (\<lambda>r. r) col \<Longrightarrow>
    drm_mm_insert_node_generic h mm n sz al col best below tp = Inr mm' \<Longrightarrow> mm_step h mm mm'"
| step_insert_in_range: "fresh mm n \<Longrightarrow> sz \<noteq> 0 \<Longrightarrow> color_ok mm (range_lim st en) col \<Longrightarrow>
    tp \<longrightarrow> color_adjust mm = None \<Longrightarrow> unat st + unat sz + 2 ^ 32 \<le> 2 ^ 64 \<Longrightarrow>
    unat (start (nodes mm head_node)) + unat sz + 2 ^ 32 \<le> 2 ^ 64 \<Longrightarrow>
    drm_mm_insert_node_in_range_generic h mm n sz al col st en best below tp = Inr mm' \<Longrightarrow> mm_step h mm mm'"
| step_reserve: "fresh mm n \<Longrightarrow> start (nodes mm n) < node_end (nodes mm) n \<Longrightarrow>
    drm_mm_reserve_node h mm n = Inr mm' \<Longrightarrow> mm_step h mm mm'"
| step_remove: "n \<in> set (node_list mm) \<Longrightarrow> drm_mm_remove_node h mm n = Inr mm' \<Longrightarrow> mm_step h mm mm'"
| step_replace: "old \<in> set (node_list mm) \<Longrightarrow> fresh mm new \<Longrightarrow> mm_step h mm (drm_mm_replace_node mm old new)"
| step_write: "n \<notin> set (ring mm) \<Longrightarrow> mm_step h mm (upd_node n f mm)"

definition mm_inv :: "mm_hdr \<Rightarrow> ulong \<Rightarrow> ulong \<Rightarrow> drm_mm \<Rightarrow> bool" where
  "mm_inv h st sz mm \<longleftrightarrow> hdr_ok h \<and> mm_wf mm \<and> start (nodes mm head_node) = st + sz \<and>
     node_end (nodes mm) head_node = st"

definition mm_ini :: "mm_hdr \<Rightarrow> ulong \<Rightarrow> ulong \<Rightarrow> drm_mm \<Rightarrow> bool" where
  "mm_ini h st sz mm \<longleftrightarrow> hdr_ok h \<and> st < st + sz \<and> unat (st + sz) + 2 ^ 32 \<le> 2 ^ 64 \<and>
     (\<exists>m. mm = drm_mm_init st sz m)"

lemma mm_ini_inv: "mm_ini h st sz mm \<Longrightarrow> mm_inv h st sz mm"
  using init_wf by (auto simp: mm_ini_def mm_inv_def)
    (simp_all add: drm_mm_init_def Let_def upd_node_def node_end_def)

lemma mm_inv_head:
  assumes "mm_inv h st sz mm" and "mm_wf mm'"
    and "start (nodes mm' head_node) = start (nodes mm head_node)"
    and "nsize (nodes mm' head_node) = nsize (nodes mm head_node)"
  shows "mm_inv h st sz mm'"
proof -
  have "node_end (nodes mm') head_node = node_end (nodes mm) head_node" using assms(3,4) by (simp add: node_end_def)
  with assms show ?thesis by (simp add: mm_inv_def)
qed

lemma allocated_at_inv:
  assumes "mm_inv h st sz mm" and "allocated_at mm n s al mm'"
  shows "mm_inv h st sz mm'"
  using assms by (intro mm_inv_head [OF assms(1)]) (auto simp: allocated_at_def ring_def)

lemma mm_step_inv:
  assumes "mm_step h mm mm'" and inv: "mm_inv h st0 sz0 mm"
  shows "mm_inv h st0 sz0 mm'"
  using assms(1)
proof cases
  note hw = inv [unfolded mm_inv_def, THEN conjunct1] inv [unfolded mm_inv_def, THEN conjunct2, THEN conjunct1]
  {
    case (step_insert n sz col al best below tp)
    then show ?thesis
      using insert_generic_correct [OF hw step_insert(3,1,2), of al best below tp] allocated_at_inv [OF inv]
      by (auto split: if_splits)
  next
    case (step_insert_in_range n sz st en col tp al best below)
    then show ?thesis
      using insert_in_range_correct [OF hw step_insert_in_range(3,1,2,4-6), of al best below] allocated_at_inv [OF inv]
      by (auto split: if_splits)
  next
    case (step_reserve n)
    then show ?thesis
      using reserve_node_correct [OF hw step_reserve(1,2)] allocated_at_inv [OF inv] by (auto split: if_splits)
  next
    case (step_remove n)
    then have "mm' = removed mm (prev_node mm n) n" using remove_node_removed [OF hw step_remove(1)] by simp
    then show ?thesis using removed_wf [OF hw(2) step_remove(1)] by (simp add: mm_inv_head [OF inv])
  next
    case (step_replace old new)
    then have "head_node \<noteq> old" "head_node \<noteq> new"
      using mm_wfD(1) [OF hw(2)] by (auto simp: fresh_def ring_def)
    then show ?thesis using replace_wf [OF hw(2) step_replace(2,3)] step_replace(1)
      by (intro mm_inv_head [OF inv]) (simp_all add: drm_mm_replace_node_def Let_def upd_node_def)
  next
    case (step_write n f)
    then have "head_node \<noteq> n" by (auto simp: ring_def)
    then show ?thesis using upd_node_off_ring [OF hw(2) step_write(2)] step_write(1)
      by (intro mm_inv_head [OF inv]) simp_all
  }
qed

interpretation mm_machine: invariant_system "mm_ini h st sz" "mm_step h" "mm_inv h st sz" for h st sz
  by unfold_locales (auto intro: mm_ini_inv mm_step_inv)


lemma mm1_reach: "reach (mm_ini hdr0 4096 61440) (mm_step hdr0) mm1"
proof (rule reach_step)
  show "reach (mm_ini hdr0 4096 61440) (mm_step hdr0) mm0"
    by (rule reach_init) (auto simp: mm_ini_def mm0_def hdr0_ok)
  show "mm_step hdr0 mm0 mm1" by (rule step_insert [OF mm0_fresh _ mm0_color mm1_eq(1)]) simp_all
qed


end
