(* ===== verification/Drm_Mm_Scan.thy ===== *)
theory Drm_Mm_Scan
  imports Drm_Mm_Free
begin

text \<open>
  The scan of the range allocator: nodes are taken off the ring until a hole fits, and put back in
  the opposite order.  Putting them back restores the allocator, and the nodes that the removal
  reports are all the nodes that have to be evicted.
\<close>

section \<open>Adding a block\<close>

text \<open>The effect on the allocator; \<open>q\<close> is the node before \<open>n\<close>.\<close>

definition scan_taken :: "drm_mm \<Rightarrow> ptr \<Rightarrow> ptr \<Rightarrow> drm_mm" where
  "scan_taken mm q n = mm\<lparr>node_list := remove1 n (node_list mm),
     nodes := (nodes mm)(q := (nodes mm q)\<lparr>hole_follows := True\<rparr>,
       n := (nodes mm n)\<lparr>scanned_block := True, scanned_preceeds_hole := hole_follows (nodes mm q),
         scan_prev := q, scan_next := prev_scanned_node mm\<rparr>),
     scanned_blocks := scanned_blocks mm + 1, prev_scanned_node := Some n\<rparr>"

text \<open>The hole that the scan looks at, restricted to the range of the scan and adjusted.\<close>

definition scan_hole :: "drm_mm \<Rightarrow> ptr \<Rightarrow> ulong \<times> ulong" where
  "scan_hole mm q = adjust mm q (scan_color mm)
     ((if scan_check_range mm then range_lim (scan_start mm) (scan_end mm) else (\<lambda>r. r)) (hole_of mm q))"

lemma scan_add_block_taken:
  assumes h: "hdr_ok h" and n: "prev_node mm n = q" "n \<noteq> q" and s: "\<not> scanned_block (nodes mm n)"
  shows "drm_mm_scan_add_block h mm n = Inr (let m = scan_taken mm q n in
    if (case scan_hole m q of (a, b) \<Rightarrow> check_free_hole a b (scan_size mm) (scan_alignment mm))
    then (m\<lparr>scan_hit_start := fst (hole_of m q), scan_hit_end := snd (hole_of m q)\<rparr>, True) else (m, False))"
proof -
  let ?m = "scan_taken mm q n"
  let ?ma = "mm\<lparr>scanned_blocks := scanned_blocks mm + 1\<rparr>"
  have pv: "prev_node ?ma n = q" using n(1) by (simp add: prev_node_def ring_def split: option.split_asm)
  let ?mb = "upd_node q (\<lambda>n. n\<lparr>hole_follows := True\<rparr>) (upd_node n (\<lambda>x. x\<lparr>scanned_block := True,
      scanned_preceeds_hole := hole_follows (nodes ?ma q)\<rparr>) ?ma)"
  let ?mc = "upd_node n (\<lambda>x. x\<lparr>scan_prev := q, scan_next := prev_scanned_node
      (?mb\<lparr>node_list := remove1 n (node_list ?mb)\<rparr>)\<rparr>) (?mb\<lparr>node_list := remove1 n (node_list ?mb)\<rparr>)"
  have m: "?mc\<lparr>prev_scanned_node := Some n\<rparr> = ?m"
    using n(2) by (intro drm_mm.equality) (simp_all add: scan_taken_def upd_node_def fun_eq_iff)
  have hf: "hole_follows (nodes ?m q)" using n(2) by (simp add: scan_taken_def)
  have p: "(hole_node_start h ?m q, hole_node_end h ?m q) = hole_of ?m q"
    by (simp add: hdr_okD(3) [OF h hf] hdr_okD(4) [OF h] hole_of_def)
  have p': "fst (hole_of ?m q) = hole_node_start h ?m q" "snd (hole_of ?m q) = hole_node_end h ?m q"
    by (simp_all flip: p)
  have f: "scan_size ?m = scan_size mm" "scan_alignment ?m = scan_alignment mm" by (simp_all add: scan_taken_def)
  show ?thesis
    using s unfolding drm_mm_scan_add_block_def Let_def pv m p
    by (simp add: p p' f scan_hole_def split: prod.split)
qed

lemma scan_taken_ring:
  assumes "ring_ok mm" and "n \<in> set (node_list mm)" and "q = prev_node mm n"
  shows "ring_ok (scan_taken mm q n)" and "n \<noteq> q" and "q \<in> set (ring (scan_taken mm q n))"
    and "set (ring (scan_taken mm q n)) = set (ring mm) - {n}"
    and "insert_after q n (ring (scan_taken mm q n)) = ring mm"
proof -
  obtain us p ys where r: "ring mm = us @ p # n # ys" "prev_node mm n = p" "n \<notin> set us" "n \<noteq> p"
    "n \<notin> set ys" "p \<notin> set us" "p \<notin> set ys" "n \<noteq> head_node"
    by (rule ok_ring_pred [OF assms(1,2)])
  then have q: "q = p" using assms(3) by simp
  let ?m = "scan_taken mm q n"
  have "ring ?m = remove1 n (ring mm)" using r(8) by (simp add: ring_def scan_taken_def)
  then have r': "ring ?m = us @ q # ys" using r q by (simp add: remove1_append)
  have fields: "start (nodes ?m x) = start (nodes mm x)" "nsize (nodes ?m x) = nsize (nodes mm x)"
    "x \<noteq> n \<Longrightarrow> hole_follows (nodes ?m x) = (x = q \<or> hole_follows (nodes mm x))" for x
    using r(4) q by (simp_all add: scan_taken_def)
  have "spaced (nodes ?m) (us @ q # ys @ [head_node])"
    by (rule drop_spaced [OF assms(1) r(1,3-8) [folded q]]) (use fields in auto)
  moreover have "distinct (us @ q # ys)" using ring_okD(1) [OF assms(1)] r(1) q by simp
  moreover have "set (node_list ?m) \<subseteq> set (node_list mm)" by (simp add: scan_taken_def set_remove1_subset)
  ultimately show "ring_ok ?m"
    using ring_okD(3) [OF assms(1)] r' fields by (auto simp: ring_ok_def node_end_def)
  show "n \<noteq> q" "q \<in> set (ring ?m)" "set (ring ?m) = set (ring mm) - {n}"
    "insert_after q n (ring ?m) = ring mm"
    using r q r' by (auto simp: insert_after_split)
qed

section \<open>The scan as a stack\<close>

text \<open>
  \<open>scanning h m u mm\<close>: from the allocator \<open>m\<close> the blocks of \<open>u\<close> were added, the last one first in
  the list, and gave \<open>mm\<close>.
\<close>

inductive scanning :: "mm_hdr \<Rightarrow> drm_mm \<Rightarrow> ptr list \<Rightarrow> drm_mm \<Rightarrow> bool" for h m where
  scan_none: "scanning h m [] m"
| scan_more: "scanning h m u mm \<Longrightarrow> n \<in> set (node_list mm) \<Longrightarrow> \<not> scanned_block (nodes mm n) \<Longrightarrow>
    drm_mm_scan_add_block h mm n = Inr (mm', hit) \<Longrightarrow> scanning h m (n # u) mm'"

inductive_cases scanning_ConsE: "scanning h m (n # u) mm"

lemma scan_more_taken:
  assumes h: "hdr_ok h" and ok: "ring_ok mm" and n: "n \<in> set (node_list mm)" "\<not> scanned_block (nodes mm n)"
    and a: "drm_mm_scan_add_block h mm n = Inr (mm', hit)"
  shows "\<exists>s e. mm' = (scan_taken mm (prev_node mm n) n)\<lparr>scan_hit_start := s, scan_hit_end := e\<rparr>"
proof -
  let ?m = "scan_taken mm (prev_node mm n) n"
  have "?m\<lparr>scan_hit_start := scan_hit_start ?m, scan_hit_end := scan_hit_end ?m\<rparr> = ?m" by simp
  moreover have "mm' = ?m \<or> (\<exists>s e. mm' = ?m\<lparr>scan_hit_start := s, scan_hit_end := e\<rparr>)"
    using a scan_add_block_taken [OF h refl scan_taken_ring(2) [OF ok n(1) refl] n(2)]
    by (auto simp: Let_def split: if_split_asm)
  ultimately show ?thesis by metis
qed

lemma ring_ok_cong:
  "ring mm' = ring mm \<Longrightarrow> nodes mm' = nodes mm \<Longrightarrow> ring_ok mm' = ring_ok mm"
  by (simp add: ring_ok_def ring_def)

lemma scanning_ok:
  assumes "scanning h m u mm" and h: "hdr_ok h" and ok: "ring_ok m"
  shows "ring_ok mm \<and> set u \<subseteq> set (ring m) \<and> distinct u \<and> set (ring mm) = set (ring m) - set u \<and>
    (\<forall>x. start (nodes mm x) = start (nodes m x) \<and> nsize (nodes mm x) = nsize (nodes m x)) \<and>
    (\<forall>x. x \<notin> set u \<longrightarrow> scanned_block (nodes mm x) = scanned_block (nodes m x))"
  using assms(1)
proof induction
  case scan_none
  with ok show ?case by simp
next
  case (scan_more u mm n mm' hit)
  then have ok: "ring_ok mm" by simp
  obtain s e where m': "mm' = (scan_taken mm (prev_node mm n) n)\<lparr>scan_hit_start := s, scan_hit_end := e\<rparr>"
    using scan_more_taken [OF h ok scan_more.hyps(2-4)] by blast
  note t = scan_taken_ring [OF ok scan_more.hyps(2) refl]
  have n: "n \<in> set (ring mm)" using scan_more.hyps(2) by (simp add: ring_def)
  have r: "ring mm' = ring (scan_taken mm (prev_node mm n) n)" "nodes mm' = nodes (scan_taken mm (prev_node mm n) n)"
    using m' by (simp_all add: ring_def)
  then have "ring_ok mm'" using t(1) ring_ok_cong by metis
  moreover have "start (nodes mm' x) = start (nodes mm x)" "nsize (nodes mm' x) = nsize (nodes mm x)"
    "x \<noteq> n \<Longrightarrow> scanned_block (nodes mm' x) = scanned_block (nodes mm x)" for x
    using r(2) by (simp_all add: scan_taken_def)
  ultimately show ?case using scan_more.IH r(1) t(4) n by auto
qed

section \<open>Unwinding\<close>

text \<open>
  \<open>like X mm m\<close>: the two allocators differ only in the scan's own fields, and in those of nodes only
  for the nodes of \<open>X\<close>.
\<close>

definition core :: "mm_node \<Rightarrow> mm_node" where
  "core n = n\<lparr>scanned_preceeds_hole := False, scan_prev := 0, scan_next := None\<rparr>"

definition like :: "ptr set \<Rightarrow> drm_mm \<Rightarrow> drm_mm \<Rightarrow> bool" where
  "like X mm m \<longleftrightarrow> ring m = ring mm \<and> hole_stack m = hole_stack mm \<and> scanned_blocks m = scanned_blocks mm \<and>
     color_adjust m = color_adjust mm \<and> (\<forall>x. core (nodes m x) = core (nodes mm x)) \<and>
     (\<forall>x. x \<notin> X \<longrightarrow> nodes m x = nodes mm x)"

lemma core_hole: "core a = core b \<Longrightarrow> core (a\<lparr>hole_follows := v\<rparr>) = core (b\<lparr>hole_follows := v\<rparr>)"
  by (cases a; cases b) (simp add: core_def)

lemma core_fields:
  assumes "core a = core b"
  shows "start a = start b" and "nsize a = nsize b" and "hole_follows a = hole_follows b"
    and "allocated a = allocated b" and "scanned_block a = scanned_block b"
    and "scanned_prev_free a = scanned_prev_free b" and "scanned_next_free a = scanned_next_free b"
  using assms by (cases a; cases b; simp add: core_def)+

lemma scan_upd_simps [simp]:
  "scan_hit_start (ring_add n p mm) = scan_hit_start mm" "scan_hit_end (ring_add n p mm) = scan_hit_end mm"
  "scan_hit_start (upd_node n f mm) = scan_hit_start mm" "scan_hit_end (upd_node n f mm) = scan_hit_end mm"
  by (simp_all add: ring_add_def upd_node_def)

lemma unwind_step:
  assumes h: "hdr_ok h" and ok: "ring_ok mm" and n: "n \<in> set (node_list mm)" "\<not> scanned_block (nodes mm n)"
    and l: "like X (scan_taken mm (prev_node mm n) n) m" and nX: "n \<notin> X"
  shows "\<exists>m'. drm_mm_scan_remove_block h m n = Inr (m', scan_hit_start m < start (nodes mm (next_node mm n)) \<and>
      start (nodes mm n) < scan_hit_end m) \<and> like (insert n X) mm m' \<and>
    scan_hit_start m' = scan_hit_start m \<and> scan_hit_end m' = scan_hit_end m"
proof -
  let ?q = "prev_node mm n" and ?t = "scan_taken mm (prev_node mm n) n"
  note t = scan_taken_ring [OF ok n(1) refl]
  have mn: "nodes m n = nodes ?t n" using l nX by (simp add: like_def)
  let ?m = "ring_add n ?q (upd_node ?q (\<lambda>x. x\<lparr>hole_follows := hole_follows (nodes mm ?q)\<rparr>)
    (upd_node n (\<lambda>x. x\<lparr>scanned_block := False\<rparr>) (m\<lparr>scanned_blocks := scanned_blocks m - 1\<rparr>)))"
  have q: "scan_prev (nodes m n) = ?q" "scanned_preceeds_hole (nodes m n) = hole_follows (nodes mm ?q)"
    "scanned_block (nodes m n)"
    using mn by (simp_all add: scan_taken_def)
  have r: "ring ?m = ring mm" using l t(5) by (simp add: like_def ring_def ring_add_def upd_node_def)
  have cn: "core ((nodes ?t n)\<lparr>scanned_block := False\<rparr>) = core (nodes mm n)"
    using n(2) by (cases "nodes mm n") (simp add: scan_taken_def core_def)
  have cq: "core ((nodes m ?q)\<lparr>hole_follows := hole_follows (nodes mm ?q)\<rparr>) = core (nodes mm ?q)"
  proof -
    have "core (nodes m ?q) = core ((nodes mm ?q)\<lparr>hole_follows := True\<rparr>)"
      using l t(2) by (simp add: like_def scan_taken_def)
    from core_hole [OF this] show ?thesis by simp
  qed
  have other: "nodes ?t x = nodes mm x" if "x \<noteq> n" "x \<noteq> ?q" for x using that by (simp add: scan_taken_def)
  have "core (nodes ?m x) = core (nodes mm x)" for x
    using l cn cq mn other [of x] t(2) by (cases "x = n"; cases "x = ?q") (simp_all add: like_def)
  moreover have "nodes ?m x = nodes mm x" if "x \<notin> insert n X" for x
    using that l other [of x] t(2) by (cases "x = ?q") (simp_all add: like_def scan_taken_def)
  ultimately have "like (insert n X) mm ?m"
    using l r by (simp add: like_def scan_taken_def)
  moreover have st: "start (nodes m x) = start (nodes mm x)" for x
  proof -
    have "start (nodes m x) = start (nodes ?t x)" using l by (intro core_fields(1)) (simp add: like_def)
    then show ?thesis by (simp add: scan_taken_def)
  qed
  moreover have "next_node ?m n = next_node mm n" using r by (simp add: next_node_def)
  moreover have rem: "drm_mm_scan_remove_block h m n = Inr (?m, scan_hit_start ?m < hole_node_end h ?m n \<and>
      start (nodes ?m n) < scan_hit_end ?m)"
    unfolding drm_mm_scan_remove_block_def Let_def using q by simp
  moreover have "start (nodes ?m x) = start (nodes mm x)" for x using st t(2) by simp
  ultimately show ?thesis using hdr_okD(4) [OF h, of ?m n] by (intro exI [of _ ?m]) simp
qed

lemma hole_range_free:
  assumes ok: "ring_ok mm" and p: "p \<in> set (ring mm)"
  shows "range_free mm (fst (hole_of mm p)) (snd (hole_of mm p))"
proof -
  obtain xs ys where r: "ring mm = xs @ p # ys" "next_node mm p = hd (ys @ [head_node])"
    by (rule ok_ring_split [OF ok p])
  have "node_end (nodes mm) q \<le> fst (hole_of mm p)" if "q \<in> set (xs @ [p])" for q
    using ok_ends_before_hole [OF ok r(1) that] by (simp add: hole_of_def)
  moreover have "snd (hole_of mm p) \<le> start (nodes mm q)" if "q \<in> set (ys @ [head_node])" for q
    using ok_starts_after_hole [OF ok r(1) that] r(2) by (simp add: hole_of_def)
  moreover have "head_node \<in> set (xs @ [p])" using r(1) by (cases xs) (simp_all add: ring_def)
  moreover have "set (node_list mm) \<subseteq> set (xs @ [p]) \<union> set (ys @ [head_node])"
    using r(1) by (cases xs) (auto simp: ring_def)
  ultimately show ?thesis by (fastforce simp: range_free_def)
qed

text \<open>A hit: the hole of the scan is free of the nodes that are left on the ring.\<close>

lemma scan_hit:
  assumes h: "hdr_ok h" and ok: "ring_ok mm" and n: "n \<in> set (node_list mm)" "\<not> scanned_block (nodes mm n)"
    and a: "drm_mm_scan_add_block h mm n = Inr (mm', hit)"
  shows "if hit then range_free mm' (scan_hit_start mm') (scan_hit_end mm') \<and>
      (\<exists>q \<in> set (ring mm'). hole_of mm' q = (scan_hit_start mm', scan_hit_end mm') \<and>
        (case scan_hole mm' q of (a, b) \<Rightarrow> check_free_hole a b (scan_size mm) (scan_alignment mm)))
    else scan_hit_start mm' = scan_hit_start mm \<and> scan_hit_end mm' = scan_hit_end mm"
proof -
  let ?q = "prev_node mm n" and ?t = "scan_taken mm (prev_node mm n) n"
  note t = scan_taken_ring [OF ok n(1) refl]
  note f = hole_range_free [OF t(1,3)]
  note A = scan_add_block_taken [OF h refl t(2) n(2)]
  have sh: "scan_hole (?t\<lparr>scan_hit_start := s, scan_hit_end := e\<rparr>) ?q = scan_hole ?t ?q"
    "hole_of (?t\<lparr>scan_hit_start := s, scan_hit_end := e\<rparr>) ?q = hole_of ?t ?q" for s e
    by (simp_all add: scan_hole_def adjust_def hole_of_def next_node_def ring_def split: option.split)
  show ?thesis
  proof (cases hit)
    case True
    with a A have mm': "mm' = ?t\<lparr>scan_hit_start := fst (hole_of ?t ?q), scan_hit_end := snd (hole_of ?t ?q)\<rparr>"
      and c: "case scan_hole ?t ?q of (a, b) \<Rightarrow> check_free_hole a b (scan_size mm) (scan_alignment mm)"
      by (auto simp: Let_def split: if_split_asm)
    from f have "range_free mm' (scan_hit_start mm') (scan_hit_end mm')" by (simp add: mm' range_free_def)
    moreover have "hole_of mm' ?q = (scan_hit_start mm', scan_hit_end mm')" by (simp add: mm' sh)
    moreover have "?q \<in> set (ring mm')" using t(3) by (simp add: mm' ring_def)
    moreover have "case scan_hole mm' ?q of (a, b) \<Rightarrow> check_free_hole a b (scan_size mm) (scan_alignment mm)"
      using c by (simp add: mm' sh)
    ultimately show ?thesis using True by auto
  next
    case False
    with a A show ?thesis by (auto simp: Let_def scan_taken_def split: if_split_asm)
  qed
qed

text \<open>One step back on the stack.\<close>

lemma like_hits: "like X (t\<lparr>scan_hit_start := s, scan_hit_end := e\<rparr>) m = like X t m"
  by (simp add: like_def ring_def)

lemma unwind_scanning:
  assumes h: "hdr_ok h" and ok: "ring_ok m0" and s: "scanning h m0 (n # u) mm'"
    and l: "like X mm' m" and nX: "n \<notin> X"
  shows "\<exists>mm m' evict. scanning h m0 u mm \<and> drm_mm_scan_remove_block h m n = Inr (m', evict) \<and>
    like (insert n X) mm m' \<and> scan_hit_start m' = scan_hit_start m \<and> scan_hit_end m' = scan_hit_end m \<and>
    (evict \<longrightarrow> start (nodes m0 n) < scan_hit_end m) \<and>
    (\<not> evict \<longrightarrow> node_end (nodes m0) n \<le> scan_hit_start m \<or> scan_hit_end m \<le> start (nodes m0 n))"
proof -
  from s obtain mm hit where s': "scanning h m0 u mm" and n: "n \<in> set (node_list mm)" "\<not> scanned_block (nodes mm n)"
    and a: "drm_mm_scan_add_block h mm n = Inr (mm', hit)"
    by (rule scanning_ConsE) blast
  note o = scanning_ok [OF s' h ok]
  then have ok': "ring_ok mm" by simp
  have l': "like X (scan_taken mm (prev_node mm n) n) m"
    using scan_more_taken [OF h ok' n a] l like_hits by blast
  have "n \<in> set (ring mm)" using n(1) by (simp add: ring_def)
  then have "node_end (nodes mm) n \<le> start (nodes mm (next_node mm n))" by (rule ok_hole_nonempty(1) [OF ok'])
  moreover have "start (nodes mm n) = start (nodes m0 n)" "node_end (nodes mm) n = node_end (nodes m0) n"
    using o by (simp_all add: node_end_def)
  ultimately show ?thesis
    using unwind_step [OF h ok' n l' nX] s' by (fastforce simp: not_less)
qed

end
