(* ===== verification/I915_Evict.thy ===== *)
theory I915_Evict
  imports Drm_Mm_Scan
begin

text \<open>
  The eviction of \<^verbatim>\<open>i915_gem_evict.c\<close>, the client of the range allocator's scan.  A vma is named by
  the address of the node embedded in it.  \<open>exec_list\<close> says that a vma is linked on some list
  through its \<^verbatim>\<open>exec_list\<close>, \<open>obj_ref\<close> counts the references to the object of a vma.

  Idling the GPU, retiring requests and unbinding a vma are the driver's and arguments of the model.
\<close>

section \<open>The eviction\<close>

record evict_state =
  vm_mm :: drm_mm
  vm_total :: ulong
  exec_list :: "ptr \<Rightarrow> bool"
  pin_count :: "ptr \<Rightarrow> nat"
  obj_ref :: "ptr \<Rightarrow> nat"
  inactive_list :: "ptr list"
  active_list :: "ptr list"

record evict_env =
  gpu_idle :: "evict_state \<Rightarrow> err option \<times> evict_state"
  retire_requests :: "evict_state \<Rightarrow> evict_state"
  vma_unbind :: "evict_state \<Rightarrow> ptr \<Rightarrow> err option \<times> evict_state"
  pending_fb_unpin :: "evict_state \<Rightarrow> bool"

definition mark_free ::
  "mm_hdr \<Rightarrow> evict_state \<Rightarrow> ptr \<Rightarrow> ptr list \<Rightarrow> err + evict_state \<times> ptr list \<times> bool" where
  "mark_free h st vma unwind =
     (if pin_count st vma \<noteq> 0 then Inr (st, unwind, False)
      else if exec_list st vma then Inr (st, unwind, False)
      else case drm_mm_scan_add_block h (vm_mm st) vma of
        Inl e \<Rightarrow> Inl e
      | Inr (mm, hit) \<Rightarrow>
          Inr (st\<lparr>vm_mm := mm, exec_list := (exec_list st)(vma := True)\<rparr>, vma # unwind, hit))"

text \<open>\<^verbatim>\<open>list_for_each_entry\<close> with \<^verbatim>\<open>mark_free\<close>, left at the first hit.\<close>

fun mark_loop ::
  "mm_hdr \<Rightarrow> evict_state \<Rightarrow> ptr list \<Rightarrow> ptr list \<Rightarrow> err + evict_state \<times> ptr list \<times> bool" where
  "mark_loop h st unwind [] = Inr (st, unwind, False)"
| "mark_loop h st unwind (vma # vmas) =
     (case mark_free h st vma unwind of
        Inl e \<Rightarrow> Inl e
      | Inr (st, unwind, hit) \<Rightarrow>
          if hit then Inr (st, unwind, True) else mark_loop h st unwind vmas)"

text \<open>The clean-up when nothing was found.\<close>

fun unwind_none :: "mm_hdr \<Rightarrow> evict_state \<Rightarrow> ptr list \<Rightarrow> err + evict_state" where
  "unwind_none h st [] = Inr st"
| "unwind_none h st (vma # unwind) =
     (case drm_mm_scan_remove_block h (vm_mm st) vma of
        Inl e \<Rightarrow> Inl e
      | Inr (mm, ret) \<Rightarrow> if ret then Inl BUG
          else unwind_none h (st\<lparr>vm_mm := mm, exec_list := (exec_list st)(vma := False)\<rparr>) unwind)"

text \<open>Putting the blocks back after a hit; the blocks to evict are moved to the eviction list.\<close>

fun unwind_found :: "mm_hdr \<Rightarrow> evict_state \<Rightarrow> ptr list \<Rightarrow> ptr list \<Rightarrow> err + evict_state \<times> ptr list" where
  "unwind_found h st [] eviction = Inr (st, eviction)"
| "unwind_found h st (vma # unwind) eviction =
     (case drm_mm_scan_remove_block h (vm_mm st) vma of
        Inl e \<Rightarrow> Inl e
      | Inr (mm, evict) \<Rightarrow> if evict
          then unwind_found h (st\<lparr>vm_mm := mm, obj_ref := (obj_ref st)(vma := obj_ref st vma + 1)\<rparr>) unwind
            (vma # eviction)
          else unwind_found h (st\<lparr>vm_mm := mm, exec_list := (exec_list st)(vma := False)\<rparr>) unwind eviction)"

fun evict_loop :: "evict_env \<Rightarrow> evict_state \<Rightarrow> err option \<Rightarrow> ptr list \<Rightarrow> err option \<times> evict_state" where
  "evict_loop env st ret [] = (ret, st)"
| "evict_loop env st ret (vma # eviction) =
     (let st = st\<lparr>exec_list := (exec_list st)(vma := False)\<rparr>;
          (ret, st) = (if ret = None then vma_unbind env st vma else (ret, st))
      in evict_loop env (st\<lparr>obj_ref := (obj_ref st)(vma := obj_ref st vma - 1)\<rparr>) ret eviction)"

text \<open>
  The search, at most twice: \<open>again\<close> says that the pass is the first.  A result \<open>Inl BUG\<close> is a
  \<^verbatim>\<open>BUG_ON\<close>; otherwise the return value, none for 0, and the state.  The size is a signed 32-bit
  value that is extended to an unsigned long.
\<close>

definition evict_found ::
  "mm_hdr \<Rightarrow> evict_env \<Rightarrow> evict_state \<Rightarrow> ptr list \<Rightarrow> err + err option \<times> evict_state" where
  "evict_found h env st unwind =
     (case unwind_found h st unwind [] of
        Inl e \<Rightarrow> Inl e
      | Inr (st, eviction) \<Rightarrow> Inr (evict_loop env st None eviction))"

definition evict_mark ::
  "mm_hdr \<Rightarrow> evict_state \<Rightarrow> bool \<Rightarrow> err + evict_state \<times> ptr list \<times> bool" where
  "evict_mark h st nonblock =
     (case mark_loop h st [] (inactive_list st) of
        Inl e \<Rightarrow> Inl e
      | Inr (st, unwind, hit) \<Rightarrow>
          if hit \<or> nonblock then Inr (st, unwind, hit)
          else mark_loop h st unwind (active_list st))"

definition evict_pass2 ::
  "mm_hdr \<Rightarrow> evict_env \<Rightarrow> evict_state \<Rightarrow> err + err option \<times> evict_state" where
  "evict_pass2 h env st =
     (case evict_mark h st False of
        Inl e \<Rightarrow> Inl e
      | Inr (st, unwind, hit) \<Rightarrow>
          if hit then evict_found h env st unwind
          else case unwind_none h st unwind of
            Inl e \<Rightarrow> Inl e
          | Inr st \<Rightarrow> Inr (Some (if pending_fb_unpin env st then EAGAIN else ENOSPC), st))"

definition i915_gem_evict_something ::
  "mm_hdr \<Rightarrow> evict_env \<Rightarrow> evict_state \<Rightarrow> u32 \<Rightarrow> u32 \<Rightarrow> u32 \<Rightarrow> ulong \<Rightarrow> ulong \<Rightarrow> bool
     \<Rightarrow> err + err option \<times> evict_state" where
  "i915_gem_evict_something h env st min_size alignment cache_level st_addr en_addr nonblock =
     (let st = st\<lparr>vm_mm := (if st_addr \<noteq> 0 \<or> en_addr \<noteq> vm_total st
            then drm_mm_init_scan_with_range (vm_mm st) (scast min_size) alignment (ucast cache_level) st_addr en_addr
            else drm_mm_init_scan (vm_mm st) (scast min_size) alignment (ucast cache_level))\<rparr>
      in case evict_mark h st nonblock of
        Inl e \<Rightarrow> Inl e
      | Inr (st, unwind, hit) \<Rightarrow>
          if hit then evict_found h env st unwind
          else case unwind_none h st unwind of
            Inl e \<Rightarrow> Inl e
          | Inr st \<Rightarrow>
              if nonblock then Inr (Some ENOSPC, st)
              else case gpu_idle env st of
                (Some e, st) \<Rightarrow> Inr (Some e, st)
              | (None, st) \<Rightarrow> evict_pass2 h env (retire_requests env st))"

section \<open>Putting the blocks back\<close>

lemma unwind_none_like:
  assumes h: "hdr_ok h" and ok: "ring_ok m0" and "scanning h m0 u mm" and "like X mm (vm_mm st)"
    and "X \<inter> set u = {}" and "scan_hit_end (vm_mm st) = 0"
  shows "\<exists>st'. unwind_none h st u = Inr st' \<and> like (X \<union> set u) m0 (vm_mm st') \<and>
    exec_list st' = (\<lambda>x. exec_list st x \<and> x \<notin> set u) \<and> pin_count st' = pin_count st \<and>
    inactive_list st' = inactive_list st \<and> active_list st' = active_list st"
  using assms(3-)
proof (induction u arbitrary: mm X st)
  case Nil
  from Nil.prems(1) have "mm = m0" by (cases) simp
  with Nil.prems show ?case by simp
next
  case (Cons n u)
  then have nX: "n \<notin> X" by simp
  obtain mm1 m' evict where s: "scanning h m0 u mm1"
    and r: "drm_mm_scan_remove_block h (vm_mm st) n = Inr (m', evict)"
    and l: "like (insert n X) mm1 m'" and e: "scan_hit_end m' = scan_hit_end (vm_mm st)"
    and ev: "evict \<longrightarrow> start (nodes m0 n) < scan_hit_end (vm_mm st)"
    using unwind_scanning [OF h ok Cons.prems(1,2) nX] by blast
  have ne: "\<not> evict" using ev Cons.prems(4) by simp
  have "distinct (n # u)" using scanning_ok [OF Cons.prems(1) h ok] by blast
  then obtain st' where "unwind_none h (st\<lparr>vm_mm := m', exec_list := (exec_list st)(n := False)\<rparr>) u = Inr st'"
    "like (insert n X \<union> set u) m0 (vm_mm st')"
    "exec_list st' = (\<lambda>x. ((exec_list st)(n := False)) x \<and> x \<notin> set u)" "pin_count st' = pin_count st"
    "inactive_list st' = inactive_list st" "active_list st' = active_list st"
    using Cons.IH [OF s, of "insert n X" "st\<lparr>vm_mm := m', exec_list := (exec_list st)(n := False)\<rparr>"] l e Cons.prems
    by auto
  then show ?case using r ne by (auto simp: fun_eq_iff)
qed

lemma unwind_found_like:
  assumes h: "hdr_ok h" and ok: "ring_ok m0" and "scanning h m0 u mm" and "like X mm (vm_mm st)"
    and "X \<inter> set u = {}"
  shows "\<exists>st' es. unwind_found h st u ev = Inr (st', es @ ev) \<and> like (X \<union> set u) m0 (vm_mm st') \<and>
    set es \<subseteq> set u \<and> distinct es \<and> (\<forall>n \<in> set u - set es.
      node_end (nodes m0) n \<le> scan_hit_start (vm_mm st) \<or> scan_hit_end (vm_mm st) \<le> start (nodes m0 n))"
  using assms(3-)
proof (induction u arbitrary: mm X st ev)
  case Nil
  from Nil.prems(1) have "mm = m0" by (cases) simp
  with Nil.prems show ?case by simp
next
  case (Cons n u)
  then have nX: "n \<notin> X" by simp
  obtain mm1 m' evict where s: "scanning h m0 u mm1"
    and r: "drm_mm_scan_remove_block h (vm_mm st) n = Inr (m', evict)"
    and l: "like (insert n X) mm1 m'"
    and e: "scan_hit_start m' = scan_hit_start (vm_mm st)" "scan_hit_end m' = scan_hit_end (vm_mm st)"
    and ev: "\<not> evict \<longrightarrow> node_end (nodes m0) n \<le> scan_hit_start (vm_mm st) \<or> scan_hit_end (vm_mm st) \<le> start (nodes m0 n)"
    using unwind_scanning [OF h ok Cons.prems(1,2) nX] by blast
  have d: "distinct (n # u)" using scanning_ok [OF Cons.prems(1) h ok] by blast
  let ?st = "if evict then st\<lparr>vm_mm := m', obj_ref := (obj_ref st)(n := obj_ref st n + 1)\<rparr> else st\<lparr>vm_mm := m', exec_list := (exec_list st)(n := False)\<rparr>"
  have lx: "like (insert n X) mm1 (vm_mm ?st)" and dx: "insert n X \<inter> set u = {}"
    using l d Cons.prems(3) by (simp_all add: disjoint_iff)
  from Cons.IH [OF s lx dx, of "(if evict then [n] else []) @ ev"]
  obtain st' es where u: "unwind_found h ?st u ((if evict then [n] else []) @ ev) = Inr (st', es @ (if evict then [n] else []) @ ev)"
    and l': "like (insert n X \<union> set u) m0 (vm_mm st')" and es: "set es \<subseteq> set u" "distinct es"
      "\<forall>n \<in> set u - set es. node_end (nodes m0) n \<le> scan_hit_start (vm_mm ?st) \<or> scan_hit_end (vm_mm ?st) \<le> start (nodes m0 n)"
    by (elim exE conjE) (rule that)
  have "unwind_found h st (n # u) ev = Inr (st', (es @ (if evict then [n] else [])) @ ev)" using r u by (cases evict) simp_all
  moreover have "like (X \<union> set (n # u)) m0 (vm_mm st')" using l' by simp
  moreover have "set (es @ (if evict then [n] else [])) \<subseteq> set (n # u)" "distinct (es @ (if evict then [n] else []))"
    using es d by auto
  moreover have "\<forall>x \<in> set (n # u) - set (es @ (if evict then [n] else [])).
      node_end (nodes m0) x \<le> scan_hit_start (vm_mm st) \<or> scan_hit_end (vm_mm st) \<le> start (nodes m0 x)"
    using es(3) ev e by (auto split: if_splits)
  ultimately show ?case by (intro exI conjI)
qed

section \<open>Marking\<close>

text \<open>What holds of the state of the scan: \<open>u\<close> are the marked vmas, \<open>hit\<close> says that a hole was found.\<close>

definition marked :: "mm_hdr \<Rightarrow> drm_mm \<Rightarrow> evict_state \<Rightarrow> ptr list \<Rightarrow> bool \<Rightarrow> bool" where
  "marked h m0 st u hit \<longleftrightarrow> scanning h m0 u (vm_mm st) \<and> (\<forall>x \<in> set u. exec_list st x) \<and>
     (if hit then range_free (vm_mm st) (scan_hit_start (vm_mm st)) (scan_hit_end (vm_mm st)) \<and>
        (\<exists>q \<in> set (ring (vm_mm st)). hole_of (vm_mm st) q = (scan_hit_start (vm_mm st), scan_hit_end (vm_mm st)) \<and>
          (case scan_hole (vm_mm st) q of (a, b) \<Rightarrow> check_free_hole a b (scan_size m0) (scan_alignment m0)))
      else scan_hit_end (vm_mm st) = 0)"

lemma scanning_params:
  assumes "scanning h m u mm" and h: "hdr_ok h" and ok: "ring_ok m"
  shows "scan_size mm = scan_size m \<and> scan_alignment mm = scan_alignment m \<and> scan_color mm = scan_color m \<and>
    scan_check_range mm = scan_check_range m \<and> scan_start mm = scan_start m \<and> scan_end mm = scan_end m \<and>
    color_adjust mm = color_adjust m"
  using assms(1)
proof induction
  case (scan_more u mm n mm' hit)
  have "ring_ok mm" using scanning_ok [OF scan_more.hyps(1) h ok] by blast
  then obtain s e where "mm' = (scan_taken mm (prev_node mm n) n)\<lparr>scan_hit_start := s, scan_hit_end := e\<rparr>"
    using scan_more_taken [OF h _ scan_more.hyps(2-4)] by blast
  with scan_more.IH show ?case by (simp add: scan_taken_def)
qed simp

lemma mark_free_marked:
  assumes h: "hdr_ok h" and ok: "ring_ok m0" and m: "marked h m0 st u False"
    and v: "v \<in> set (node_list m0)" "\<not> scanned_block (nodes m0 v)"
  shows "\<exists>st' u' hit. mark_free h st v u = Inr (st', u', hit) \<and> marked h m0 st' u' hit \<and>
    set u' \<subseteq> insert v (set u) \<and> inactive_list st' = inactive_list st \<and> active_list st' = active_list st"
proof (cases "pin_count st v \<noteq> 0 \<or> exec_list st v")
  case True
  with m show ?thesis by (auto simp: mark_free_def)
next
  case False
  have s: "scanning h m0 u (vm_mm st)" using m by (simp add: marked_def)
  have vu: "v \<notin> set u" using m False by (auto simp: marked_def)
  note o = scanning_ok [OF s h ok]
  then have ok': "ring_ok (vm_mm st)" by simp
  have vh: "v \<noteq> head_node" using v(1) ring_okD(1) [OF ok] by (auto simp: ring_def)
  have "v \<in> set (ring (vm_mm st))" using o v(1) vu by (simp add: ring_def)
  then have vn: "v \<in> set (node_list (vm_mm st))" "\<not> scanned_block (nodes (vm_mm st) v)"
    using vh o v(2) vu by (auto simp: ring_def)
  note t = scan_taken_ring [OF ok' vn(1) refl]
  have "\<exists>r. drm_mm_scan_add_block h (vm_mm st) v = Inr r"
    using scan_add_block_taken [OF h refl t(2) vn(2)] by blast
  then obtain mm' hit where a: "drm_mm_scan_add_block h (vm_mm st) v = Inr (mm', hit)" by (metis surj_pair)
  have s': "scanning h m0 (v # u) mm'" using s vn a by (rule scan_more)
  have "marked h m0 (st\<lparr>vm_mm := mm', exec_list := (exec_list st)(v := True)\<rparr>) (v # u) hit"
    using s' m scan_hit [OF h ok' vn a] scanning_params [OF s h ok] by (auto simp: marked_def split: if_splits)
  then show ?thesis using a False by (auto simp: mark_free_def)
qed

lemma mark_loop_marked:
  assumes h: "hdr_ok h" and ok: "ring_ok m0" and "marked h m0 st u False"
    and "\<forall>v \<in> set vs. v \<in> set (node_list m0) \<and> \<not> scanned_block (nodes m0 v)"
  shows "\<exists>st' u' hit. mark_loop h st u vs = Inr (st', u', hit) \<and> marked h m0 st' u' hit \<and>
    set u' \<subseteq> set vs \<union> set u \<and> inactive_list st' = inactive_list st \<and> active_list st' = active_list st"
  using assms(3,4)
proof (induction vs arbitrary: st u)
  case (Cons v vs)
  then obtain st1 u1 hit where a: "mark_free h st v u = Inr (st1, u1, hit)" "marked h m0 st1 u1 hit"
    "set u1 \<subseteq> insert v (set u)" "inactive_list st1 = inactive_list st" "active_list st1 = active_list st"
    using mark_free_marked [OF h ok, of st u v] by auto
  show ?case
  proof (cases hit)
    case True
    with a show ?thesis by auto
  next
    case False
    with a Cons.IH [of st1 u1] Cons.prems(2) obtain st' u' hit' where
      "mark_loop h st1 u1 vs = Inr (st', u', hit')" "marked h m0 st' u' hit'" "set u' \<subseteq> set vs \<union> set u1"
      "inactive_list st' = inactive_list st1" "active_list st' = active_list st1" by auto
    with a False show ?thesis by auto
  qed
qed auto

section \<open>The eviction makes room\<close>

definition evict_ok :: "evict_state \<Rightarrow> bool" where
  "evict_ok st \<longleftrightarrow> mm_wf (vm_mm st) \<and> color_adjust (vm_mm st) = None \<and>
     set (inactive_list st) \<union> set (active_list st) \<subseteq> set (node_list (vm_mm st))"

lemma like_wf:
  assumes l: "like X mm m" and wf: "mm_wf mm"
  shows "mm_wf m" and "node_list m = node_list mm" and "node_end (nodes m) x = node_end (nodes mm) x"
    and "start (nodes m x) = start (nodes mm x)" and "color_adjust m = color_adjust mm"
proof -
  have c: "core (nodes m x) = core (nodes mm x)" for x using l by (simp add: like_def)
  note f = core_fields [OF c]
  show n: "node_list m = node_list mm" and "color_adjust m = color_adjust mm" using l by (simp_all add: like_def ring_def)
  show "node_end (nodes m) x = node_end (nodes mm) x" "start (nodes m x) = start (nodes mm x)"
    by (simp_all add: node_end_def f)
  have "spaced (nodes m) (ring m @ [head_node]) = spaced (nodes mm) (ring mm @ [head_node])"
    using l by (simp add: like_def spaced_cong f)
  then show "mm_wf m" using wf l n by (simp add: mm_wf_def like_def node_ok_def f)
qed

lemma evict_mark_marked:
  assumes h: "hdr_ok h" and ok: "evict_ok st" and z: "scan_hit_end (vm_mm st) = 0"
  shows "\<exists>st' u hit. evict_mark h st nonblock = Inr (st', u, hit) \<and> marked h (vm_mm st) st' u hit \<and>
    set u \<subseteq> set (node_list (vm_mm st)) \<and> inactive_list st' = inactive_list st \<and> active_list st' = active_list st"
proof -
  let ?m = "vm_mm st"
  have wf: "mm_wf ?m" and r: "ring_ok ?m" using ok wf_ring by (auto simp: evict_ok_def)
  have l: "\<forall>v \<in> set (inactive_list st) \<union> set (active_list st). v \<in> set (node_list ?m) \<and> \<not> scanned_block (nodes ?m v)"
    using ok mm_wfD(3) [OF wf] by (auto simp: evict_ok_def node_ok_def)
  have "marked h ?m st [] False" using z by (simp add: marked_def scan_none)
  then obtain st1 u1 hit1 where 1: "mark_loop h st [] (inactive_list st) = Inr (st1, u1, hit1)"
    "marked h ?m st1 u1 hit1" "set u1 \<subseteq> set (inactive_list st)" "inactive_list st1 = inactive_list st"
    "active_list st1 = active_list st"
    using mark_loop_marked [OF h r, of st "[]" "inactive_list st"] l by auto
  show ?thesis
  proof (cases "hit1 \<or> nonblock")
    case True
    with 1 l show ?thesis by (auto simp: evict_mark_def)
  next
    case False
    with 1 obtain st2 u2 hit2 where 2: "mark_loop h st1 u1 (active_list st1) = Inr (st2, u2, hit2)"
      "marked h ?m st2 u2 hit2" "set u2 \<subseteq> set (active_list st) \<union> set u1" "inactive_list st2 = inactive_list st"
      "active_list st2 = active_list st"
      using mark_loop_marked [OF h r, of st1 u1 "active_list st"] l by auto
    have "evict_mark h st nonblock = Inr (st2, u2, hit2)" using False 1 2(1) by (simp add: evict_mark_def)
    moreover have "set u2 \<subseteq> set (node_list ?m)" using 2(3) 1(3) l by blast
    ultimately show ?thesis using 2 by blast
  qed
qed

text \<open>
  What the code relies on of \<^verbatim>\<open>i915_vma_unbind\<close>: when it succeeds, the node was removed from the
  allocator and nothing else changed there.
\<close>

definition unbind_ok :: "mm_hdr \<Rightarrow> evict_env \<Rightarrow> bool" where
  "unbind_ok h env \<longleftrightarrow> (\<forall>st v st'. vma_unbind env st v = (None, st') \<longrightarrow>
     drm_mm_remove_node h (vm_mm st) v = Inr (vm_mm st'))"

lemma evict_loop_err: "ret \<noteq> None \<Longrightarrow> fst (evict_loop env st ret ev) = ret"
  by (induction ev arbitrary: st) auto

lemma evict_loop_removes:
  assumes h: "hdr_ok h" and u: "unbind_ok h env" and "mm_wf (vm_mm st)" and "distinct ev"
    and "set ev \<subseteq> set (node_list (vm_mm st))" and "evict_loop env st None ev = (None, st')"
  shows "mm_wf (vm_mm st') \<and> set (node_list (vm_mm st')) = set (node_list (vm_mm st)) - set ev \<and>
    (\<forall>x. start (nodes (vm_mm st') x) = start (nodes (vm_mm st) x) \<and>
      node_end (nodes (vm_mm st')) x = node_end (nodes (vm_mm st)) x)"
  using assms(3-)
proof (induction ev arbitrary: st)
  case (Cons v ev)
  let ?st = "st\<lparr>exec_list := (exec_list st)(v := False)\<rparr>"
  obtain ret st1 where b: "vma_unbind env ?st v = (ret, st1)" by fastforce
  let ?st1 = "st1\<lparr>obj_ref := (obj_ref st1)(v := obj_ref st1 v - 1)\<rparr>"
  have n: "ret = None" using Cons.prems(4) b evict_loop_err [of ret env ?st1 ev] by (cases ret) auto
  have v: "v \<in> set (node_list (vm_mm st))" using Cons.prems(3) by simp
  have "drm_mm_remove_node h (vm_mm ?st) v = Inr (vm_mm st1)" using u b n unfolding unbind_ok_def by blast
  then have m: "vm_mm st1 = removed (vm_mm st) (prev_node (vm_mm st) v) v"
    using remove_node_removed [OF h Cons.prems(1) v] by simp
  have wf: "mm_wf (vm_mm st1)" using removed_wf [OF Cons.prems(1) v] m by simp
  have "distinct (node_list (vm_mm st))" using mm_wfD(1) [OF Cons.prems(1)] by (simp add: ring_def)
  then have nl: "set (node_list (vm_mm st1)) = set (node_list (vm_mm st)) - {v}" using m by (simp add: removed_def)
  have "set ev \<subseteq> set (node_list (vm_mm ?st1))" "evict_loop env ?st1 None ev = (None, st')"
    using Cons.prems b n nl by auto
  moreover have "mm_wf (vm_mm ?st1)" using wf by simp
  ultimately show ?case using Cons.IH [of ?st1] Cons.prems(2) nl m by simp blast
qed simp

text \<open>The restriction of the holes in a scan, and that there is room for an allocation.\<close>

definition scan_lim :: "drm_mm \<Rightarrow> ulong \<times> ulong \<Rightarrow> ulong \<times> ulong" where
  "scan_lim mm = (if scan_check_range mm then range_lim (scan_start mm) (scan_end mm) else (\<lambda>r. r))"

definition room :: "drm_mm \<Rightarrow> (ulong \<times> ulong \<Rightarrow> ulong \<times> ulong) \<Rightarrow> ulong \<Rightarrow> u32 \<Rightarrow> bool" where
  "room mm lim sz al \<longleftrightarrow> (\<exists>a b. range_free mm a b \<and>
     (case lim (a, b) of (s, e) \<Rightarrow> align_up (unat al) (unat s) + unat sz \<le> unat e))"

lemma hit_fits:
  assumes h: "hdr_ok h" and wf: "mm_wf m0" and c: "color_adjust m0 = None" and m: "marked h m0 st u True"
    and b: "unat (scan_start m0) + unat (scan_size m0) + 2 ^ 32 \<le> 2 ^ 64"
      "unat (start (nodes m0 head_node)) + unat (scan_size m0) + 2 ^ 32 \<le> 2 ^ 64"
  shows "case scan_lim m0 (scan_hit_start (vm_mm st), scan_hit_end (vm_mm st)) of
    (s, e) \<Rightarrow> align_up (unat (scan_alignment m0)) (unat s) + unat (scan_size m0) \<le> unat e"
proof -
  let ?mm = "vm_mm st"
  have sc: "scanning h m0 u ?mm" using m by (simp add: marked_def)
  note p = scanning_params [OF sc h wf_ring [OF wf]] and o = scanning_ok [OF sc h wf_ring [OF wf]]
  obtain q where q: "q \<in> set (ring ?mm)" "hole_of ?mm q = (scan_hit_start ?mm, scan_hit_end ?mm)"
    "case scan_hole ?mm q of (a, b) \<Rightarrow> check_free_hole a b (scan_size m0) (scan_alignment m0)"
    and f: "range_free ?mm (scan_hit_start ?mm) (scan_hit_end ?mm)"
    using m by (auto simp: marked_def)
  obtain s e where l: "scan_lim m0 (scan_hit_start ?mm, scan_hit_end ?mm) = (s, e)" by fastforce
  have "scan_hole ?mm q = (s, e)" using l q(2) p c
    by (cases "scan_check_range m0") (simp_all add: scan_hole_def scan_lim_def adjust_def)
  then have ch: "check_free_hole s e (scan_size m0) (scan_alignment m0)" using q(3) by simp
  have hole: "scan_hit_start ?mm \<le> scan_hit_end ?mm"
    using ok_hole_nonempty(1) [of ?mm q] q(1,2) o by (simp add: hole_of_def)
  have top: "scan_hit_end ?mm \<le> start (nodes m0 head_node)" using f o by (simp add: range_free_def)
  have "e \<le> scan_hit_end ?mm" using l by (auto simp: scan_lim_def range_lim_def split: if_splits)
  then have e: "unat e + 2 ^ 32 \<le> 2 ^ 64" using top mm_wfD(7) [OF wf] by (simp add: word_le_nat_alt)
  have "s = scan_start m0 \<or> s = scan_hit_start ?mm" using l by (auto simp: scan_lim_def range_lim_def split: if_splits)
  then have "unat s + unat (scan_size m0) + 2 ^ 32 \<le> 2 ^ 64"
    using b hole top by (auto simp: word_le_nat_alt)
  then show ?thesis using check_free_hole_iff [OF e] ch l by simp
qed

lemma evict_found_room:
  assumes h: "hdr_ok h" and un: "unbind_ok h env" and wf: "mm_wf m0" and c: "color_adjust m0 = None"
    and m: "marked h m0 st u True" and u: "set u \<subseteq> set (node_list m0)"
    and b: "unat (scan_start m0) + unat (scan_size m0) + 2 ^ 32 \<le> 2 ^ 64"
      "unat (start (nodes m0 head_node)) + unat (scan_size m0) + 2 ^ 32 \<le> 2 ^ 64"
  shows "\<exists>ret st'. evict_found h env st u = Inr (ret, st') \<and>
    (ret = None \<longrightarrow> mm_wf (vm_mm st') \<and> room (vm_mm st') (scan_lim m0) (scan_size m0) (scan_alignment m0))"
proof -
  let ?a = "scan_hit_start (vm_mm st)" and ?b = "scan_hit_end (vm_mm st)"
  have sc: "scanning h m0 u (vm_mm st)" and f: "range_free (vm_mm st) ?a ?b" using m by (auto simp: marked_def)
  note o = scanning_ok [OF sc h wf_ring [OF wf]]
  have "like {} (vm_mm st) (vm_mm st)" by (simp add: like_def)
  then obtain st1 es where 1: "unwind_found h st u [] = Inr (st1, es)" "like (set u) m0 (vm_mm st1)"
    "set es \<subseteq> set u" "distinct es"
    "\<forall>n \<in> set u - set es. node_end (nodes m0) n \<le> ?a \<or> ?b \<le> start (nodes m0 n)"
    using unwind_found_like [OF h wf_ring [OF wf] sc, of "{}" st "[]"] by auto
  note l = like_wf [OF 1(2) wf]
  obtain ret st' where e: "evict_loop env st1 None es = (ret, st')" by fastforce
  have "mm_wf (vm_mm st') \<and> room (vm_mm st') (scan_lim m0) (scan_size m0) (scan_alignment m0)" if "ret = None"
  proof -
    have es: "set es \<subseteq> set (node_list (vm_mm st1))" using 1(3) u l(2) by auto
    have r: "mm_wf (vm_mm st')" "set (node_list (vm_mm st')) = set (node_list m0) - set es"
      "\<And>x. start (nodes (vm_mm st') x) = start (nodes m0 x)" "\<And>x. node_end (nodes (vm_mm st')) x = node_end (nodes m0) x"
      using evict_loop_removes [OF h un l(1) 1(4) es] e that l by auto
    have "?b \<le> start (nodes m0 x) \<or> node_end (nodes m0) x \<le> ?a" if x: "x \<in> set (node_list m0) - set es" for x
    proof (cases "x \<in> set u")
      case False
      have "x \<noteq> head_node" using x mm_wfD(1) [OF wf] by (auto simp: ring_def)
      with False x o have "x \<in> set (node_list (vm_mm st))" by (auto simp: ring_def)
      with f o show ?thesis by (auto simp: range_free_def node_end_def)
    qed (use 1(5) x in auto)
    then have "range_free (vm_mm st') ?a ?b" using f o r by (auto simp: range_free_def node_end_def)
    then show ?thesis using r(1) hit_fits [OF h wf c m b] unfolding room_def by (intro conjI exI)
  qed
  then show ?thesis using 1(1) e by (simp add: evict_found_def)
qed

text \<open>
  What the code relies on of idling the GPU and retiring requests: the vmas on the lists are still
  inserted nodes of a well-formed allocator, and the parameters of the scan are not touched.
\<close>

definition scan_params :: "drm_mm \<Rightarrow> ulong \<times> u32 \<times> bool \<times> ulong \<times> ulong \<times> ulong \<times> ulong" where
  "scan_params mm = (scan_size mm, scan_alignment mm, scan_check_range mm, scan_start mm, scan_end mm,
     scan_hit_end mm, start (nodes mm head_node))"

definition idle_ok :: "evict_env \<Rightarrow> bool" where
  "idle_ok env \<longleftrightarrow> (\<forall>st. evict_ok st \<longrightarrow> (\<forall>st' \<in> {snd (gpu_idle env st), retire_requests env st}.
     evict_ok st' \<and> scan_params (vm_mm st') = scan_params (vm_mm st)))"

lemma idle_okD:
  assumes "idle_ok env" and "evict_ok st"
  shows "evict_ok (snd (gpu_idle env st))" and "scan_params (vm_mm (snd (gpu_idle env st))) = scan_params (vm_mm st)"
    and "evict_ok (retire_requests env st)" and "scan_params (vm_mm (retire_requests env st)) = scan_params (vm_mm st)"
  using assms unfolding idle_ok_def by blast+

lemma remove_block_params:
  "drm_mm_scan_remove_block h m n = Inr (m', e) \<Longrightarrow> scan_params m' = scan_params m"
  by (auto simp: drm_mm_scan_remove_block_def scan_params_def Let_def upd_node_def ring_add_def split: if_split_asm)

lemma unwind_none_params: "unwind_none h st u = Inr st' \<Longrightarrow> scan_params (vm_mm st') = scan_params (vm_mm st)"
  by (induction u arbitrary: st) (auto simp: remove_block_params split: sum.split_asm prod.split_asm if_split_asm)

lemma unwind_none_ok:
  assumes h: "hdr_ok h" and ok: "evict_ok st0" and m: "marked h (vm_mm st0) st u False"
    and z0: "scan_hit_end (vm_mm st0) = 0" and l: "inactive_list st = inactive_list st0" "active_list st = active_list st0"
  shows "\<exists>st'. unwind_none h st u = Inr st' \<and> evict_ok st' \<and> scan_params (vm_mm st') = scan_params (vm_mm st0)"
proof -
  have wf: "mm_wf (vm_mm st0)" using ok by (simp add: evict_ok_def)
  have sc: "scanning h (vm_mm st0) u (vm_mm st)" and z: "scan_hit_end (vm_mm st) = 0"
    using m by (auto simp: marked_def)
  have "like {} (vm_mm st) (vm_mm st)" by (simp add: like_def)
  then obtain st' where s: "unwind_none h st u = Inr st'" "like (set u) (vm_mm st0) (vm_mm st')"
    "inactive_list st' = inactive_list st" "active_list st' = active_list st"
    using unwind_none_like [OF h wf_ring [OF wf] sc, of "{}" st] z by auto
  have "evict_ok st'" using like_wf [OF s(2) wf] s(3,4) l ok by (simp add: evict_ok_def)
  moreover have "scan_params (vm_mm st') = scan_params (vm_mm st0)"
    using unwind_none_params [OF s(1)] scanning_params [OF sc h wf_ring [OF wf]] scanning_ok [OF sc h wf_ring [OF wf]]
      z z0 by (simp add: scan_params_def)
  ultimately show ?thesis using s(1) by blast
qed

text \<open>One pass: the marking ends in a hit with room, or the allocator is restored.\<close>

lemma evict_pass:
  assumes h: "hdr_ok h" and un: "unbind_ok h env" and ok: "evict_ok st" and z: "scan_hit_end (vm_mm st) = 0"
    and b: "unat (scan_start (vm_mm st)) + unat (scan_size (vm_mm st)) + 2 ^ 32 \<le> 2 ^ 64"
      "unat (start (nodes (vm_mm st) head_node)) + unat (scan_size (vm_mm st)) + 2 ^ 32 \<le> 2 ^ 64"
  obtains (found) st1 u ret st' where "evict_mark h st nonblock = Inr (st1, u, True)"
      "evict_found h env st1 u = Inr (ret, st')"
      "ret = None \<Longrightarrow> mm_wf (vm_mm st') \<and>
        room (vm_mm st') (scan_lim (vm_mm st)) (scan_size (vm_mm st)) (scan_alignment (vm_mm st))"
  | (none) st1 u st' where "evict_mark h st nonblock = Inr (st1, u, False)" "unwind_none h st1 u = Inr st'"
      "evict_ok st'" "scan_params (vm_mm st') = scan_params (vm_mm st)"
proof -
  have wf: "mm_wf (vm_mm st)" and c: "color_adjust (vm_mm st) = None" using ok by (auto simp: evict_ok_def)
  obtain st1 u hit where m: "evict_mark h st nonblock = Inr (st1, u, hit)" "marked h (vm_mm st) st1 u hit"
    "set u \<subseteq> set (node_list (vm_mm st))" "inactive_list st1 = inactive_list st" "active_list st1 = active_list st"
    using evict_mark_marked [OF h ok z] by blast
  show thesis
  proof (cases hit)
    case True
    then have mt: "marked h (vm_mm st) st1 u True" using m(2) by simp
    from evict_found_room [OF h un wf c mt m(3) b] obtain ret st' where f: "evict_found h env st1 u = Inr (ret, st')"
      "ret = None \<longrightarrow> mm_wf (vm_mm st') \<and>
        room (vm_mm st') (scan_lim (vm_mm st)) (scan_size (vm_mm st)) (scan_alignment (vm_mm st))" by blast
    have "evict_mark h st nonblock = Inr (st1, u, True)" using m(1) True by simp
    then show thesis by (rule found [OF _ f(1)]) (use f(2) in blast)
  next
    case False
    then have mf: "marked h (vm_mm st) st1 u False" using m(2) by simp
    from unwind_none_ok [OF h ok mf z m(4,5)] obtain st' where f: "unwind_none h st1 u = Inr st'" "evict_ok st'"
      "scan_params (vm_mm st') = scan_params (vm_mm st)" by blast
    have "evict_mark h st nonblock = Inr (st1, u, False)" using m(1) False by simp
    then show thesis by (rule none [OF _ f])
  qed
qed

lemma scan_lim_params: "scan_params mm = scan_params mm' \<Longrightarrow> scan_lim mm = scan_lim mm'"
  by (simp add: scan_params_def scan_lim_def)

lemma evict_pass2_room:
  assumes h: "hdr_ok h" and un: "unbind_ok h env" and ok: "evict_ok st" and z: "scan_hit_end (vm_mm st) = 0"
    and b: "unat (scan_start (vm_mm st)) + unat (scan_size (vm_mm st)) + 2 ^ 32 \<le> 2 ^ 64"
      "unat (start (nodes (vm_mm st) head_node)) + unat (scan_size (vm_mm st)) + 2 ^ 32 \<le> 2 ^ 64"
  shows "\<exists>ret st'. evict_pass2 h env st = Inr (ret, st') \<and> (ret = None \<longrightarrow> mm_wf (vm_mm st') \<and>
    room (vm_mm st') (scan_lim (vm_mm st)) (scan_size (vm_mm st)) (scan_alignment (vm_mm st)))"
  by (rule evict_pass [OF assms, where nonblock = False]) (auto simp: evict_pass2_def)

definition scan_ini :: "evict_state \<Rightarrow> u32 \<Rightarrow> u32 \<Rightarrow> u32 \<Rightarrow> ulong \<Rightarrow> ulong \<Rightarrow> drm_mm" where
  "scan_ini st min_size alignment cache_level st_addr en_addr =
     (if st_addr \<noteq> 0 \<or> en_addr \<noteq> vm_total st
      then drm_mm_init_scan_with_range (vm_mm st) (scast min_size) alignment (ucast cache_level) st_addr en_addr
      else drm_mm_init_scan (vm_mm st) (scast min_size) alignment (ucast cache_level))"

lemma scan_ini_ok:
  assumes "evict_ok st"
  shows "evict_ok (st\<lparr>vm_mm := scan_ini st min_size al lvl a b\<rparr>)"
    and "scan_hit_end (scan_ini st min_size al lvl a b) = 0"
    and "scan_size (scan_ini st min_size al lvl a b) = scast min_size"
    and "scan_alignment (scan_ini st min_size al lvl a b) = al"
    and "nodes (scan_ini st min_size al lvl a b) = nodes (vm_mm st)"
  using assms
  by (simp_all add: evict_ok_def scan_ini_def drm_mm_init_scan_def drm_mm_init_scan_with_range_def mm_wf_def ring_def)

lemma evict_something_room:
  assumes h: "hdr_ok h" and env: "unbind_ok h env" "idle_ok env" and ok: "evict_ok st"
    and b: "unat (scan_start (scan_ini st sz al lvl a e)) + unat (scast sz :: ulong) + 2 ^ 32 \<le> 2 ^ 64"
      "unat (start (nodes (vm_mm st) head_node)) + unat (scast sz :: ulong) + 2 ^ 32 \<le> 2 ^ 64"
  shows "\<exists>ret st'. i915_gem_evict_something h env st sz al lvl a e nonblock = Inr (ret, st') \<and>
    (ret = None \<longrightarrow> mm_wf (vm_mm st') \<and> room (vm_mm st') (scan_lim (scan_ini st sz al lvl a e)) (scast sz) al)"
proof -
  let ?m = "scan_ini st sz al lvl a e"
  let ?st = "st\<lparr>vm_mm := ?m\<rparr>"
  note i = scan_ini_ok [OF ok, of sz al lvl a e]
  have u: "i915_gem_evict_something h env st sz al lvl a e nonblock = (case evict_mark h ?st nonblock of
      Inl e \<Rightarrow> Inl e
    | Inr (st, unwind, hit) \<Rightarrow>
        if hit then evict_found h env st unwind
        else case unwind_none h st unwind of
          Inl e \<Rightarrow> Inl e
        | Inr st \<Rightarrow> if nonblock then Inr (Some ENOSPC, st)
            else case gpu_idle env st of
              (Some e, st) \<Rightarrow> Inr (Some e, st)
            | (None, st) \<Rightarrow> evict_pass2 h env (retire_requests env st))"
    unfolding i915_gem_evict_something_def scan_ini_def Let_def by (rule refl)
  have b': "unat (scan_start (vm_mm ?st)) + unat (scan_size (vm_mm ?st)) + 2 ^ 32 \<le> 2 ^ 64"
    "unat (start (nodes (vm_mm ?st) head_node)) + unat (scan_size (vm_mm ?st)) + 2 ^ 32 \<le> 2 ^ 64"
    using b i by simp_all
  show ?thesis
  proof (rule evict_pass [OF h env(1) i(1) _ b', where nonblock = nonblock])
    show "scan_hit_end (vm_mm ?st) = 0" using i(2) by simp
  next
    fix st1 u ret st'
    assume 1: "evict_mark h ?st nonblock = Inr (st1, u, True)" "evict_found h env st1 u = Inr (ret, st')"
      and r: "ret = None \<Longrightarrow> mm_wf (vm_mm st') \<and>
        room (vm_mm st') (scan_lim (vm_mm ?st)) (scan_size (vm_mm ?st)) (scan_alignment (vm_mm ?st))"
    have "i915_gem_evict_something h env st sz al lvl a e nonblock = Inr (ret, st')" using u 1 by simp
    then show ?thesis using r i(3,4) by (intro exI [of _ ret] exI [of _ st'] conjI) auto
  next
    fix st1 u st2
    assume 2: "evict_mark h ?st nonblock = Inr (st1, u, False)" "unwind_none h st1 u = Inr st2"
      "evict_ok st2" "scan_params (vm_mm st2) = scan_params (vm_mm ?st)"
    show ?thesis
    proof (cases "nonblock \<or> fst (gpu_idle env st2) \<noteq> None")
      case True
      then have "\<exists>x st'. i915_gem_evict_something h env st sz al lvl a e nonblock = Inr (Some x, st')"
        using u 2(1,2) by (cases "gpu_idle env st2") (auto split: option.splits)
      then show ?thesis by blast
    next
      case False
      then obtain st3 where 3: "gpu_idle env st2 = (None, st3)" by (cases "gpu_idle env st2") auto
      let ?st4 = "retire_requests env st3"
      have "evict_ok st3" "scan_params (vm_mm st3) = scan_params ?m"
        using idle_okD(1,2) [OF env(2) 2(3)] 2(4) 3 by simp_all
      then have 4: "evict_ok ?st4" "scan_params (vm_mm ?st4) = scan_params ?m"
        using idle_okD(3,4) [OF env(2)] by simp_all
      note l = scan_lim_params [OF 4(2)]
      have q: "i915_gem_evict_something h env st sz al lvl a e nonblock = evict_pass2 h env ?st4"
        using u 2(1,2) 3 False by simp
      have p: "scan_hit_end (vm_mm ?st4) = 0" "scan_size (vm_mm ?st4) = scast sz" "scan_alignment (vm_mm ?st4) = al"
        "scan_start (vm_mm ?st4) = scan_start ?m" "start (nodes (vm_mm ?st4) head_node) = start (nodes (vm_mm st) head_node)"
        using 4(2) i by (simp_all add: scan_params_def)
      from evict_pass2_room [OF h env(1) 4(1) p(1)] b show ?thesis unfolding q p l by simp
    qed
  qed
qed

text \<open>
  C20: when a scan finds no hole, putting the blocks back in the opposite order restores the
  allocator: no \<^verbatim>\<open>BUG_ON\<close> fires, no block is reported for eviction, and the ring, the hole stack and
  every node are as before except for the scan's own fields.
\<close>

theorem i915_evict_none_restores:
  assumes "hdr_ok h" and "evict_ok st" and "scan_hit_end (vm_mm st) = 0"
    and "evict_mark h st nonblock = Inr (st1, unwind, False)"
  shows "\<exists>st'. unwind_none h st1 unwind = Inr st' \<and> mm_wf (vm_mm st') \<and>
    node_list (vm_mm st') = node_list (vm_mm st) \<and> hole_stack (vm_mm st') = hole_stack (vm_mm st) \<and>
    (\<forall>x. core (nodes (vm_mm st') x) = core (nodes (vm_mm st) x))"
proof -
  have wf: "mm_wf (vm_mm st)" using assms(2) by (simp add: evict_ok_def)
  have m: "marked h (vm_mm st) st1 unwind False"
    using evict_mark_marked [OF assms(1-3), of nonblock] assms(4) by auto
  then have sc: "scanning h (vm_mm st) unwind (vm_mm st1)" and z: "scan_hit_end (vm_mm st1) = 0"
    by (auto simp: marked_def)
  have "like {} (vm_mm st1) (vm_mm st1)" by (simp add: like_def)
  then obtain st' where s: "unwind_none h st1 unwind = Inr st'" "like (set unwind) (vm_mm st) (vm_mm st')"
    using unwind_none_like [OF assms(1) wf_ring [OF wf] sc, of "{}" st1] z by auto
  with like_wf [OF s(2) wf] show ?thesis by (auto simp: like_def)
qed

text \<open>
  C19: \<^verbatim>\<open>i915_gem_evict_something\<close> never runs into a \<^verbatim>\<open>BUG_ON\<close>, and when it returns 0 the allocator is
  well formed and has a free range in which the size asked for fits, aligned and inside the range
  asked for, although the nodes to evict are only chosen while the ring is taken apart.  The colour
  callback is not used, and unbinding and idling behave as their contracts say.
\<close>

theorem i915_gem_evict_something_room:
  assumes "hdr_ok h" and "unbind_ok h env" and "idle_ok env" and "evict_ok st"
    and "unat (scan_start (scan_ini st sz al lvl a e)) + unat (scast sz :: ulong) + 2 ^ 32 \<le> 2 ^ 64"
    and "unat (start (nodes (vm_mm st) head_node)) + unat (scast sz :: ulong) + 2 ^ 32 \<le> 2 ^ 64"
  shows "\<exists>ret st'. i915_gem_evict_something h env st sz al lvl a e nonblock = Inr (ret, st') \<and>
    (ret = None \<longrightarrow> mm_wf (vm_mm st') \<and> room (vm_mm st') (scan_lim (scan_ini st sz al lvl a e)) (scast sz) al)"
  by (rule evict_something_room [OF assms])

text \<open>An address space with one idle vma, and a driver whose unbinding removes the node.\<close>

definition env0 :: evict_env where
  "env0 = \<lparr>gpu_idle = (\<lambda>st. (None, st)), retire_requests = (\<lambda>st. st),
     vma_unbind = (\<lambda>st v. case drm_mm_remove_node hdr0 (vm_mm st) v of
        Inl e \<Rightarrow> (Some e, st) | Inr mm \<Rightarrow> (None, st\<lparr>vm_mm := mm\<rparr>)),
     pending_fb_unpin = (\<lambda>st. False)\<rparr>"

definition vm1 :: evict_state where
  "vm1 = \<lparr>vm_mm = mm1, vm_total = 65536, exec_list = (\<lambda>x. False), pin_count = (\<lambda>x. 0), obj_ref = (\<lambda>x. 1),
     inactive_list = [1], active_list = []\<rparr>"

lemma env0_ok: "unbind_ok hdr0 env0" "idle_ok env0"
  by (auto simp: unbind_ok_def idle_ok_def env0_def split: sum.split_asm)

lemma vm1_ok: "evict_ok vm1"
proof -
  have "Option.is_none (color_adjust mm1)" by code_simp
  then show ?thesis using mm1_wf mm1_node by (simp add: evict_ok_def vm1_def Option.is_none_def)
qed

theorem i915_gem_evict_something_room_witness:
  "\<exists>st'. i915_gem_evict_something hdr0 env0 vm1 61440 4096 0 0 65536 True = Inr (None, st') \<and>
     mm_wf (vm_mm st') \<and> room (vm_mm st') (\<lambda>r. r) 61440 4096"
proof -
  have t: "start (nodes (vm_mm vm1) head_node) = 65536" by code_simp
  have i: "scan_ini vm1 61440 4096 0 0 65536 = drm_mm_init_scan mm1 61440 4096 0"
    by (simp add: scan_ini_def vm1_def)
  have s: "scan_start (scan_ini vm1 61440 4096 0 0 65536) = 0" unfolding i by code_simp
  have l: "scan_lim (scan_ini vm1 61440 4096 0 0 65536) = (\<lambda>r. r)"
    unfolding i by (simp add: scan_lim_def drm_mm_init_scan_def)
  note w = i915_gem_evict_something_room [OF hdr0_ok env0_ok vm1_ok, where sz = 61440 and al = 4096
      and lvl = 0 and a = 0 and e = 65536 and nonblock = True, unfolded s t l]
  have "scast (61440 :: u32) = (61440 :: ulong)" by code_simp
  with w obtain ret st' where r: "i915_gem_evict_something hdr0 env0 vm1 61440 4096 0 0 65536 True = Inr (ret, st')"
    "ret = None \<longrightarrow> mm_wf (vm_mm st') \<and> room (vm_mm st') (\<lambda>r. r) 61440 4096" by auto
  moreover have "case i915_gem_evict_something hdr0 env0 vm1 61440 4096 0 0 65536 True of
      Inr (ret, st') \<Rightarrow> ret = None | _ \<Rightarrow> False" by code_simp
  ultimately show ?thesis by simp
qed

definition vm2 :: evict_state where
  "vm2 = vm1\<lparr>vm_mm := scan_ini vm1 131072 0 0 0 65536\<rparr>"

theorem i915_evict_none_restores_witness:
  "\<exists>st1 st'. evict_mark hdr0 vm2 True = Inr (st1, [1], False) \<and>
     unwind_none hdr0 st1 [1] = Inr st' \<and> mm_wf (vm_mm st') \<and> node_list (vm_mm st') = node_list (vm_mm vm2)"
proof -
  have ok: "evict_ok vm2" "scan_hit_end (vm_mm vm2) = 0"
    using scan_ini_ok(1,2) [OF vm1_ok] by (simp_all add: vm2_def)
  have "case evict_mark hdr0 vm2 True of Inr (st1, u, hit) \<Rightarrow> u = [1] \<and> \<not> hit | _ \<Rightarrow> False" by code_simp
  then obtain st1 where "evict_mark hdr0 vm2 True = Inr (st1, [1], False)"
    by (auto split: sum.split_asm)
  with i915_evict_none_restores [OF hdr0_ok ok this] show ?thesis by blast
qed

section \<open>The colour callback of the global GTT\<close>

definition i915_gtt_color_adjust :: color_fn where
  "i915_gtt_color_adjust ns r node col se =
     (let (s, e) = se;
          s = (if color (ns node) \<noteq> col then s + 4096 else s);
          nxt = (case next_of node r of Some q \<Rightarrow> q | None \<Rightarrow> hd r)
      in (s, if length r > 1 \<and> allocated (ns nxt) \<and> color (ns nxt) \<noteq> col then e - 4096 else e))"

text \<open>
  With this callback the insertion at the top of a range runs into a \<^verbatim>\<open>BUG_ON\<close>:
  \<^verbatim>\<open>drm_mm_insert_helper_range\<close> subtracts the size before it adjusts the bounds, so the start moves up
  by a page and the node no longer ends inside the hole.  The insertion at the bottom succeeds.
\<close>

lemma insert_range_top_color_BUG:
  "drm_mm_insert_node_in_range_generic hdr0 (mm0\<lparr>color_adjust := Some i915_gtt_color_adjust\<rparr>) 1 4096 0 1
     0 65536 False False True = Inl BUG"
  "\<exists>mm'. drm_mm_insert_node_in_range_generic hdr0 (mm0\<lparr>color_adjust := Some i915_gtt_color_adjust\<rparr>) 1 4096 0 1
     0 65536 False False False = Inr mm'"
proof -
  have "case drm_mm_insert_node_in_range_generic hdr0 (mm0\<lparr>color_adjust := Some i915_gtt_color_adjust\<rparr>) 1 4096 0 1
     0 65536 False False True of Inl e \<Rightarrow> e = BUG | Inr _ \<Rightarrow> False" by code_simp
  then show "drm_mm_insert_node_in_range_generic hdr0 (mm0\<lparr>color_adjust := Some i915_gtt_color_adjust\<rparr>) 1 4096 0 1
     0 65536 False False True = Inl BUG" by (auto split: sum.split_asm)
  have "case drm_mm_insert_node_in_range_generic hdr0 (mm0\<lparr>color_adjust := Some i915_gtt_color_adjust\<rparr>) 1 4096 0 1
     0 65536 False False False of Inl e \<Rightarrow> False | Inr _ \<Rightarrow> True" by code_simp
  then show "\<exists>mm'. drm_mm_insert_node_in_range_generic hdr0 (mm0\<lparr>color_adjust := Some i915_gtt_color_adjust\<rparr>) 1 4096 0 1
     0 65536 False False False = Inr mm'" by (auto split: sum.split_asm)
qed

end
