(* ===== verification/Drm_Vma_Manager.thy ===== *)
theory Drm_Vma_Manager
  imports Drm_Mm_System "HOL-Library.Tree"
begin

text \<open>
  The manager of the fake offsets user space passes to \<^verbatim>\<open>mmap\<close>, \<^verbatim>\<open>drm_vma_manager.c\<close>.  It allocates the offsets with the
  range allocator and finds them again by a search tree, and every node has a search tree of the open files that may
  map it, with a count for each.

  The sequences of operations are those that the locks \<^verbatim>\<open>vm_lock\<close> of the manager and of the node admit: every operation
  holds its lock from the beginning to the end.  A node is named by the address of its \<^verbatim>\<open>vm_node\<close>, whose fields are in
  the memory of the allocator.  The red-black trees of the kernel and the inline functions of \<^verbatim>\<open>drm_mm.h\<close> are not part of
  the sources: they are the records \<open>rb_lib\<close> and \<open>vma_hdr\<close>.
\<close>

section \<open>Data\<close>

record 'a rb_lib =
  rb_insert_color :: "'a \<Rightarrow> 'a tree \<Rightarrow> 'a tree"
  rb_erase :: "'a \<Rightarrow> 'a tree \<Rightarrow> 'a tree"

text \<open>Rebalancing keeps the order of the nodes, and erasing a node takes it out of the order.\<close>

definition rb_ok :: "'a rb_lib \<Rightarrow> bool" where
  "rb_ok rb \<longleftrightarrow> (\<forall>x t. inorder (rb_insert_color rb x t) = inorder t \<and>
     (distinct (inorder t) \<and> x \<in> set (inorder t) \<longrightarrow> inorder (rb_erase rb x t) = remove1 x (inorder t)))"

record vma_hdr =
  drm_mm_node_allocated :: "mm_node \<Rightarrow> bool"
  drm_mm_insert_node :: "drm_mm \<Rightarrow> ptr \<Rightarrow> ulong \<Rightarrow> u32 \<Rightarrow> bool \<Rightarrow> err + drm_mm"

text \<open>
  \<^verbatim>\<open>drm_mm_insert_node\<close> is the general insertion without a colour; \<open>best\<close> is its flag \<^verbatim>\<open>DRM_MM_SEARCH_BEST\<close>, which
  \<^verbatim>\<open>DRM_MM_SEARCH_DEFAULT\<close> does not have.
\<close>

definition vma_hdr_ok :: "mm_hdr \<Rightarrow> vma_hdr \<Rightarrow> bool" where
  "vma_hdr_ok h v \<longleftrightarrow> (\<forall>n. drm_mm_node_allocated v n = allocated n) \<and>
     (\<forall>mm n sz al best. drm_mm_insert_node v mm n sz al best =
        drm_mm_insert_node_generic h mm n sz al 0 best False False)"

record vma_manager =
  vm_addr_space_rb :: "ptr tree"
  vm_addr_space_mm :: drm_mm

record vma_file =
  vm_filp :: ptr
  vm_count :: ulong

section \<open>Offsets\<close>

definition drm_vma_offset_manager_init :: "ulong \<Rightarrow> ulong \<Rightarrow> vma_manager \<Rightarrow> vma_manager" where
  "drm_vma_offset_manager_init page_offset sz mgr =
     mgr\<lparr>vm_addr_space_rb := Leaf, vm_addr_space_mm := drm_mm_init page_offset sz (vm_addr_space_mm mgr)\<rparr>"

text \<open>The result says whether the allocator complains about nodes that are still there.\<close>

definition drm_vma_offset_manager_destroy :: "vma_manager \<Rightarrow> bool" where
  "drm_vma_offset_manager_destroy mgr = drm_mm_takedown (vm_addr_space_mm mgr)"

text \<open>The loop of the lookup: \<open>best\<close> is the last node passed whose offset is not behind the one looked for.\<close>

fun lookup_loop :: "(ptr \<Rightarrow> mm_node) \<Rightarrow> ulong \<Rightarrow> ptr option \<Rightarrow> ptr tree \<Rightarrow> ptr option" where
  "lookup_loop ns st best Leaf = best"
| "lookup_loop ns st best (Node l node r) =
     (let offset = start (ns node)
      in if st \<ge> offset then if st = offset then Some node else lookup_loop ns st (Some node) r
         else lookup_loop ns st best l)"

definition drm_vma_offset_lookup_locked :: "vma_manager \<Rightarrow> ulong \<Rightarrow> ulong \<Rightarrow> ptr option" where
  "drm_vma_offset_lookup_locked mgr st pages =
     (let ns = nodes (vm_addr_space_mm mgr)
      in case lookup_loop ns st None (vm_addr_space_rb mgr) of
           None \<Rightarrow> None
         | Some best \<Rightarrow>
             let offset = start (ns best) + nsize (ns best)
             in if offset < st + pages then None else Some best)"

definition drm_vma_offset_lookup :: "vma_manager \<Rightarrow> ulong \<Rightarrow> ulong \<Rightarrow> ptr option" where
  "drm_vma_offset_lookup mgr st pages = drm_vma_offset_lookup_locked mgr st pages"

text \<open>The loop that finds the place of a node in the tree, and \<^verbatim>\<open>rb_link_node\<close> there.\<close>

fun add_rb_loop :: "(ptr \<Rightarrow> mm_node) \<Rightarrow> ptr \<Rightarrow> ptr tree \<Rightarrow> err + ptr tree" where
  "add_rb_loop ns node Leaf = Inr (Node Leaf node Leaf)"
| "add_rb_loop ns node (Node l iter_node r) =
     (if start (ns node) < start (ns iter_node) then bnd (add_rb_loop ns node l) (\<lambda>l. Inr (Node l iter_node r))
      else if start (ns node) > start (ns iter_node) then bnd (add_rb_loop ns node r) (\<lambda>r. Inr (Node l iter_node r))
      else Inl BUG)"

definition drm_vma_offset_add_rb :: "ptr rb_lib \<Rightarrow> vma_manager \<Rightarrow> ptr \<Rightarrow> err + vma_manager" where
  "drm_vma_offset_add_rb rb mgr node =
     bnd (add_rb_loop (nodes (vm_addr_space_mm mgr)) node (vm_addr_space_rb mgr))
       (\<lambda>t. Inr (mgr\<lparr>vm_addr_space_rb := rb_insert_color rb node t\<rparr>))"

definition drm_vma_offset_add ::
  "vma_hdr \<Rightarrow> ptr rb_lib \<Rightarrow> vma_manager \<Rightarrow> ptr \<Rightarrow> ulong \<Rightarrow> err + vma_manager" where
  "drm_vma_offset_add v rb mgr node pages =
     (if drm_mm_node_allocated v (nodes (vm_addr_space_mm mgr) node) then Inr mgr else
      bnd (drm_mm_insert_node v (vm_addr_space_mm mgr) node pages 0 False)
        (\<lambda>mm. drm_vma_offset_add_rb rb (mgr\<lparr>vm_addr_space_mm := mm\<rparr>) node))"

text \<open>A \<^verbatim>\<open>vm_node\<close> all of whose bytes are zero.\<close>

definition zero_node :: mm_node where
  "zero_node = \<lparr>start = 0, nsize = 0, color = 0, allocated = False, hole_follows = False,
     scanned_block = False, scanned_prev_free = False, scanned_next_free = False,
     scanned_preceeds_hole = False, scan_prev = 0, scan_next = None\<rparr>"

definition drm_vma_offset_remove ::
  "mm_hdr \<Rightarrow> vma_hdr \<Rightarrow> ptr rb_lib \<Rightarrow> vma_manager \<Rightarrow> ptr \<Rightarrow> err + vma_manager" where
  "drm_vma_offset_remove h v rb mgr node =
     (if drm_mm_node_allocated v (nodes (vm_addr_space_mm mgr) node) then
        let mgr = mgr\<lparr>vm_addr_space_rb := rb_erase rb node (vm_addr_space_rb mgr)\<rparr>
        in bnd (drm_mm_remove_node h (vm_addr_space_mm mgr) node)
             (\<lambda>mm. Inr (mgr\<lparr>vm_addr_space_mm := upd_node node (\<lambda>_. zero_node) mm\<rparr>))
      else Inr mgr)"

section \<open>Open files\<close>

text \<open>
  The loop of \<^verbatim>\<open>drm_vma_node_allow\<close>.  \<open>new\<close> says whether the allocation of an entry succeeded; the second component of
  the result is true when the entry was linked into the tree.
\<close>

fun allow_loop :: "ptr \<Rightarrow> bool \<Rightarrow> vma_file tree \<Rightarrow> err + vma_file tree \<times> bool" where
  "allow_loop filp new Leaf =
     (if \<not> new then Inl ENOMEM else Inr (Node Leaf \<lparr>vm_filp = filp, vm_count = 1\<rparr> Leaf, True))"
| "allow_loop filp new (Node l entry r) =
     (if filp = vm_filp entry then Inr (Node l (entry\<lparr>vm_count := vm_count entry + 1\<rparr>) r, False)
      else if filp > vm_filp entry then bnd (allow_loop filp new r) (\<lambda>(r, b). Inr (Node l entry r, b))
      else bnd (allow_loop filp new l) (\<lambda>(l, b). Inr (Node l entry r, b)))"

definition drm_vma_node_allow :: "vma_file rb_lib \<Rightarrow> vma_file tree \<Rightarrow> ptr \<Rightarrow> bool \<Rightarrow> err + vma_file tree" where
  "drm_vma_node_allow rb vm_files filp new =
     bnd (allow_loop filp new vm_files) (\<lambda>(t, linked).
       Inr (if linked then rb_insert_color rb \<lparr>vm_filp = filp, vm_count = 1\<rparr> t else t))"

text \<open>The loop of \<^verbatim>\<open>drm_vma_node_revoke\<close>: the tree with the count lowered, and the entry to erase.\<close>

fun revoke_loop :: "ptr \<Rightarrow> vma_file tree \<Rightarrow> vma_file tree \<times> vma_file option" where
  "revoke_loop filp Leaf = (Leaf, None)"
| "revoke_loop filp (Node l entry r) =
     (if filp = vm_filp entry then
        let entry = entry\<lparr>vm_count := vm_count entry - 1\<rparr>
        in (Node l entry r, if vm_count entry = 0 then Some entry else None)
      else if filp > vm_filp entry then case revoke_loop filp r of (r, e) \<Rightarrow> (Node l entry r, e)
      else case revoke_loop filp l of (l, e) \<Rightarrow> (Node l entry r, e))"

definition drm_vma_node_revoke :: "vma_file rb_lib \<Rightarrow> vma_file tree \<Rightarrow> ptr \<Rightarrow> vma_file tree" where
  "drm_vma_node_revoke rb vm_files filp =
     (case revoke_loop filp vm_files of (t, None) \<Rightarrow> t | (t, Some entry) \<Rightarrow> rb_erase rb entry t)"

fun drm_vma_node_is_allowed :: "vma_file tree \<Rightarrow> ptr \<Rightarrow> bool" where
  "drm_vma_node_is_allowed Leaf filp = False"
| "drm_vma_node_is_allowed (Node l entry r) filp =
     (if filp = vm_filp entry then True
      else if filp > vm_filp entry then drm_vma_node_is_allowed r filp
      else drm_vma_node_is_allowed l filp)"

end
