(* ===== verification/Drm_Vma_Files.thy ===== *)
theory Drm_Vma_Files
  imports Drm_Vma_Manager
begin

text \<open>
  The search tree of the open files that may map a node implements a function from files to counts.
\<close>

section \<open>The counts\<close>

definition file_counts :: "vma_file list \<Rightarrow> ptr \<Rightarrow> nat" where
  "file_counts es f = sum_list (map (\<lambda>e. if vm_filp e = f then unat (vm_count e) else 0) es)"

lemma file_counts_simps [simp]:
  "file_counts [] f = 0"
  "file_counts (e # es) f = (if vm_filp e = f then unat (vm_count e) else 0) + file_counts es f"
  "file_counts (es @ es') f = file_counts es f + file_counts es' f"
  by (simp_all add: file_counts_def)

lemma file_counts_0: "f \<notin> vm_filp ` set es \<Longrightarrow> file_counts es f = 0"
  by (induction es) auto

lemma file_counts_pos:
  "f \<in> vm_filp ` set es \<Longrightarrow> \<forall>e \<in> set es. vm_count e \<noteq> 0 \<Longrightarrow> 0 < file_counts es f"
  by (induction es) (auto simp: unat_gt_0)

lemma file_counts_remove1_zero: "vm_count e = 0 \<Longrightarrow> file_counts (remove1 e es) = file_counts es"
  by (induction es) (auto simp: fun_eq_iff)

abbreviation keyed :: "vma_file list \<Rightarrow> bool" where
  "keyed es \<equiv> sorted_wrt (\<lambda>a b. vm_filp a < vm_filp b) es"

text \<open>Every entry has a positive count, and \<open>k\<close> more increments do not overflow one.\<close>

definition files_wf :: "nat \<Rightarrow> vma_file tree \<Rightarrow> bool" where
  "files_wf k t \<longleftrightarrow> k < 2 ^ 64 \<and> keyed (inorder t) \<and>
     (\<forall>e \<in> set (inorder t). vm_count e \<noteq> 0 \<and> unat (vm_count e) + k < 2 ^ 64)"

lemma keyed_distinct: "keyed es \<Longrightarrow> distinct es"
  by (induction es) auto

lemma keyed_remove1: "keyed es \<Longrightarrow> keyed (remove1 e es)"
  by (induction es) (auto dest: set_mp [OF set_remove1_subset])

lemma keyed_unique: "keyed es \<Longrightarrow> a \<in> set es \<Longrightarrow> b \<in> set es \<Longrightarrow> vm_filp a = vm_filp b \<Longrightarrow> a = b"
  by (induction es) auto

section \<open>The loops\<close>

text \<open>Where the entry of a file can be in a search tree.\<close>

lemma keyed_cases:
  assumes "keyed (inorder (Node l e r))" and "f \<in> vm_filp ` set (inorder (Node l e r))"
  obtains (root) "vm_filp e = f" "f \<notin> vm_filp ` set (inorder l)" "f \<notin> vm_filp ` set (inorder r)"
  | (left) "f < vm_filp e" "keyed (inorder l)" "f \<in> vm_filp ` set (inorder l)" "f \<notin> vm_filp ` set (inorder r)"
  | (right) "vm_filp e < f" "keyed (inorder r)" "f \<notin> vm_filp ` set (inorder l)" "f \<in> vm_filp ` set (inorder r)"
  using assms by (fastforce simp: sorted_wrt_append)

lemma is_allowed_absent:
  "f \<notin> vm_filp ` set (inorder t) \<Longrightarrow> \<not> drm_vma_node_is_allowed t f"
  by (induction t) (auto simp: image_Un)

lemma is_allowed_present:
  assumes "keyed (inorder t)" and "f \<in> vm_filp ` set (inorder t)"
  shows "drm_vma_node_is_allowed t f"
  using assms
proof (induction t)
  case (Node l e r)
  from Node.prems show ?case by (cases rule: keyed_cases) (use Node.IH in simp_all)
qed simp

lemma revoke_loop_absent:
  "keyed (inorder t) \<Longrightarrow> f \<notin> vm_filp ` set (inorder t) \<Longrightarrow> revoke_loop f t = (t, None)"
  by (induction t) (auto simp: sorted_wrt_append image_Un)

lemma allow_loop_no_memory:
  "keyed (inorder t) \<Longrightarrow> f \<notin> vm_filp ` set (inorder t) \<Longrightarrow> allow_loop f False t = Inl ENOMEM"
  by (induction t) (auto simp: sorted_wrt_append image_Un)

lemma allow_loop_absent:
  assumes "keyed (inorder t)" and "f \<notin> vm_filp ` set (inorder t)"
  shows "\<exists>t'. allow_loop f True t = Inr (t', True) \<and> keyed (inorder t') \<and>
    set (inorder t') = insert \<lparr>vm_filp = f, vm_count = 1\<rparr> (set (inorder t)) \<and>
    (\<forall>g. file_counts (inorder t') g = file_counts (inorder t) g + (if g = f then 1 else 0))"
  using assms
proof (induction t)
  case (Node l e r)
  then have ne: "f \<noteq> vm_filp e" by auto
  show ?case
  proof (cases "vm_filp e < f")
    case True
    from Node obtain r' where r': "allow_loop f True r = Inr (r', True)" "keyed (inorder r')"
      "set (inorder r') = insert \<lparr>vm_filp = f, vm_count = 1\<rparr> (set (inorder r))"
      "\<forall>g. file_counts (inorder r') g = file_counts (inorder r) g + (if g = f then 1 else 0)"
      by (auto simp: sorted_wrt_append image_Un)
    with Node.prems True ne show ?thesis by (intro exI [of _ "Node l e r'"]) (auto simp: sorted_wrt_append)
  next
    case False
    from Node obtain l' where l': "allow_loop f True l = Inr (l', True)" "keyed (inorder l')"
      "set (inorder l') = insert \<lparr>vm_filp = f, vm_count = 1\<rparr> (set (inorder l))"
      "\<forall>g. file_counts (inorder l') g = file_counts (inorder l) g + (if g = f then 1 else 0)"
      by (auto simp: sorted_wrt_append image_Un)
    with Node.prems False ne show ?thesis by (intro exI [of _ "Node l' e r"]) (auto simp: sorted_wrt_append)
  qed
qed auto

text \<open>A change of the count of the entry of one file.\<close>

definition recounted :: "ptr \<Rightarrow> (ulong \<Rightarrow> ulong) \<Rightarrow> vma_file list \<Rightarrow> vma_file list" where
  "recounted f c = map (\<lambda>e. if vm_filp e = f then e\<lparr>vm_count := c (vm_count e)\<rparr> else e)"

lemma recounted_simps [simp]:
  "recounted f c [] = []"
  "recounted f c (e # es) = (if vm_filp e = f then e\<lparr>vm_count := c (vm_count e)\<rparr> else e) # recounted f c es"
  "recounted f c (es @ es') = recounted f c es @ recounted f c es'"
  by (simp_all add: recounted_def)

lemma recounted_other [simp]: "f \<notin> vm_filp ` set es \<Longrightarrow> recounted f c es = es"
  by (auto simp: recounted_def intro!: map_idI)

lemma keyed_recounted: "keyed (recounted f c es) \<longleftrightarrow> keyed es"
proof -
  have "map vm_filp (recounted f c es) = map vm_filp es" by (induction es) simp_all
  then have "sorted_wrt (<) (map vm_filp (recounted f c es)) = sorted_wrt (<) (map vm_filp es)" by simp
  then show ?thesis by (simp add: sorted_wrt_map)
qed

lemma recounted_counts:
  assumes "keyed es" and "f \<in> vm_filp ` set es" and "\<forall>e \<in> set es. int (unat (c (vm_count e))) = int (unat (vm_count e)) + d"
  shows "file_counts (recounted f c es) = (file_counts es)(f := nat (int (file_counts es f) + d))"
proof -
  have "int (file_counts (recounted f c es) g) = int (file_counts es g) + (if g = f then d else 0)" for g
    using assms
  proof (induction es)
    case (Cons e es)
    then show ?case
    proof (cases "vm_filp e = f")
      case True
      then have "f \<notin> vm_filp ` set es" using Cons.prems(1) by auto
      then show ?thesis using True Cons.prems(3) by (auto simp del: uint_nat of_nat_unat)
    qed auto
  qed simp
  note e = this
  have "file_counts (recounted f c es) g = nat (int (file_counts es g) + (if g = f then d else 0))" for g
    unfolding e [of g, symmetric] by simp
  then show ?thesis by (auto simp: fun_eq_iff)
qed

lemma allow_loop_present:
  assumes "keyed (inorder t)" and "f \<in> vm_filp ` set (inorder t)"
  shows "\<exists>t'. allow_loop f new t = Inr (t', False) \<and> inorder t' = recounted f (\<lambda>c. c + 1) (inorder t)"
  using assms
proof (induction t)
  case (Node l e r)
  from Node.prems show ?case
  proof (cases rule: keyed_cases)
    case left
    with Node.IH(1) obtain l' where "allow_loop f new l = Inr (l', False)"
      "inorder l' = recounted f (\<lambda>c. c + 1) (inorder l)" by blast
    with left show ?thesis by simp
  next
    case right
    with Node.IH(2) obtain r' where "allow_loop f new r = Inr (r', False)"
      "inorder r' = recounted f (\<lambda>c. c + 1) (inorder r)" by blast
    with right show ?thesis by simp
  qed simp
qed simp

lemma revoke_loop_present:
  assumes "keyed (inorder t)" and "f \<in> vm_filp ` set (inorder t)"
  shows "\<exists>t' e. revoke_loop f t = (t', if vm_count e = 0 then Some e else None) \<and> e \<in> set (inorder t') \<and> vm_filp e = f \<and>
    inorder t' = recounted f (\<lambda>c. c - 1) (inorder t)"
  using assms
proof (induction t)
  case (Node l e r)
  from Node.prems show ?case
  proof (cases rule: keyed_cases)
    case root
    then show ?thesis by (intro exI [of _ "Node l (e\<lparr>vm_count := vm_count e - 1\<rparr>) r"] exI [of _ "e\<lparr>vm_count := vm_count e - 1\<rparr>"])
        (simp add: Let_def)
  next
    case left
    with Node.IH(1) obtain l' d where "revoke_loop f l = (l', if vm_count d = 0 then Some d else None)"
      "d \<in> set (inorder l')" "vm_filp d = f" "inorder l' = recounted f (\<lambda>c. c - 1) (inorder l)" by blast
    with left show ?thesis by (intro exI [of _ "Node l' e r"] exI [of _ d]) simp
  next
    case right
    with Node.IH(2) obtain r' d where "revoke_loop f r = (r', if vm_count d = 0 then Some d else None)"
      "d \<in> set (inorder r')" "vm_filp d = f" "inorder r' = recounted f (\<lambda>c. c - 1) (inorder r)" by blast
    with right show ?thesis by (intro exI [of _ "Node l e r'"] exI [of _ d]) simp
  qed
qed simp

section \<open>The operations\<close>

definition vma_users :: "vma_file tree \<Rightarrow> ptr \<Rightarrow> nat" where
  "vma_users t = file_counts (inorder t)"

lemma unat_succ_pred:
  fixes c :: ulong
  shows "unat c + Suc k < 2 ^ 64 \<Longrightarrow> unat (c + 1) = unat c + 1" and "c \<noteq> 0 \<Longrightarrow> unat (c - 1) = unat c - 1"
  by (simp_all add: unat_word_ariths unat_minus_one)

lemma allow_correct:
  assumes rb: "rb_ok rb" and wf: "files_wf (Suc k) t"
  shows "if vma_users t f = 0 \<and> \<not> new then drm_vma_node_allow rb t f new = Inl ENOMEM
    else \<exists>t'. drm_vma_node_allow rb t f new = Inr t' \<and> files_wf k t' \<and>
      vma_users t' = (vma_users t)(f := vma_users t f + 1)"
proof (cases "f \<in> vm_filp ` set (inorder t)")
  case True
  note w = wf [unfolded files_wf_def]
  obtain t' where t': "allow_loop f new t = Inr (t', False)" "inorder t' = recounted f (\<lambda>c. c + 1) (inorder t)"
    using allow_loop_present [of t f new] w True by blast
  have "vma_users t' = (vma_users t)(f := nat (int (vma_users t f) + 1))"
    unfolding t'(2) vma_users_def
    using w True by (intro recounted_counts) (auto simp: unat_succ_pred(1) [where k = k] simp del: of_nat_unat)
  then have "vma_users t' = (vma_users t)(f := vma_users t f + 1)" by (simp add: nat_add_distrib)
  moreover have "files_wf k t'"
    using w unfolding files_wf_def t'(2) keyed_recounted by (auto simp: recounted_def unat_succ_pred(1) [where k = k] unat_eq_0 [symmetric])
  moreover have "0 < vma_users t f" unfolding vma_users_def using file_counts_pos w True by blast
  ultimately show ?thesis using t' by (simp add: drm_vma_node_allow_def)
next
  case False
  then have z: "vma_users t f = 0" unfolding vma_users_def by (rule file_counts_0)
  note w = wf [unfolded files_wf_def]
  show ?thesis
  proof (cases new)
    case True
    obtain t' where t': "allow_loop f True t = Inr (t', True)" "keyed (inorder t')"
      "set (inorder t') = insert \<lparr>vm_filp = f, vm_count = 1\<rparr> (set (inorder t))"
      "\<forall>g. file_counts (inorder t') g = file_counts (inorder t) g + (if g = f then 1 else 0)"
      using allow_loop_absent [of t f] w False by blast
    let ?t = "rb_insert_color rb \<lparr>vm_filp = f, vm_count = 1\<rparr> t'"
    have i: "inorder ?t = inorder t'" using rb by (simp add: rb_ok_def)
    have "files_wf k ?t" unfolding files_wf_def i using w t'(2,3) by auto
    moreover have "vma_users ?t = (vma_users t)(f := vma_users t f + 1)"
      using t'(4) by (auto simp: vma_users_def i)
    ultimately show ?thesis using t' True by (simp add: drm_vma_node_allow_def)
  next
    case new: False
    then show ?thesis using allow_loop_no_memory [of t f] w False z by (simp add: drm_vma_node_allow_def)
  qed
qed

lemma revoke_wf:
  assumes wf: "files_wf (Suc k) t" and e: "e \<in> set (inorder t')" "vm_filp e = f"
    and t': "inorder t' = recounted f (\<lambda>c. c - 1) (inorder t)"
    and i: "inorder u = (if vm_count e = 0 then remove1 e (inorder t') else inorder t')"
  shows "files_wf k u"
proof -
  note w = wf [unfolded files_wf_def]
  have k: "keyed (inorder t')" using w unfolding t' keyed_recounted by blast
  have n: "vm_count x \<noteq> 0 \<and> unat (vm_count x) + k < 2 ^ 64" if x: "x \<in> set (inorder u)" for x
  proof -
    have xt: "x \<in> set (inorder t')" using x set_remove1_subset [of e "inorder t'"] unfolding i by (auto split: if_splits)
    have b: "unat (vm_count x) + k < 2 ^ 64"
      using xt w unfolding t' by (auto simp: recounted_def unat_succ_pred(2))
    show ?thesis
    proof (cases "x = e")
      case True
      with x b show ?thesis unfolding i using keyed_distinct [OF k] by (auto split: if_splits)
    next
      case False
      then have "vm_filp x \<noteq> f" using keyed_unique [OF k xt e(1)] e(2) by auto
      then have "x \<in> set (inorder t)" using xt unfolding t' by (auto simp: recounted_def split: if_splits)
      with w b show ?thesis by auto
    qed
  qed
  have "keyed (inorder u)" unfolding i using k keyed_remove1 by simp
  with n w show ?thesis by (simp add: files_wf_def)
qed

lemma revoke_correct:
  assumes rb: "rb_ok rb" and wf: "files_wf (Suc k) t"
  shows "files_wf k (drm_vma_node_revoke rb t f) \<and>
    vma_users (drm_vma_node_revoke rb t f) = (vma_users t)(f := vma_users t f - 1)"
proof (cases "f \<in> vm_filp ` set (inorder t)")
  case True
  note w = wf [unfolded files_wf_def]
  obtain t' e where t': "revoke_loop f t = (t', if vm_count e = 0 then Some e else None)" "e \<in> set (inorder t')"
    "vm_filp e = f" "inorder t' = recounted f (\<lambda>c. c - 1) (inorder t)"
    using revoke_loop_present [of t f] w True by blast
  let ?t = "drm_vma_node_revoke rb t f"
  have k: "keyed (inorder t')" using w unfolding t'(4) keyed_recounted by blast
  have i: "inorder ?t = (if vm_count e = 0 then remove1 e (inorder t') else inorder t')"
    using rb t'(1,2) keyed_distinct [OF k] by (simp add: drm_vma_node_revoke_def rb_ok_def)
  have "vma_users t' = (vma_users t)(f := nat (int (vma_users t f) + - 1))"
    unfolding t'(4) vma_users_def using w True
    by (intro recounted_counts) (auto simp: unat_succ_pred(2) unat_gt_0 Suc_le_eq simp del: of_nat_unat)
  moreover have "vma_users ?t = vma_users t'" unfolding vma_users_def i using file_counts_remove1_zero by simp
  ultimately have "vma_users ?t = (vma_users t)(f := vma_users t f - 1)"
    using nat_diff_distrib [of 1 "int (vma_users t f)"] by (cases "vma_users t f") simp_all
  moreover have "files_wf k ?t" using revoke_wf [OF wf t'(2,3,4) i] .
  ultimately show ?thesis by simp
next
  case False
  then have "vma_users t f = 0" unfolding vma_users_def by (rule file_counts_0)
  moreover have "drm_vma_node_revoke rb t f = t"
    using revoke_loop_absent [of t f] wf False by (simp add: drm_vma_node_revoke_def files_wf_def)
  ultimately show ?thesis using wf by (auto simp: files_wf_def)
qed

lemma is_allowed_correct:
  assumes "files_wf k t"
  shows "drm_vma_node_is_allowed t f \<longleftrightarrow> 0 < vma_users t f"
proof (cases "f \<in> vm_filp ` set (inorder t)")
  case True
  then show ?thesis
    using assms is_allowed_present [of t f] file_counts_pos [OF True] by (auto simp: files_wf_def vma_users_def)
next
  case False
  then show ?thesis using is_allowed_absent [OF False] file_counts_0 [OF False] by (simp add: vma_users_def)
qed

section \<open>Sequences of operations\<close>

text \<open>
  What a client can do with the files of a node.  In \<open>Allow f new\<close> the flag says whether there is memory for an entry.
\<close>

datatype files_op = Allow ptr bool | Revoke ptr | Is_allowed ptr

datatype files_out = Ret "err option" | Answer bool

fun files_exec :: "vma_file rb_lib \<Rightarrow> files_op \<Rightarrow> vma_file tree \<Rightarrow> err + files_out \<times> vma_file tree" where
  "files_exec rb (Allow f new) t =
     (case drm_vma_node_allow rb t f new of Inl e \<Rightarrow> Inr (Ret (Some e), t) | Inr t' \<Rightarrow> Inr (Ret None, t'))"
| "files_exec rb (Revoke f) t = Inr (Ret None, drm_vma_node_revoke rb t f)"
| "files_exec rb (Is_allowed f) t = Inr (Answer (drm_vma_node_is_allowed t f), t)"

text \<open>The specification: a reference count for every file.\<close>

fun files_spec :: "files_op \<Rightarrow> (ptr \<Rightarrow> nat) \<Rightarrow> files_out \<Rightarrow> (ptr \<Rightarrow> nat) \<Rightarrow> bool" where
  "files_spec (Allow f new) a out a' \<longleftrightarrow>
     (if a f = 0 \<and> \<not> new then out = Ret (Some ENOMEM) \<and> a' = a else out = Ret None \<and> a' = a(f := a f + 1))"
| "files_spec (Revoke f) a out a' \<longleftrightarrow> out = Ret None \<and> a' = a(f := a f - 1)"
| "files_spec (Is_allowed f) a out a' \<longleftrightarrow> out = Answer (0 < a f) \<and> a' = a"

definition files_inv :: "vma_file rb_lib \<Rightarrow> nat \<Rightarrow> vma_file tree \<Rightarrow> bool" where
  "files_inv rb k t \<longleftrightarrow> rb_ok rb \<and> files_wf k t"

lemma files_wf_Suc: "files_wf (Suc k) t \<Longrightarrow> files_wf k t"
  by (auto simp: files_wf_def)

interpretation vma_files: refinement "files_inv rb" vma_users "\<lambda>_. True" "files_exec rb" files_spec for rb
proof
  fix k t x
  assume "files_inv rb (Suc k) t"
  then have i: "rb_ok rb" "files_wf (Suc k) t" by (simp_all add: files_inv_def)
  show "\<exists>out t'. files_exec rb x t = Inr (out, t') \<and> files_inv rb k t' \<and> files_spec x (vma_users t) out (vma_users t')"
  proof (cases x)
    case (Allow f new)
    then show ?thesis
      using i allow_correct [OF i, of f new] files_wf_Suc [OF i(2)] by (auto simp: files_inv_def split: if_splits)
  next
    case (Revoke f)
    then show ?thesis using i revoke_correct [OF i, of f] by (simp add: files_inv_def)
  next
    case (Is_allowed f)
    then show ?thesis using i is_allowed_correct [OF i(2), of f] files_wf_Suc by (simp add: files_inv_def)
  qed
qed

text \<open>
  C34: the search tree of the open files of a node implements a reference count for every file.  Whatever sequence of
  \<^verbatim>\<open>drm_vma_node_allow\<close>, \<^verbatim>\<open>drm_vma_node_revoke\<close> and \<^verbatim>\<open>drm_vma_node_is_allowed\<close> runs on a node without files, shorter than
  the range of the counter, each call returns what the counts say: a grant raises the count or fails for want of memory
  when the file has none, a revocation lowers a positive count, and a file is allowed exactly while its count is positive.
\<close>

theorem drm_vma_node_files_refine_counts:
  assumes "rb_ok rb" and "length ops < 2 ^ 64"
  shows "\<exists>outs t. run_ops (files_exec rb) ops Leaf = Inr (outs, t) \<and>
    spec_run files_spec ops (\<lambda>_. 0) outs (vma_users t)"
proof -
  have "files_inv rb (length ops) Leaf" using assms by (simp add: files_inv_def files_wf_def)
  moreover have "vma_users Leaf = (\<lambda>_. 0)" by (simp add: vma_users_def fun_eq_iff)
  ultimately show ?thesis using vma_files.run_refines [of rb ops Leaf] by (auto simp: list_all_iff)
qed

text \<open>Trees that are not balanced keep the contract too.\<close>

definition rb0 :: "'a rb_lib" where
  "rb0 = \<lparr>rb_insert_color = (\<lambda>x t. t),
     rb_erase = (\<lambda>x t. foldr (\<lambda>y u. Node Leaf y u) (remove1 x (inorder t)) Leaf)\<rparr>"

lemma rb0_ok: "rb_ok rb0"
proof -
  have "inorder (foldr (\<lambda>y u. Node Leaf y u) xs Leaf) = xs" for xs :: "'a list"
    by (induction xs) simp_all
  then show ?thesis by (simp add: rb_ok_def rb0_def)
qed

theorem drm_vma_node_files_refine_counts_witness:
  "run_ops (files_exec rb0) [Allow 3 True, Allow 2 False, Allow 3 False, Revoke 3, Is_allowed 3, Is_allowed 2] Leaf =
     Inr ([Ret None, Ret (Some ENOMEM), Ret None, Ret None, Answer True, Answer False],
       Node Leaf \<lparr>vm_filp = 3, vm_count = 1\<rparr> Leaf) \<and>
   spec_run files_spec [Allow 3 True, Allow 2 False, Allow 3 False, Revoke 3, Is_allowed 3, Is_allowed 2] (\<lambda>_. 0)
     [Ret None, Ret (Some ENOMEM), Ret None, Ret None, Answer True, Answer False]
     (vma_users (Node Leaf \<lparr>vm_filp = 3, vm_count = 1\<rparr> Leaf))"
proof -
  have "run_ops (files_exec rb0) [Allow 3 True, Allow 2 False, Allow 3 False, Revoke 3, Is_allowed 3, Is_allowed 2] Leaf =
     Inr ([Ret None, Ret (Some ENOMEM), Ret None, Ret None, Answer True, Answer False],
       Node Leaf \<lparr>vm_filp = 3, vm_count = 1\<rparr> Leaf)" by code_simp
  with drm_vma_node_files_refine_counts [OF rb0_ok,
      of "[Allow 3 True, Allow 2 False, Allow 3 False, Revoke 3, Is_allowed 3, Is_allowed 2]"]
  show ?thesis by (simp del: run_ops.simps spec_run.simps)
qed

end
