(* ===== verification/Drm_Vma_Offsets.thy ===== *)
theory Drm_Vma_Offsets
  imports Drm_Vma_Files
begin

text \<open>
  The offset manager implements a set of disjoint areas: it finds an area by any page of it, and it finds room for a new
  one whenever there is some.
\<close>

section \<open>Search\<close>

abbreviation by_start :: "(ptr \<Rightarrow> mm_node) \<Rightarrow> ptr list \<Rightarrow> bool" where
  "by_start ns xs \<equiv> sorted_wrt (\<lambda>a b. start (ns a) < start (ns b)) xs"

lemma by_start_distinct: "by_start ns xs \<Longrightarrow> distinct xs"
  by (induction xs) auto

lemma by_start_remove1:
  assumes "by_start ns xs" and "\<forall>x \<in> set xs. x \<noteq> n \<longrightarrow> start (ns' x) = start (ns x)"
  shows "by_start ns' (remove1 n xs)"
proof -
  have r: "remove1 n xs = filter (\<lambda>x. x \<noteq> n) xs"
    using distinct_remove1_removeAll [OF by_start_distinct [OF assms(1)], of n]
    by (simp add: removeAll_filter_not_eq eq_commute)
  have "by_start ns (filter (\<lambda>x. x \<noteq> n) xs)" using assms(1) by (rule sorted_wrt_filter)
  then show ?thesis unfolding r by (rule sorted_wrt_mono_rel [rotated]) (use assms(2) in simp)
qed

lemma lookup_loop_none: "\<forall>x \<in> set (inorder t). st < start (ns x) \<Longrightarrow> lookup_loop ns st best t = best"
  by (induction t arbitrary: best) (auto simp: Let_def)

lemma lookup_loop_some:
  assumes "by_start ns (inorder t)" and "m \<in> set (inorder t)" and "start (ns m) \<le> st"
  shows "\<exists>n \<in> set (inorder t). lookup_loop ns st best t = Some n \<and> start (ns n) \<le> st \<and> start (ns m) \<le> start (ns n)"
  using assms
proof (induction t arbitrary: best m)
  case (Node l x r)
  have s: "by_start ns (inorder l)" "by_start ns (inorder r)"
    "\<forall>y \<in> set (inorder l). start (ns y) < start (ns x)" "\<forall>y \<in> set (inorder r). start (ns x) < start (ns y)"
    using Node.prems(1) by (auto simp: sorted_wrt_append)
  show ?case
  proof (cases "start (ns x) < st")
    case True
    show ?thesis
    proof (cases "\<exists>y \<in> set (inorder r). start (ns y) \<le> st \<and> start (ns m) \<le> start (ns y)")
      case r: True
      then obtain y where "y \<in> set (inorder r)" "start (ns y) \<le> st" "start (ns m) \<le> start (ns y)" by blast
      with Node.IH(2) [OF s(2), of y "Some x"] True show ?thesis by (fastforce simp: Let_def)
    next
      case False
      have m: "start (ns m) \<le> start (ns x)" using Node.prems(2,3) s(3) False by auto
      with False s(4) have "\<forall>y \<in> set (inorder r). st < start (ns y)" by (meson less_imp_le not_less order_trans)
      with True m lookup_loop_none [of r st ns "Some x"] show ?thesis by (auto simp: Let_def)
    qed
  next
    case False
    then show ?thesis
      using Node.IH(1) [OF s(1), of m best] Node.prems(2,3) s(4) by (fastforce simp: Let_def)
  qed
qed simp

lemma add_rb_loop_correct:
  assumes "by_start ns (inorder t)" and "\<forall>x \<in> set (inorder t). start (ns x) \<noteq> start (ns n)"
  shows "\<exists>t'. add_rb_loop ns n t = Inr t' \<and> by_start ns (inorder t') \<and> set (inorder t') = insert n (set (inorder t))"
  using assms
proof (induction t)
  case (Node l x r)
  have ne: "start (ns x) \<noteq> start (ns n)" using Node.prems(2) by simp
  show ?case
  proof (cases "start (ns n) < start (ns x)")
    case True
    from Node obtain l' where "add_rb_loop ns n l = Inr l'" "by_start ns (inorder l')"
      "set (inorder l') = insert n (set (inorder l))" by (auto simp: sorted_wrt_append)
    with Node.prems True show ?thesis by (intro exI [of _ "Node l' x r"]) (auto simp: sorted_wrt_append)
  next
    case False
    from Node obtain r' where "add_rb_loop ns n r = Inr r'" "by_start ns (inorder r')"
      "set (inorder r') = insert n (set (inorder r))" by (auto simp: sorted_wrt_append)
    with Node.prems False ne show ?thesis by (intro exI [of _ "Node l x r'"]) (auto simp: sorted_wrt_append)
  qed
qed simp

section \<open>The invariant\<close>

definition vma_wf :: "mm_hdr \<Rightarrow> ulong \<Rightarrow> ulong \<Rightarrow> vma_manager \<Rightarrow> bool" where
  "vma_wf h st sz mgr \<longleftrightarrow> mm_inv h st sz (vm_addr_space_mm mgr) \<and> color_adjust (vm_addr_space_mm mgr) = None \<and>
     by_start (nodes (vm_addr_space_mm mgr)) (inorder (vm_addr_space_rb mgr)) \<and>
     set (inorder (vm_addr_space_rb mgr)) = set (node_list (vm_addr_space_mm mgr)) \<and>
     (\<forall>n. n \<notin> set (ring (vm_addr_space_mm mgr)) \<longrightarrow> fresh (vm_addr_space_mm mgr) n)"

lemma vma_wfD:
  assumes "vma_wf h st sz mgr"
  shows "hdr_ok h" and "mm_wf (vm_addr_space_mm mgr)" and "start (nodes (vm_addr_space_mm mgr) head_node) = st + sz"
    and "node_end (nodes (vm_addr_space_mm mgr)) head_node = st" and "color_adjust (vm_addr_space_mm mgr) = None"
    and "by_start (nodes (vm_addr_space_mm mgr)) (inorder (vm_addr_space_rb mgr))"
    and "set (inorder (vm_addr_space_rb mgr)) = set (node_list (vm_addr_space_mm mgr))"
    and "n \<notin> set (ring (vm_addr_space_mm mgr)) \<Longrightarrow> fresh (vm_addr_space_mm mgr) n"
  using assms by (auto simp: vma_wf_def mm_inv_def)

lemma node_allocated_iff:
  assumes "vma_wf h st sz mgr" and "n \<noteq> head_node"
  shows "allocated (nodes (vm_addr_space_mm mgr) n) \<longleftrightarrow> n \<in> set (node_list (vm_addr_space_mm mgr))"
  using mm_wfD(3) [OF vma_wfD(2) [OF assms(1)], of n] vma_wfD(8) [OF assms(1), of n] assms(2)
  by (auto simp: ring_def node_ok_def fresh_def)

text \<open>The areas: the first page and the number of pages of every node that is added.\<close>

definition vma_areas :: "vma_manager \<Rightarrow> ptr \<Rightarrow> (nat \<times> nat) option" where
  "vma_areas mgr n = (let mm = vm_addr_space_mm mgr in
     if n \<in> set (node_list mm) then Some (unat (start (nodes mm n)), unat (nsize (nodes mm n))) else None)"

lemma unat_ulong: "unat (x :: ulong) < 2 ^ 64"
  by (rule order_less_le_trans [OF unsigned_less]) simp

lemma unat_node_end:
  assumes "mm_wf mm" and "n \<in> set (node_list mm)"
  shows "unat (node_end (nodes mm) n) = unat (start (nodes mm n)) + unat (nsize (nodes mm n))"
    and "0 < unat (nsize (nodes mm n))"
proof -
  have l: "start (nodes mm n) < start (nodes mm n) + nsize (nodes mm n)"
    using mm_wfD(3) [OF assms] by (simp add: node_ok_def)
  then show "unat (node_end (nodes mm) n) = unat (start (nodes mm n)) + unat (nsize (nodes mm n))"
    unfolding node_end_def by (metis less_imp_le unat_plus_simple)
  show "0 < unat (nsize (nodes mm n))" using l by (auto simp: unat_gt_0)
qed

section \<open>The operations\<close>

lemma lookup_correct:
  assumes wf: "vma_wf h st sz mgr" and p: "pages \<noteq> 0" and w: "unat s + unat pages < 2 ^ 64"
  shows "drm_vma_offset_lookup mgr s pages = Some n \<longleftrightarrow>
    (\<exists>a len. vma_areas mgr n = Some (a, len) \<and> a \<le> unat s \<and> unat s + unat pages \<le> a + len)" (is "?l \<longleftrightarrow> ?r")
proof -
  let ?mm = "vm_addr_space_mm mgr"
  let ?ns = "nodes ?mm"
  note v = vma_wfD [OF wf]
  have sp: "unat (s + pages) = unat s + unat pages" using w by (simp add: unat_word_ariths)
  note e = unat_node_end [OF v(2)]
  show ?thesis
  proof
    assume l: ?l
    then have l': "lookup_loop ?ns s None (vm_addr_space_rb mgr) = Some n" "\<not> node_end ?ns n < s + pages"
      by (auto simp: drm_vma_offset_lookup_def drm_vma_offset_lookup_locked_def Let_def node_end_def
          split: option.splits if_splits)
    then obtain m where "m \<in> set (inorder (vm_addr_space_rb mgr))" "start (?ns m) \<le> s"
      using lookup_loop_none [of "vm_addr_space_rb mgr" s ?ns None] by fastforce
    from lookup_loop_some [OF v(6) this, of None] l' have n: "n \<in> set (node_list ?mm)" "start (?ns n) \<le> s"
      using v(7) by auto
    then show ?r using l'(2) e [OF n(1)] sp by (auto simp: vma_areas_def Let_def word_le_nat_alt word_less_nat_alt)
  next
    assume ?r
    then have n: "n \<in> set (node_list ?mm)" "start (?ns n) \<le> s" "s + pages \<le> node_end ?ns n"
      using e(1) [of n] sp by (auto simp: vma_areas_def Let_def word_le_nat_alt split: if_splits)
    obtain m where m: "m \<in> set (node_list ?mm)" "lookup_loop ?ns s None (vm_addr_space_rb mgr) = Some m"
      "start (?ns m) \<le> s" "start (?ns n) \<le> start (?ns m)"
      using lookup_loop_some [OF v(6), of n s None] n v(7) by auto
    have "m = n"
    proof (rule ccontr)
      assume "m \<noteq> n"
      then have "node_end ?ns n \<le> start (?ns m) \<or> node_end ?ns m \<le> start (?ns n)"
        using nodes_disjoint [OF v(2) n(1) m(1)] by auto
      moreover have "0 < unat pages" using p by (simp add: unat_gt_0)
      ultimately show False
        using n(2,3) m(3,4) e [OF n(1)] e [OF m(1)] sp unfolding word_le_nat_alt by linarith
    qed
    with m n show ?l
      by (simp add: drm_vma_offset_lookup_def drm_vma_offset_lookup_locked_def Let_def node_end_def [symmetric] not_less)
  qed
qed

definition area_free :: "nat \<Rightarrow> nat \<Rightarrow> (ptr \<Rightarrow> (nat \<times> nat) option) \<Rightarrow> nat \<Rightarrow> nat \<Rightarrow> bool" where
  "area_free lo hi areas s len \<longleftrightarrow> lo \<le> s \<and> s + len \<le> hi \<and>
     (\<forall>n a l. areas n = Some (a, l) \<longrightarrow> s + len \<le> a \<or> a + l \<le> s)"

lemma area_free_range_free:
  assumes wf: "vma_wf h st sz mgr" and b: "unat a + len \<le> unat (st + sz)" "unat b = unat a + len"
  shows "area_free (unat st) (unat (st + sz)) (vma_areas mgr) (unat a) len \<longleftrightarrow> range_free (vm_addr_space_mm mgr) a b"
  using vma_wfD(3,4) [OF wf] unat_node_end(1) [OF vma_wfD(2) [OF wf]] b
  by (auto simp: area_free_def range_free_def vma_areas_def Let_def word_le_nat_alt)

lemma room_iff:
  assumes wf: "vma_wf h st sz mgr" and p: "pages \<noteq> 0"
  shows "(\<exists>p \<in> set (hole_stack (vm_addr_space_mm mgr)). fits (vm_addr_space_mm mgr) (\<lambda>r. r) pages 0 0 p) \<longleftrightarrow>
    (\<exists>s. area_free (unat st) (unat (st + sz)) (vma_areas mgr) s (unat pages))" (is "?l \<longleftrightarrow> ?r")
proof
  let ?mm = "vm_addr_space_mm mgr"
  note v = vma_wfD [OF wf]
  {
    assume ?l
    then obtain p where p': "p \<in> set (hole_stack ?mm)" "unat (fst (hole_of ?mm p)) + unat pages \<le> unat (snd (hole_of ?mm p))"
      using v(5) by (auto simp: fits_def adjust_def align_up_def split: prod.splits)
    let ?a = "fst (hole_of ?mm p)"
    have u: "unat (?a + pages) = unat ?a + unat pages"
      using p'(2) unat_ulong [of "snd (hole_of ?mm p)"] by (simp add: unat_word_ariths)
    have "?a < ?a + pages" "?a + pages \<le> snd (hole_of ?mm p)"
      using p'(2) u p by (simp_all add: word_less_nat_alt word_le_nat_alt unat_gt_0)
    then have "range_free ?mm ?a (?a + pages)" using range_free_iff [OF v(2)] p'(1) by blast
    moreover have "unat ?a + unat pages \<le> unat (st + sz)"
      using p'(2) hole_bounds(2) [OF v(2) p'(1)] v(3) by (simp add: word_le_nat_alt)
    ultimately show ?r using area_free_range_free [OF wf _ u] by blast
  next
    assume ?r
    then obtain s where s: "area_free (unat st) (unat (st + sz)) (vma_areas mgr) s (unat pages)" ..
    then have b: "s + unat pages \<le> unat (st + sz)" by (simp add: area_free_def)
    then have s': "s < 2 ^ 64" "s + unat pages < 2 ^ 64" using unat_ulong [of "st + sz"] by (simp_all)
    define a :: ulong where "a = of_nat s"
    have a: "unat a = s" using s' by (simp add: a_def unat_of_nat_small)
    have ab: "unat (a + pages) = unat a + unat pages" using s' by (simp add: unat_word_ariths a)
    have "a < a + pages" using ab p by (simp add: word_less_nat_alt unat_gt_0)
    moreover have "range_free ?mm a (a + pages)" using area_free_range_free [OF wf _ ab] s b a by simp
    ultimately obtain p where p': "p \<in> set (hole_stack ?mm)" "fst (hole_of ?mm p) \<le> a" "a + pages \<le> snd (hole_of ?mm p)"
      using range_free_iff [OF v(2)] by blast
    then have "fits ?mm (\<lambda>r. r) pages 0 0 p"
      using v(5) ab by (auto simp: fits_def adjust_def align_up_def word_le_nat_alt split: prod.splits)
    with p'(1) show ?l ..
  }
qed

lemma allocated_at_lists:
  assumes "allocated_at mm n sz al mm'"
  shows "set (node_list mm') = insert n (set (node_list mm))" and "set (ring mm') = insert n (set (ring mm))"
proof -
  have "n \<in> set (node_list mm')" "remove1 n (node_list mm') = node_list mm" "distinct (node_list mm')"
    using assms mm_wfD(1) [of mm'] by (simp_all add: allocated_at_def ring_def)
  then show "set (node_list mm') = insert n (set (node_list mm))" by (metis insert_Diff set_remove1_eq)
  then show "set (ring mm') = insert n (set (ring mm))" by (auto simp: ring_def)
qed

lemma allocated_at_by_start:
  assumes wf: "vma_wf h st sz mgr" and n: "n \<notin> set (ring (vm_addr_space_mm mgr))"
    and al: "allocated_at (vm_addr_space_mm mgr) n pages a mm'"
  shows "by_start (nodes mm') (inorder (vm_addr_space_rb mgr))"
    and "\<forall>x \<in> set (inorder (vm_addr_space_rb mgr)). start (nodes mm' x) \<noteq> start (nodes mm' n)"
proof -
  note w = vma_wfD [OF wf]
  have s: "start (nodes mm' x) = start (nodes (vm_addr_space_mm mgr) x)" if "x \<in> set (node_list (vm_addr_space_mm mgr))" for x
    using al that by (simp add: allocated_at_def ring_def)
  show "by_start (nodes mm') (inorder (vm_addr_space_rb mgr))"
    using w(6) s unfolding w(7) [symmetric] by (auto intro: sorted_wrt_mono_rel [rotated])
  have wf': "mm_wf mm'" using al by (simp add: allocated_at_def)
  show "\<forall>x \<in> set (inorder (vm_addr_space_rb mgr)). start (nodes mm' x) \<noteq> start (nodes mm' n)"
  proof
    fix x
    assume "x \<in> set (inorder (vm_addr_space_rb mgr))"
    then have x: "x \<in> set (node_list mm')" "x \<noteq> n" "n \<in> set (node_list mm')"
      using n unfolding w(7) by (auto simp: allocated_at_lists(1) [OF al] ring_def)
    from nodes_disjoint [OF wf' x(1,3,2)] show "start (nodes mm' x) \<noteq> start (nodes mm' n)"
      using unat_node_end [OF wf' x(1)] unat_node_end [OF wf' x(3)] by (auto simp: word_le_nat_alt)
  qed
qed

lemma allocated_at_area:
  assumes wf: "vma_wf h st sz mgr" and n: "n \<notin> set (ring (vm_addr_space_mm mgr))"
    and al: "allocated_at (vm_addr_space_mm mgr) n pages a mm'"
  shows "area_free (unat st) (unat (st + sz)) (vma_areas mgr) (unat (start (nodes mm' n))) (unat pages)"
    and "vma_areas (mgr\<lparr>vm_addr_space_rb := t, vm_addr_space_mm := mm'\<rparr>) =
      (vma_areas mgr)(n \<mapsto> (unat (start (nodes mm' n)), unat pages))"
proof -
  note w = vma_wfD [OF wf]
  have wf': "mm_wf mm'" and nl: "n \<in> set (node_list mm')" and sz: "nsize (nodes mm' n) = pages"
    using al by (simp_all add: allocated_at_def)
  have s: "start (nodes mm' x) = start (nodes (vm_addr_space_mm mgr) x)" "nsize (nodes mm' x) = nsize (nodes (vm_addr_space_mm mgr) x)"
    "x \<noteq> n" "x \<in> set (node_list mm')"
    if "x \<in> set (node_list (vm_addr_space_mm mgr))" for x
    using al n that by (auto simp: allocated_at_lists(1) [OF al] allocated_at_def ring_def)
  show "vma_areas (mgr\<lparr>vm_addr_space_rb := t, vm_addr_space_mm := mm'\<rparr>) =
      (vma_areas mgr)(n \<mapsto> (unat (start (nodes mm' n)), unat pages))"
    using s sz by (auto simp: vma_areas_def fun_eq_iff allocated_at_lists(1) [OF al] Let_def)
  have i: "mm_inv h st sz mm'" using allocated_at_inv [OF _ al] wf by (simp add: vma_wf_def)
  have "unat (start (nodes mm' n)) + unat pages \<le> l \<or> l + m \<le> unat (start (nodes mm' n))"
    if "vma_areas mgr x = Some (l, m)" for x l m
  proof -
    have x: "x \<in> set (node_list (vm_addr_space_mm mgr))" "l = unat (start (nodes mm' x))" "m = unat (nsize (nodes mm' x))"
      using that s by (auto simp: vma_areas_def Let_def split: if_splits)
    show ?thesis
      using nodes_disjoint [OF wf' nl s(4) [OF x(1)]] s(3) [OF x(1)] unat_node_end(1) [OF wf' nl]
        unat_node_end(1) [OF wf' s(4) [OF x(1)]] x(2,3) sz by (auto simp: word_le_nat_alt)
  qed
  then show "area_free (unat st) (unat (st + sz)) (vma_areas mgr) (unat (start (nodes mm' n))) (unat pages)"
    using node_bounds [OF wf' nl] i unat_node_end(1) [OF wf' nl] sz
    by (auto simp: area_free_def mm_inv_def word_le_nat_alt)
qed

lemma add_rb_correct:
  assumes wf: "vma_wf h st sz mgr" and rb: "rb_ok rb" and n: "fresh (vm_addr_space_mm mgr) n"
    and al: "allocated_at (vm_addr_space_mm mgr) n pages a mm'"
  shows "\<exists>t. drm_vma_offset_add_rb rb (mgr\<lparr>vm_addr_space_mm := mm'\<rparr>) n =
      Inr (mgr\<lparr>vm_addr_space_rb := t, vm_addr_space_mm := mm'\<rparr>) \<and>
    vma_wf h st sz (mgr\<lparr>vm_addr_space_rb := t, vm_addr_space_mm := mm'\<rparr>)"
proof -
  note w = vma_wfD [OF wf]
  have nr: "n \<notin> set (ring (vm_addr_space_mm mgr))" using n by (simp add: fresh_def)
  obtain t where t: "add_rb_loop (nodes mm') n (vm_addr_space_rb mgr) = Inr t" "by_start (nodes mm') (inorder t)"
    "set (inorder t) = insert n (set (inorder (vm_addr_space_rb mgr)))"
    using add_rb_loop_correct [OF allocated_at_by_start [OF wf nr al]] by blast
  have i: "inorder (rb_insert_color rb n t) = inorder t" using rb by (simp add: rb_ok_def)
  have "fresh mm' q" if "q \<notin> set (ring mm')" for q
    using al that w(8) [of q] by (auto simp: fresh_def allocated_at_def allocated_at_lists(2) [OF al])
  moreover have "mm_inv h st sz mm'" using allocated_at_inv [OF _ al] wf by (simp add: vma_wf_def)
  moreover have "color_adjust mm' = None" using al w(5) by (simp add: allocated_at_def)
  ultimately have "vma_wf h st sz (mgr\<lparr>vm_addr_space_rb := rb_insert_color rb n t, vm_addr_space_mm := mm'\<rparr>)"
    using t(2,3) w(7) by (simp add: vma_wf_def i allocated_at_lists(1) [OF al] del: set_inorder)
  then show ?thesis using t(1)
    by (intro exI [of _ "rb_insert_color rb n t"]) (cases mgr, simp add: drm_vma_offset_add_rb_def)
qed

lemma add_correct:
  assumes wf: "vma_wf h st sz mgr" and v: "vma_hdr_ok h v" and rb: "rb_ok rb" and n: "n \<noteq> head_node" and p: "pages \<noteq> 0"
  shows "if vma_areas mgr n \<noteq> None then drm_vma_offset_add v rb mgr n pages = Inr mgr
    else if \<exists>s. area_free (unat st) (unat (st + sz)) (vma_areas mgr) s (unat pages)
    then \<exists>s mgr'. drm_vma_offset_add v rb mgr n pages = Inr mgr' \<and> vma_wf h st sz mgr' \<and>
      area_free (unat st) (unat (st + sz)) (vma_areas mgr) s (unat pages) \<and>
      vma_areas mgr' = (vma_areas mgr)(n \<mapsto> (s, unat pages))
    else drm_vma_offset_add v rb mgr n pages = Inl ENOSPC"
proof (cases "n \<in> set (node_list (vm_addr_space_mm mgr))")
  case True
  then have "vma_areas mgr n \<noteq> None" by (simp add: vma_areas_def Let_def)
  with True show ?thesis using node_allocated_iff [OF wf n] v by (simp add: drm_vma_offset_add_def vma_hdr_ok_def)
next
  case False
  let ?mm = "vm_addr_space_mm mgr"
  note w = vma_wfD [OF wf]
  have f: "fresh ?mm n" using w(8) [of n] False n by (simp add: ring_def)
  have a: "vma_areas mgr n = None" using False by (simp add: vma_areas_def)
  have "color_ok ?mm (\<lambda>r. r) 0" using w(5) by (simp add: color_ok_def adjust_def split: prod.splits)
  note i = insert_generic_correct [OF w(1,2) this f p, of 0 False False False, unfolded room_iff [OF wf p]]
  have d: "drm_vma_offset_add v rb mgr n pages = bnd (drm_mm_insert_node_generic h ?mm n pages 0 0 False False False)
      (\<lambda>mm. drm_vma_offset_add_rb rb (mgr\<lparr>vm_addr_space_mm := mm\<rparr>) n)"
    using node_allocated_iff [OF wf n] False v by (simp add: drm_vma_offset_add_def vma_hdr_ok_def)
  show ?thesis
  proof (cases "\<exists>s. area_free (unat st) (unat (st + sz)) (vma_areas mgr) s (unat pages)")
    case True
    with i obtain mm' where m: "drm_mm_insert_node_generic h ?mm n pages 0 0 False False False = Inr mm'"
      "allocated_at ?mm n pages 0 mm'" by auto
    then obtain mgr' where "drm_vma_offset_add v rb mgr n pages = Inr mgr'" "vma_wf h st sz mgr'"
      "vma_areas mgr' = (vma_areas mgr)(n \<mapsto> (unat (start (nodes mm' n)), unat pages))"
      using add_rb_correct [OF wf rb f m(2)] allocated_at_area(2) [OF wf _ m(2)] f unfolding d by (fastforce simp: fresh_def)
    with True a show ?thesis using allocated_at_area(1) [OF wf _ m(2)] f by (auto simp: fresh_def)
  next
    case none: False
    with i have "drm_vma_offset_add v rb mgr n pages = Inl ENOSPC" unfolding d by simp
    with none a show ?thesis by simp
  qed
qed

lemma removed_fields [simp]:
  "node_list (upd_node p f mm) = node_list mm"
  "node_list (removed mm q n) = remove1 n (node_list mm)"
  "color_adjust (removed mm q n) = color_adjust mm"
  "nodes (removed mm q n) x = (if x = n then (nodes mm n)\<lparr>allocated := False\<rparr>
     else if x = q then (nodes mm q)\<lparr>hole_follows := True\<rparr> else nodes mm x)"
  by (simp_all add: upd_node_def removed_def)

lemma removed_zeroed:
  assumes wf: "vma_wf h st sz mgr" and n: "n \<noteq> head_node" and nl: "n \<in> set (node_list (vm_addr_space_mm mgr))"
    and m2: "m2 = upd_node n (\<lambda>_. zero_node) (removed (vm_addr_space_mm mgr) (prev_node (vm_addr_space_mm mgr) n) n)"
  shows "set (node_list m2) = set (node_list (vm_addr_space_mm mgr)) - {n}" and "mm_inv h st sz m2"
    and "color_adjust m2 = None" and "q \<notin> set (ring m2) \<Longrightarrow> fresh m2 q"
    and "x \<noteq> n \<Longrightarrow> start (nodes m2 x) = start (nodes (vm_addr_space_mm mgr) x)"
    and "x \<noteq> n \<Longrightarrow> nsize (nodes m2 x) = nsize (nodes (vm_addr_space_mm mgr) x)"
proof -
  let ?mm = "vm_addr_space_mm mgr"
  let ?m1 = "removed ?mm (prev_node ?mm n) n"
  note w = vma_wfD [OF wf]
  have d: "distinct (node_list ?mm)" using mm_wfD(1) [OF w(2)] by (simp add: ring_def)
  then show l: "set (node_list m2) = set (node_list ?mm) - {n}" unfolding m2 by simp
  then have r: "set (ring m2) = set (ring ?mm) - {n}" using n by (auto simp: ring_def)
  obtain us q ys where "ring ?mm = us @ q # n # ys" "prev_node ?mm n = q" by (rule ring_pred [OF w(2) nl])
  then have p: "prev_node ?mm n \<in> set (ring ?mm)" by simp
  show "fresh m2 q" if "q \<notin> set (ring m2)" for q
  proof (cases "q = n")
    case True
    then show ?thesis using that by (simp add: m2 fresh_def zero_node_def)
  next
    case False
    with that r have q: "q \<notin> set (ring ?mm)" by simp
    then have "q \<noteq> prev_node ?mm n" using p by auto
    then have "nodes m2 q = nodes ?mm q" using False by (simp add: m2)
    then show ?thesis using w(8) [OF q] that by (simp add: fresh_def)
  qed
  show "color_adjust m2 = None" using w(5) by (simp add: m2)
  show s: "x \<noteq> n \<Longrightarrow> start (nodes m2 x) = start (nodes ?mm x)" and z: "x \<noteq> n \<Longrightarrow> nsize (nodes m2 x) = nsize (nodes ?mm x)" for x
    by (simp_all add: m2)
  have "n \<notin> set (ring ?m1)" using d n by (simp add: ring_def)
  then have "mm_wf m2" using removed_wf [OF w(2) nl] unfolding m2 by (intro upd_node_off_ring)
  moreover have "mm_inv h st sz ?mm" using wf by (simp add: vma_wf_def)
  ultimately show "mm_inv h st sz m2" using s [of head_node] z [of head_node] n mm_inv_head [of h st sz ?mm m2] by simp
qed

lemma remove_correct:
  assumes wf: "vma_wf h st sz mgr" and v: "vma_hdr_ok h v" and rb: "rb_ok rb" and n: "n \<noteq> head_node"
  shows "\<exists>mgr'. drm_vma_offset_remove h v rb mgr n = Inr mgr' \<and> vma_wf h st sz mgr' \<and>
    vma_areas mgr' = (vma_areas mgr)(n := None)"
proof (cases "n \<in> set (node_list (vm_addr_space_mm mgr))")
  case True
  let ?mm = "vm_addr_space_mm mgr"
  note w = vma_wfD [OF wf]
  define m2 where "m2 = upd_node n (\<lambda>_. zero_node) (removed ?mm (prev_node ?mm n) n)"
  note z = removed_zeroed [OF wf n True m2_def]
  let ?t = "rb_erase rb n (vm_addr_space_rb mgr)"
  let ?mgr = "mgr\<lparr>vm_addr_space_rb := ?t, vm_addr_space_mm := m2\<rparr>"
  have d: "distinct (inorder (vm_addr_space_rb mgr))" by (rule by_start_distinct [OF w(6)])
  have i: "inorder ?t = remove1 n (inorder (vm_addr_space_rb mgr))" using rb w(7) True d by (simp add: rb_ok_def)
  have "by_start (nodes m2) (inorder ?t)" unfolding i using z(5) by (intro by_start_remove1 [OF w(6)]) blast
  moreover have "set (inorder ?t) = set (node_list m2)" unfolding i set_remove1_eq [OF d] w(7) z(1) ..
  ultimately have "vma_wf h st sz ?mgr" using z(2-4) by (simp add: vma_wf_def)
  moreover have "vma_areas ?mgr = (vma_areas mgr)(n := None)"
    using z(1,5,6) by (auto simp: vma_areas_def Let_def fun_eq_iff)
  moreover have "drm_vma_offset_remove h v rb mgr n = Inr ?mgr"
    using node_allocated_iff [OF wf n] True v remove_node_removed [OF w(1,2) True]
    by (simp add: drm_vma_offset_remove_def vma_hdr_ok_def m2_def)
  ultimately show ?thesis by blast
next
  case False
  then have "drm_vma_offset_remove h v rb mgr n = Inr mgr" "vma_areas mgr n = None"
    using node_allocated_iff [OF wf n] v by (simp_all add: drm_vma_offset_remove_def vma_hdr_ok_def vma_areas_def)
  then show ?thesis using wf by auto
qed

section \<open>Sequences of operations\<close>

datatype vma_op = Offset_add ptr ulong | Offset_remove ptr | Offset_lookup ulong ulong

datatype vma_out = Status "err option" | Found "ptr option"

text \<open>An error the code returns is an output; a \<^verbatim>\<open>BUG()\<close> ends the run.\<close>

fun vma_exec :: "mm_hdr \<Rightarrow> vma_hdr \<Rightarrow> ptr rb_lib \<Rightarrow> vma_op \<Rightarrow> vma_manager \<Rightarrow> err + vma_out \<times> vma_manager" where
  "vma_exec h v rb (Offset_add n pages) mgr =
     (case drm_vma_offset_add v rb mgr n pages of
        Inl e \<Rightarrow> if e = BUG then Inl BUG else Inr (Status (Some e), mgr)
      | Inr mgr' \<Rightarrow> Inr (Status None, mgr'))"
| "vma_exec h v rb (Offset_remove n) mgr = bnd (drm_vma_offset_remove h v rb mgr n) (\<lambda>mgr'. Inr (Status None, mgr'))"
| "vma_exec h v rb (Offset_lookup s pages) mgr = Inr (Found (drm_vma_offset_lookup mgr s pages), mgr)"

text \<open>
  The nodes are not the one embedded in the allocator, the areas are not empty, and the area looked for does not wrap
  around.
\<close>

fun vma_op_ok :: "vma_op \<Rightarrow> bool" where
  "vma_op_ok (Offset_add n pages) \<longleftrightarrow> n \<noteq> head_node \<and> pages \<noteq> 0"
| "vma_op_ok (Offset_remove n) \<longleftrightarrow> n \<noteq> head_node"
| "vma_op_ok (Offset_lookup s pages) \<longleftrightarrow> pages \<noteq> 0 \<and> unat s + unat pages < 2 ^ 64"

text \<open>The specification, on areas of the pages from \<open>lo\<close> up to \<open>hi\<close>.\<close>

fun vma_spec :: "nat \<Rightarrow> nat \<Rightarrow> vma_op \<Rightarrow> (ptr \<Rightarrow> (nat \<times> nat) option) \<Rightarrow> vma_out \<Rightarrow> (ptr \<Rightarrow> (nat \<times> nat) option) \<Rightarrow> bool"
where
  "vma_spec lo hi (Offset_add n pages) a out a' \<longleftrightarrow>
     (if a n \<noteq> None then out = Status None \<and> a' = a
      else if \<exists>s. area_free lo hi a s (unat pages)
      then out = Status None \<and> (\<exists>s. area_free lo hi a s (unat pages) \<and> a' = a(n \<mapsto> (s, unat pages)))
      else out = Status (Some ENOSPC) \<and> a' = a)"
| "vma_spec lo hi (Offset_remove n) a out a' \<longleftrightarrow> out = Status None \<and> a' = a(n := None)"
| "vma_spec lo hi (Offset_lookup s pages) a out a' \<longleftrightarrow> a' = a \<and>
     (\<exists>r. out = Found r \<and> (\<forall>n. r = Some n \<longleftrightarrow>
        (\<exists>b len. a n = Some (b, len) \<and> b \<le> unat s \<and> unat s + unat pages \<le> b + len)))"

definition vma_inv :: "mm_hdr \<Rightarrow> vma_hdr \<Rightarrow> ptr rb_lib \<Rightarrow> ulong \<Rightarrow> ulong \<Rightarrow> nat \<Rightarrow> vma_manager \<Rightarrow> bool" where
  "vma_inv h v rb st sz k mgr \<longleftrightarrow> vma_hdr_ok h v \<and> rb_ok rb \<and> vma_wf h st sz mgr"

interpretation vma_offsets: refinement "vma_inv h v rb st sz" vma_areas vma_op_ok "vma_exec h v rb"
    "vma_spec (unat st) (unat (st + sz))" for h v rb st sz
proof
  fix k mgr x
  assume "vma_inv h v rb st sz (Suc k) mgr" and ok: "vma_op_ok x"
  then have i: "vma_wf h st sz mgr" "vma_hdr_ok h v" "rb_ok rb" by (simp_all add: vma_inv_def)
  show "\<exists>out mgr'. vma_exec h v rb x mgr = Inr (out, mgr') \<and> vma_inv h v rb st sz k mgr' \<and>
    vma_spec (unat st) (unat (st + sz)) x (vma_areas mgr) out (vma_areas mgr')"
  proof (cases x)
    case (Offset_add n pages)
    with ok have n: "n \<noteq> head_node" "pages \<noteq> 0" by simp_all
    from add_correct [OF i n] Offset_add i show ?thesis by (fastforce simp: vma_inv_def split: if_splits)
  next
    case (Offset_remove n)
    with ok remove_correct [OF i, of n] i show ?thesis by (auto simp: vma_inv_def)
  next
    case (Offset_lookup s pages)
    with ok lookup_correct [OF i(1), of pages s] i show ?thesis by (simp add: vma_inv_def)
  qed
qed

lemma init_vma_wf:
  assumes "hdr_ok h" and "st < st + sz" and "unat (st + sz) + 2 ^ 32 \<le> 2 ^ 64"
    and "\<forall>n. n \<noteq> head_node \<longrightarrow> \<not> allocated (nodes (vm_addr_space_mm mgr) n) \<and> \<not> scanned_block (nodes (vm_addr_space_mm mgr) n) \<and>
      \<not> scanned_prev_free (nodes (vm_addr_space_mm mgr) n) \<and> \<not> scanned_next_free (nodes (vm_addr_space_mm mgr) n)"
  shows "vma_wf h st sz (drm_vma_offset_manager_init st sz mgr)"
proof -
  have "mm_inv h st sz (drm_mm_init st sz (vm_addr_space_mm mgr))"
    using assms(1-3) by (intro mm_ini_inv) (auto simp: mm_ini_def)
  then show ?thesis using assms(4)
    by (simp add: vma_wf_def drm_vma_offset_manager_init_def)
      (simp add: drm_mm_init_def fresh_def ring_def upd_node_def Let_def)
qed

text \<open>
  C35: the offset manager implements a set of disjoint areas of the page range it was initialised with.  Whatever sequence
  of \<^verbatim>\<open>drm_vma_offset_add\<close>, \<^verbatim>\<open>drm_vma_offset_remove\<close> and \<^verbatim>\<open>drm_vma_offset_lookup\<close> runs on it, no \<^verbatim>\<open>BUG\<close> is reached, and each
  call returns what the areas say: a node that has no area gets one disjoint from all the others, or \<^verbatim>\<open>-ENOSPC\<close> only
  when there is no free area of that size; a removed node has none; and a lookup finds the node whose area contains the
  pages asked for, if there is one, and otherwise nothing.
\<close>

theorem drm_vma_offset_manager_refines_areas:
  assumes "hdr_ok h" and "vma_hdr_ok h v" and "rb_ok rb" and "st < st + sz" and "unat (st + sz) + 2 ^ 32 \<le> 2 ^ 64"
    and "\<forall>n. n \<noteq> head_node \<longrightarrow> \<not> allocated (nodes (vm_addr_space_mm mgr) n) \<and> \<not> scanned_block (nodes (vm_addr_space_mm mgr) n) \<and>
      \<not> scanned_prev_free (nodes (vm_addr_space_mm mgr) n) \<and> \<not> scanned_next_free (nodes (vm_addr_space_mm mgr) n)"
    and "list_all vma_op_ok ops"
  shows "\<exists>outs mgr'. run_ops (vma_exec h v rb) ops (drm_vma_offset_manager_init st sz mgr) = Inr (outs, mgr') \<and>
    spec_run (vma_spec (unat st) (unat (st + sz))) ops (\<lambda>_. None) outs (vma_areas mgr')"
proof -
  have "vma_inv h v rb st sz (length ops) (drm_vma_offset_manager_init st sz mgr)"
    using init_vma_wf [OF assms(1,4-6)] assms(2,3) by (simp add: vma_inv_def)
  moreover have "vma_areas (drm_vma_offset_manager_init st sz mgr) = (\<lambda>_. None)"
    by (simp add: vma_areas_def drm_vma_offset_manager_init_def drm_mm_init_def upd_node_def Let_def fun_eq_iff)
  ultimately show ?thesis using vma_offsets.run_refines [of h v rb st sz ops] assms(7) by metis
qed

definition vma_hdr0 :: vma_hdr where
  "vma_hdr0 = \<lparr>drm_mm_node_allocated = allocated,
     drm_mm_insert_node = (\<lambda>mm n sz al best. drm_mm_insert_node_generic hdr0 mm n sz al 0 best False False)\<rparr>"

definition vma_ops0 :: "vma_op list" where
  "vma_ops0 = [Offset_add 1 4096, Offset_add 2 40960, Offset_add 3 40960, Offset_lookup 8200 8, Offset_lookup 8190 8,
     Offset_remove 2, Offset_lookup 8200 8, Offset_add 3 40960]"

theorem drm_vma_offset_manager_refines_areas_witness:
  "\<exists>outs mgr'. run_ops (vma_exec hdr0 vma_hdr0 rb0) vma_ops0
      (drm_vma_offset_manager_init 4096 61440 \<lparr>vm_addr_space_rb = Leaf, vm_addr_space_mm = mm0\<rparr>) = Inr (outs, mgr') \<and>
    outs = [Status None, Status None, Status (Some ENOSPC), Found (Some 2), Found None, Status None, Found None, Status None] \<and>
    spec_run (vma_spec 4096 65536) vma_ops0 (\<lambda>_. None) outs (vma_areas mgr')"
proof -
  let ?r = "run_ops (vma_exec hdr0 vma_hdr0 rb0) vma_ops0
      (drm_vma_offset_manager_init 4096 61440 \<lparr>vm_addr_space_rb = Leaf, vm_addr_space_mm = mm0\<rparr>)"
  have r: "map_sum id fst ?r =
      Inr [Status None, Status None, Status (Some ENOSPC), Found (Some 2), Found None, Status None, Found None, Status None]"
    by code_simp
  have "vma_hdr_ok hdr0 vma_hdr0" by (simp add: vma_hdr_ok_def vma_hdr0_def)
  from drm_vma_offset_manager_refines_areas [OF hdr0_ok this rb0_ok, of 4096 61440
      "\<lparr>vm_addr_space_rb = Leaf, vm_addr_space_mm = mm0\<rparr>" vma_ops0]
  obtain outs mgr' where "?r = Inr (outs, mgr')" "spec_run (vma_spec 4096 65536) vma_ops0 (\<lambda>_. None) outs (vma_areas mgr')"
    using mm0_simps(8) by (auto simp: vma_ops0_def head_node_def blank_node_def)
  with r show ?thesis by auto
qed

text \<open>
  Areas without a page are not refused, although the search tree has no place for two nodes of the same offset: after one
  the next node gets the same offset and the machine stops.
\<close>

lemma drm_vma_offset_add_no_pages_bug:
  "case run_ops (vma_exec hdr0 vma_hdr0 rb0) [Offset_add 1 0, Offset_add 2 16]
     (drm_vma_offset_manager_init 4096 61440 \<lparr>vm_addr_space_rb = Leaf, vm_addr_space_mm = mm0\<rparr>) of
     Inl e \<Rightarrow> e = BUG | Inr _ \<Rightarrow> False"
  by code_simp

end
