(* ===== verification/Atom.thy ===== *)
theory Atom
  imports Drm_Prelude
begin

unbundle bit_operations_syntax

text \<open>
  The interpreter for AtomBIOS command tables of \<^verbatim>\<open>radeon/atom.c\<close>, with the byte accessors of
  \<^verbatim>\<open>atom-bits.h\<close> and the constants of \<^verbatim>\<open>atom.h\<close>.

  The BIOS image is a function from addresses to bytes; the code never checks an address against
  the size of the image.  Addresses are natural numbers.  Memory that the code indexes without a
  check (the parameter and work spaces, the scratch area, the table of indirect methods, tables of
  constants) is a list, and an index outside of it is the trap \<open>Oob\<close>.  A shift by 32 or more bits,
  undefined in C, is the trap \<open>Bad_shift\<close>, a read of an uninitialised local \<open>Uninit\<close>, a call through
  a null entry of the opcode table \<open>Null_call\<close>.  Loops over the image have fuel; running out of it is
  \<open>Out_of_fuel\<close>.  The host is little endian.

  The card's register accessors, the clock and the delays are the record \<open>card_info\<close>, over a type
  of device states.
\<close>

section \<open>Data\<close>

record 'd card_info =
  reg_write :: "'d \<Rightarrow> u32 \<Rightarrow> u32 \<Rightarrow> 'd"
  reg_read :: "'d \<Rightarrow> u32 \<Rightarrow> u32 \<times> 'd"
  ioreg_write :: "'d \<Rightarrow> u32 \<Rightarrow> u32 \<Rightarrow> 'd"
  ioreg_read :: "'d \<Rightarrow> u32 \<Rightarrow> u32 \<times> 'd"
  mc_write :: "'d \<Rightarrow> u32 \<Rightarrow> u32 \<Rightarrow> 'd"
  mc_read :: "'d \<Rightarrow> u32 \<Rightarrow> u32 \<times> 'd"
  pll_write :: "'d \<Rightarrow> u32 \<Rightarrow> u32 \<Rightarrow> 'd"
  pll_read :: "'d \<Rightarrow> u32 \<Rightarrow> u32 \<times> 'd"
  jiffies :: "'d \<Rightarrow> ulong \<times> 'd"
  jiffies_to_msecs :: "ulong \<Rightarrow> u32"
  udelay :: "'d \<Rightarrow> u32 \<Rightarrow> 'd"
  mdelay :: "'d \<Rightarrow> u32 \<Rightarrow> 'd"
  msleep :: "'d \<Rightarrow> u32 \<Rightarrow> 'd"
  can_sleep :: "'d \<Rightarrow> bool"
  kzalloc_ok :: "'d \<Rightarrow> nat \<Rightarrow> bool"
  is_rv515 :: bool
  before_r600 :: bool

record 'd atom_context =
  dev :: 'd
  bios :: "nat \<Rightarrow> u8"
  cmd_table :: u32
  data_table :: u32
  iio :: "u16 list"
  data_block :: u16
  fb_base :: u32
  divmul :: "u32 \<times> u32"
  io_attr :: u16
  reg_block :: u16
  shift :: u8
  cs_equal :: bool
  cs_above :: bool
  io_mode :: u32
  scratch :: "u32 list"
  scratch_size_bytes :: u32

text \<open>
  The execution context.  The parameter space is the caller's array; a nested table gets the same
  array from an offset on.
\<close>

record 'd atom_exec_context =
  ctx :: "'d atom_context"
  params :: "u32 list"
  ps_off :: nat
  ws :: "u32 list"
  ps_shift :: nat
  start_ptr :: nat
  last_jump :: nat
  last_jump_jiffies :: ulong
  abort :: bool

abbreviation ATOM_ARG_REG :: u8 where "ATOM_ARG_REG \<equiv> 0"
abbreviation ATOM_ARG_PS :: u8 where "ATOM_ARG_PS \<equiv> 1"
abbreviation ATOM_ARG_WS :: u8 where "ATOM_ARG_WS \<equiv> 2"
abbreviation ATOM_ARG_FB :: u8 where "ATOM_ARG_FB \<equiv> 3"
abbreviation ATOM_ARG_ID :: u8 where "ATOM_ARG_ID \<equiv> 4"
abbreviation ATOM_ARG_IMM :: u8 where "ATOM_ARG_IMM \<equiv> 5"
abbreviation ATOM_ARG_PLL :: u8 where "ATOM_ARG_PLL \<equiv> 6"
abbreviation ATOM_ARG_MC :: u8 where "ATOM_ARG_MC \<equiv> 7"

abbreviation ATOM_IO_MM :: u32 where "ATOM_IO_MM \<equiv> 0"
abbreviation ATOM_IO_PCI :: u32 where "ATOM_IO_PCI \<equiv> 1"
abbreviation ATOM_IO_SYSIO :: u32 where "ATOM_IO_SYSIO \<equiv> 2"
abbreviation ATOM_IO_IIO :: u32 where "ATOM_IO_IIO \<equiv> 0x80"

text \<open>The tables of constants.\<close>

definition atom_arg_mask :: "u32 list" where
  "atom_arg_mask = [0xFFFFFFFF, 0xFFFF, 0xFFFF00, 0xFFFF0000, 0xFF, 0xFF00, 0xFF0000, 0xFF000000]"

definition atom_arg_shift :: "nat list" where
  "atom_arg_shift = [0, 0, 8, 16, 0, 8, 16, 24]"

definition atom_dst_to_src :: "u8 list list" where
  "atom_dst_to_src = [[0, 0, 0, 0], [1, 2, 3, 0], [1, 2, 3, 0], [1, 2, 3, 0],
     [4, 5, 6, 7], [4, 5, 6, 7], [4, 5, 6, 7], [4, 5, 6, 7]]"

definition atom_def_dst :: "u8 list" where
  "atom_def_dst = [0, 0, 1, 2, 0, 1, 2, 3]"

section \<open>Memory\<close>

definition get_u8 :: "(nat \<Rightarrow> u8) \<Rightarrow> nat \<Rightarrow> u8" where
  "get_u8 b ptr = b ptr"

definition get_u16 :: "(nat \<Rightarrow> u8) \<Rightarrow> nat \<Rightarrow> u16" where
  "get_u16 b ptr = ucast (get_u8 b ptr) OR push_bit 8 (ucast (get_u8 b (ptr + 1)))"

definition get_u32 :: "(nat \<Rightarrow> u8) \<Rightarrow> nat \<Rightarrow> u32" where
  "get_u32 b ptr = ucast (get_u16 b ptr) OR push_bit 16 (ucast (get_u16 b (ptr + 2)))"

abbreviation U8 :: "'d atom_exec_context \<Rightarrow> nat \<Rightarrow> u8" where "U8 e ptr \<equiv> get_u8 (bios (ctx e)) ptr"
abbreviation U16 :: "'d atom_exec_context \<Rightarrow> nat \<Rightarrow> u16" where "U16 e ptr \<equiv> get_u16 (bios (ctx e)) ptr"
abbreviation U32 :: "'d atom_exec_context \<Rightarrow> nat \<Rightarrow> u32" where "U32 e ptr \<equiv> get_u32 (bios (ctx e)) ptr"
abbreviation CU8 :: "'d atom_context \<Rightarrow> nat \<Rightarrow> u8" where "CU8 c ptr \<equiv> get_u8 (bios c) ptr"
abbreviation CU16 :: "'d atom_context \<Rightarrow> nat \<Rightarrow> u16" where "CU16 c ptr \<equiv> get_u16 (bios c) ptr"
abbreviation CU32 :: "'d atom_context \<Rightarrow> nat \<Rightarrow> u32" where "CU32 c ptr \<equiv> get_u32 (bios c) ptr"

text \<open>The shifts of C on 32-bit values.\<close>

definition shl :: "u32 \<Rightarrow> nat \<Rightarrow> trap + u32" where
  "shl x n = (if n < 32 then Inr (push_bit n x) else Inl Bad_shift)"

definition shr :: "u32 \<Rightarrow> nat \<Rightarrow> trap + u32" where
  "shr x n = (if n < 32 then Inr (drop_bit n x) else Inl Bad_shift)"

text \<open>\<^verbatim>\<open>0xFFFFFFFF >> (32 - n)\<close>.\<close>

definition low_mask :: "u8 \<Rightarrow> trap + u32" where
  "low_mask n = (if unat n \<le> 32 then shr 0xFFFFFFFF (32 - unat n) else Inl Bad_shift)"

section \<open>Indirect I/O\<close>

text \<open>The three opcodes that move bits of a value into the result.\<close>

definition iio_move :: "'d atom_context \<Rightarrow> nat \<Rightarrow> u32 \<Rightarrow> u32 \<Rightarrow> trap + u32" where
  "iio_move c base tmp v =
     bnd (low_mask (CU8 c (base + 1))) (\<lambda>m.
     bnd (shl m (unat (CU8 c (base + 3)))) (\<lambda>clr.
     bnd (shr v (unat (CU8 c (base + 2)))) (\<lambda>w.
     bnd (shl (w AND m) (unat (CU8 c (base + 3)))) (\<lambda>st.
       Inr ((tmp AND NOT clr) OR st)))))"

fun iio_loop ::
  "'d card_info \<Rightarrow> nat \<Rightarrow> 'd atom_context \<Rightarrow> nat \<Rightarrow> u32 \<Rightarrow> u32 \<Rightarrow> u32 \<Rightarrow> trap + u32 \<times> 'd atom_context" where
  "iio_loop cd 0 c base idx data tmp = Inl Out_of_fuel"
| "iio_loop cd (Suc fuel) c base idx data tmp =
     (let op = CU8 c base in
      if op = 0 then iio_loop cd fuel c (base + 1) idx data tmp
      else if op = 2 then
        let (tmp, d) = ioreg_read cd (dev c) (ucast (CU16 c (base + 1)))
        in iio_loop cd fuel (c\<lparr>dev := d\<rparr>) (base + 3) idx data tmp
      else if op = 3 then
        let d = (if is_rv515 cd then snd (ioreg_read cd (dev c) (ucast (CU16 c (base + 1)))) else dev c);
            d = ioreg_write cd d (ucast (CU16 c (base + 1))) tmp
        in iio_loop cd fuel (c\<lparr>dev := d\<rparr>) (base + 3) idx data tmp
      else if op = 4 then
        bnd (low_mask (CU8 c (base + 1))) (\<lambda>m. bnd (shl m (unat (CU8 c (base + 2)))) (\<lambda>clr.
          iio_loop cd fuel c (base + 3) idx data (tmp AND NOT clr)))
      else if op = 5 then
        bnd (low_mask (CU8 c (base + 1))) (\<lambda>m. bnd (shl m (unat (CU8 c (base + 2)))) (\<lambda>st.
          iio_loop cd fuel c (base + 3) idx data (tmp OR st)))
      else if op = 6 then bnd (iio_move c base tmp idx) (iio_loop cd fuel c (base + 4) idx data)
      else if op = 8 then bnd (iio_move c base tmp data) (iio_loop cd fuel c (base + 4) idx data)
      else if op = 7 then
        bnd (iio_move c base tmp (ucast (io_attr c))) (iio_loop cd fuel c (base + 4) idx data)
      else if op = 9 then Inr (tmp, c)
      else Inr (0, c))"

definition atom_iio_execute ::
  "'d card_info \<Rightarrow> nat \<Rightarrow> 'd atom_context \<Rightarrow> nat \<Rightarrow> u32 \<Rightarrow> u32 \<Rightarrow> trap + u32 \<times> 'd atom_context" where
  "atom_iio_execute cd fuel c base idx data = iio_loop cd fuel c base idx data 0xCDCDCDCD"

section \<open>Operands\<close>

text \<open>The bits of a value that an alignment selects, and putting a field into a value.\<close>

definition get_field :: "nat \<Rightarrow> u32 \<Rightarrow> u32" where
  "get_field align val = drop_bit (atom_arg_shift ! align) (val AND atom_arg_mask ! align)"

definition put_field :: "nat \<Rightarrow> u32 \<Rightarrow> u32 \<Rightarrow> u32" where
  "put_field align saved val =
     (push_bit (atom_arg_shift ! align) val AND atom_arg_mask ! align) OR (saved AND NOT (atom_arg_mask ! align))"

definition attr_arg :: "u8 \<Rightarrow> u8" where "attr_arg attr = attr AND 7"

definition attr_align :: "u8 \<Rightarrow> nat" where "attr_align attr = unat (drop_bit 3 attr AND 7)"

text \<open>\<^verbatim>\<open>atom_dst_to_src[(attr >> 3) & 7][(attr >> 6) & 3]\<close>.\<close>

definition dst_align :: "u8 \<Rightarrow> u8" where
  "dst_align attr = atom_dst_to_src ! unat (drop_bit 3 attr AND 7) ! unat (drop_bit 6 attr AND 3)"

text \<open>An immediate of the alignment's width.\<close>

definition atom_get_src_direct :: "'d atom_exec_context \<Rightarrow> nat \<Rightarrow> nat \<Rightarrow> u32 \<times> nat" where
  "atom_get_src_direct e align ptr =
     (if align = 0 then (U32 e ptr, ptr + 4)
      else if align \<in> {1, 2, 3} then (ucast (U16 e ptr), ptr + 2)
      else if align \<in> {4, 5, 6, 7} then (ucast (U8 e ptr), ptr + 1)
      else (0xCDCDCDCD, ptr))"

text \<open>The special registers of the work space.\<close>

definition ws_read :: "'d atom_exec_context \<Rightarrow> nat \<Rightarrow> trap + u32" where
  "ws_read e idx =
     (let c = ctx e in
      if idx = 0x40 then Inr (fst (divmul c))
      else if idx = 0x41 then Inr (snd (divmul c))
      else if idx = 0x42 then Inr (ucast (data_block c))
      else if idx = 0x43 then Inr (ucast (shift c))
      else if idx = 0x44 then shl 1 (unat (shift c))
      else if idx = 0x45 then bnd (shl 1 (unat (shift c))) (\<lambda>v. Inr (NOT v))
      else if idx = 0x46 then Inr (fb_base c)
      else if idx = 0x47 then Inr (ucast (io_attr c))
      else if idx = 0x48 then Inr (ucast (reg_block c))
      else aget (ws e) idx)"

definition ws_write :: "'d atom_exec_context \<Rightarrow> nat \<Rightarrow> u32 \<Rightarrow> trap + 'd atom_exec_context" where
  "ws_write e idx v =
     (let c = ctx e in
      if idx = 0x40 then Inr (e\<lparr>ctx := c\<lparr>divmul := (v, snd (divmul c))\<rparr>\<rparr>)
      else if idx = 0x41 then Inr (e\<lparr>ctx := c\<lparr>divmul := (fst (divmul c), v)\<rparr>\<rparr>)
      else if idx = 0x42 then Inr (e\<lparr>ctx := c\<lparr>data_block := ucast v\<rparr>\<rparr>)
      else if idx = 0x43 then Inr (e\<lparr>ctx := c\<lparr>shift := ucast v\<rparr>\<rparr>)
      else if idx = 0x44 \<or> idx = 0x45 then Inr e
      else if idx = 0x46 then Inr (e\<lparr>ctx := c\<lparr>fb_base := v\<rparr>\<rparr>)
      else if idx = 0x47 then Inr (e\<lparr>ctx := c\<lparr>io_attr := ucast v\<rparr>\<rparr>)
      else if idx = 0x48 then Inr (e\<lparr>ctx := c\<lparr>reg_block := ucast v\<rparr>\<rparr>)
      else bnd (aput (ws e) idx v) (\<lambda>w. Inr (e\<lparr>ws := w\<rparr>)))"

definition fb_read :: "'d atom_context \<Rightarrow> u32 \<Rightarrow> trap + u32" where
  "fb_read c idx =
     (if fb_base c + idx * 4 > scratch_size_bytes c then Inr 0
      else aget (scratch c) (unat (fb_base c div 4 + idx)))"

definition fb_write :: "'d atom_context \<Rightarrow> u32 \<Rightarrow> u32 \<Rightarrow> trap + 'd atom_context" where
  "fb_write c idx v =
     (if fb_base c + idx * 4 > scratch_size_bytes c then Inr c
      else bnd (aput (scratch c) (unat (fb_base c div 4 + idx)) v) (\<lambda>s. Inr (c\<lparr>scratch := s\<rparr>)))"

text \<open>
  A register access: the result of a read is none when the access is not implemented or the
  indirect method is not defined.
\<close>

definition reg_get ::
  "'d card_info \<Rightarrow> nat \<Rightarrow> 'd atom_context \<Rightarrow> u32 \<Rightarrow> trap + u32 option \<times> 'd atom_context" where
  "reg_get cd fuel c idx =
     (if io_mode c = ATOM_IO_MM then
        let (v, d) = reg_read cd (dev c) idx in Inr (Some v, c\<lparr>dev := d\<rparr>)
      else if io_mode c = ATOM_IO_PCI \<or> io_mode c = ATOM_IO_SYSIO then Inr (None, c)
      else if io_mode c AND 0x80 = 0 then Inr (None, c)
      else bnd (aget (iio c) (unat (io_mode c AND 0x7F))) (\<lambda>m.
        if m = 0 then Inr (None, c)
        else bnd (atom_iio_execute cd fuel c (unat m) idx 0) (\<lambda>(v, c). Inr (Some v, c))))"

definition reg_put ::
  "'d card_info \<Rightarrow> nat \<Rightarrow> 'd atom_context \<Rightarrow> u32 \<Rightarrow> trap + u32 \<Rightarrow> trap + 'd atom_context" where
  "reg_put cd fuel c idx val =
     (if io_mode c = ATOM_IO_MM then
        bnd val (\<lambda>v. Inr (c\<lparr>dev := reg_write cd (dev c) idx (if idx = 0 then push_bit 2 v else v)\<rparr>))
      else if io_mode c = ATOM_IO_PCI \<or> io_mode c = ATOM_IO_SYSIO then Inr c
      else if io_mode c AND 0x80 = 0 then Inr c
      else bnd (aget (iio c) (unat (io_mode c AND 0xFF))) (\<lambda>m.
        if m = 0 then Inr c
        else bnd val (\<lambda>v. bnd (atom_iio_execute cd fuel c (unat m) idx v) (\<lambda>(_, c). Inr c))))"

text \<open>
  \<^verbatim>\<open>atom_get_src_int\<close> returns the value, what it stores through \<^verbatim>\<open>saved\<close> if it gets there, the pointer
  behind the operand, and the context.
\<close>

definition atom_get_src_int ::
  "'d card_info \<Rightarrow> nat \<Rightarrow> 'd atom_exec_context \<Rightarrow> u8 \<Rightarrow> nat
     \<Rightarrow> trap + u32 \<times> u32 option \<times> nat \<times> 'd atom_exec_context" where
  "atom_get_src_int cd fuel e attr ptr =
     (let arg = attr_arg attr; align = attr_align attr;
          fin = (\<lambda>val ptr e. Inr (get_field align val, Some val, ptr, e))
      in if arg = ATOM_ARG_REG then
           bnd (reg_get cd fuel (ctx e) (ucast (U16 e ptr) + ucast (reg_block (ctx e)))) (\<lambda>(v, c).
             case v of None \<Rightarrow> Inr (0, None, ptr + 2, e\<lparr>ctx := c\<rparr>)
             | Some v \<Rightarrow> fin v (ptr + 2) (e\<lparr>ctx := c\<rparr>))
         else if arg = ATOM_ARG_PS then
           bnd (aget (params e) (ps_off e + unat (U8 e ptr))) (\<lambda>v. fin v (ptr + 1) e)
         else if arg = ATOM_ARG_WS then bnd (ws_read e (unat (U8 e ptr))) (\<lambda>v. fin v (ptr + 1) e)
         else if arg = ATOM_ARG_ID then
           fin (U32 e (unat (U16 e ptr) + unat (data_block (ctx e)))) (ptr + 2) e
         else if arg = ATOM_ARG_FB then
           bnd (fb_read (ctx e) (ucast (U8 e ptr))) (\<lambda>v. fin v (ptr + 1) e)
         else if arg = ATOM_ARG_IMM then
           let (v, ptr) = atom_get_src_direct e align ptr in Inr (v, None, ptr, e)
         else if arg = ATOM_ARG_PLL then
           let (v, d) = pll_read cd (dev (ctx e)) (ucast (U8 e ptr))
           in fin v (ptr + 1) (e\<lparr>ctx := (ctx e)\<lparr>dev := d\<rparr>\<rparr>)
         else
           let (v, d) = mc_read cd (dev (ctx e)) (ucast (U8 e ptr))
           in fin v (ptr + 1) (e\<lparr>ctx := (ctx e)\<lparr>dev := d\<rparr>\<rparr>))"

definition atom_skip_src_int :: "u8 \<Rightarrow> nat \<Rightarrow> nat" where
  "atom_skip_src_int attr ptr =
     (let arg = attr_arg attr; align = attr_align attr
      in if arg = ATOM_ARG_REG \<or> arg = ATOM_ARG_ID then ptr + 2
         else if arg = ATOM_ARG_PLL \<or> arg = ATOM_ARG_MC \<or> arg = ATOM_ARG_PS \<or> arg = ATOM_ARG_WS \<or>
           arg = ATOM_ARG_FB then ptr + 1
         else if arg = ATOM_ARG_IMM then
           if align = 0 then ptr + 4
           else if align \<in> {1, 2, 3} then ptr + 2
           else if align \<in> {4, 5, 6, 7} then ptr + 1
           else ptr
         else ptr)"

definition atom_get_src ::
  "'d card_info \<Rightarrow> nat \<Rightarrow> 'd atom_exec_context \<Rightarrow> u8 \<Rightarrow> nat \<Rightarrow> trap + u32 \<times> nat \<times> 'd atom_exec_context" where
  "atom_get_src cd fuel e attr ptr =
     bnd (atom_get_src_int cd fuel e attr ptr) (\<lambda>(v, _, ptr, e). Inr (v, ptr, e))"

definition atom_get_dst ::
  "'d card_info \<Rightarrow> nat \<Rightarrow> 'd atom_exec_context \<Rightarrow> u8 \<Rightarrow> u8 \<Rightarrow> nat
     \<Rightarrow> trap + u32 \<times> u32 option \<times> nat \<times> 'd atom_exec_context" where
  "atom_get_dst cd fuel e arg attr ptr =
     atom_get_src_int cd fuel e (arg OR push_bit 3 (dst_align attr)) ptr"

definition atom_skip_dst :: "u8 \<Rightarrow> u8 \<Rightarrow> nat \<Rightarrow> nat" where
  "atom_skip_dst arg attr ptr = atom_skip_src_int (arg OR push_bit 3 (dst_align attr)) ptr"

definition atom_put_dst ::
  "'d card_info \<Rightarrow> nat \<Rightarrow> 'd atom_exec_context \<Rightarrow> u8 \<Rightarrow> u8 \<Rightarrow> nat \<Rightarrow> u32 \<Rightarrow> u32 option
     \<Rightarrow> trap + 'd atom_exec_context" where
  "atom_put_dst cd fuel e arg attr ptr val saved =
     (let align = unat (dst_align attr); c = ctx e; i = U8 e ptr;
          val = (case saved of None \<Rightarrow> Inl Uninit | Some s \<Rightarrow> Inr (put_field align s val))
      in if arg = ATOM_ARG_REG then
           bnd (reg_put cd fuel c (ucast (U16 e ptr) + ucast (reg_block c)) val) (\<lambda>c. Inr (e\<lparr>ctx := c\<rparr>))
         else if arg = ATOM_ARG_PS then
           bnd val (\<lambda>v. bnd (aput (params e) (ps_off e + unat i) v) (\<lambda>p. Inr (e\<lparr>params := p\<rparr>)))
         else if arg = ATOM_ARG_WS then bnd val (ws_write e (unat i))
         else if arg = ATOM_ARG_FB then
           bnd val (\<lambda>v. bnd (fb_write c (ucast i) v) (\<lambda>c. Inr (e\<lparr>ctx := c\<rparr>)))
         else if arg = ATOM_ARG_PLL then
           bnd val (\<lambda>v. Inr (e\<lparr>ctx := c\<lparr>dev := pll_write cd (dev c) (ucast i) v\<rparr>\<rparr>))
         else if arg = ATOM_ARG_MC then
           bnd val (\<lambda>v. Inr (e\<lparr>ctx := c\<lparr>dev := mc_write cd (dev c) (ucast i) v\<rparr>\<rparr>))
         else Inr e)"

section \<open>Operations\<close>

text \<open>
  Every operation gets the pointer behind its opcode and returns the pointer of the next opcode.
  The operations that read the destination, read the source and write the destination differ only
  in the function they apply.
\<close>

definition op_binary ::
  "(u32 \<Rightarrow> u32 \<Rightarrow> u32) \<Rightarrow> 'd card_info \<Rightarrow> nat \<Rightarrow> 'd atom_exec_context \<Rightarrow> nat \<Rightarrow> u8
     \<Rightarrow> trap + nat \<times> 'd atom_exec_context" where
  "op_binary f cd fuel e ptr arg =
     (let attr = U8 e ptr; dptr = ptr + 1 in
      bnd (atom_get_dst cd fuel e arg attr dptr) (\<lambda>(dst, saved, ptr, e).
      bnd (atom_get_src cd fuel e attr ptr) (\<lambda>(src, ptr, e).
      bnd (atom_put_dst cd fuel e arg attr dptr (f dst src) saved) (\<lambda>e. Inr (ptr, e)))))"

definition atom_op_add :: "'d card_info \<Rightarrow> nat \<Rightarrow> 'd atom_exec_context \<Rightarrow> nat \<Rightarrow> u8 \<Rightarrow> trap + nat \<times> 'd atom_exec_context" where
  "atom_op_add = op_binary (\<lambda>dst src. dst + src)"

definition atom_op_and :: "'d card_info \<Rightarrow> nat \<Rightarrow> 'd atom_exec_context \<Rightarrow> nat \<Rightarrow> u8 \<Rightarrow> trap + nat \<times> 'd atom_exec_context" where
  "atom_op_and = op_binary (\<lambda>dst src. dst AND src)"

definition atom_op_or :: "'d card_info \<Rightarrow> nat \<Rightarrow> 'd atom_exec_context \<Rightarrow> nat \<Rightarrow> u8 \<Rightarrow> trap + nat \<times> 'd atom_exec_context" where
  "atom_op_or = op_binary (\<lambda>dst src. dst OR src)"

definition atom_op_sub :: "'d card_info \<Rightarrow> nat \<Rightarrow> 'd atom_exec_context \<Rightarrow> nat \<Rightarrow> u8 \<Rightarrow> trap + nat \<times> 'd atom_exec_context" where
  "atom_op_sub = op_binary (\<lambda>dst src. dst - src)"

definition atom_op_xor :: "'d card_info \<Rightarrow> nat \<Rightarrow> 'd atom_exec_context \<Rightarrow> nat \<Rightarrow> u8 \<Rightarrow> trap + nat \<times> 'd atom_exec_context" where
  "atom_op_xor = op_binary (\<lambda>dst src. dst XOR src)"

text \<open>The operations that only read both operands.\<close>

definition op_read ::
  "(u32 \<Rightarrow> u32 \<Rightarrow> 'd atom_context \<Rightarrow> 'd atom_context) \<Rightarrow> 'd card_info \<Rightarrow> nat \<Rightarrow> 'd atom_exec_context \<Rightarrow> nat \<Rightarrow> u8
     \<Rightarrow> trap + nat \<times> 'd atom_exec_context" where
  "op_read f cd fuel e ptr arg =
     (let attr = U8 e ptr in
      bnd (atom_get_dst cd fuel e arg attr (ptr + 1)) (\<lambda>(dst, _, ptr, e).
      bnd (atom_get_src cd fuel e attr ptr) (\<lambda>(src, ptr, e).
        Inr (ptr, e\<lparr>ctx := f dst src (ctx e)\<rparr>))))"

definition atom_op_compare :: "'d card_info \<Rightarrow> nat \<Rightarrow> 'd atom_exec_context \<Rightarrow> nat \<Rightarrow> u8 \<Rightarrow> trap + nat \<times> 'd atom_exec_context" where
  "atom_op_compare = op_read (\<lambda>dst src c. c\<lparr>cs_equal := (dst = src), cs_above := (dst > src)\<rparr>)"

definition atom_op_test :: "'d card_info \<Rightarrow> nat \<Rightarrow> 'd atom_exec_context \<Rightarrow> nat \<Rightarrow> u8 \<Rightarrow> trap + nat \<times> 'd atom_exec_context" where
  "atom_op_test = op_read (\<lambda>dst src c. c\<lparr>cs_equal := (dst AND src = 0)\<rparr>)"

definition atom_op_div :: "'d card_info \<Rightarrow> nat \<Rightarrow> 'd atom_exec_context \<Rightarrow> nat \<Rightarrow> u8 \<Rightarrow> trap + nat \<times> 'd atom_exec_context" where
  "atom_op_div = op_read (\<lambda>dst src c.
     c\<lparr>divmul := (if src \<noteq> 0 then (dst div src, dst mod src) else (0, 0))\<rparr>)"

definition atom_op_mul :: "'d card_info \<Rightarrow> nat \<Rightarrow> 'd atom_exec_context \<Rightarrow> nat \<Rightarrow> u8 \<Rightarrow> trap + nat \<times> 'd atom_exec_context" where
  "atom_op_mul = op_read (\<lambda>dst src c. c\<lparr>divmul := (dst * src, snd (divmul c))\<rparr>)"

definition atom_op_clear :: "'d card_info \<Rightarrow> nat \<Rightarrow> 'd atom_exec_context \<Rightarrow> nat \<Rightarrow> u8 \<Rightarrow> trap + nat \<times> 'd atom_exec_context" where
  "atom_op_clear cd fuel e ptr arg =
     (let attr = U8 e ptr AND 0x38; dptr = ptr + 1;
          attr = attr OR push_bit 6 (atom_def_dst ! unat (drop_bit 3 attr))
      in bnd (atom_get_dst cd fuel e arg attr dptr) (\<lambda>(_, saved, ptr, e).
         bnd (atom_put_dst cd fuel e arg attr dptr 0 saved) (\<lambda>e. Inr (ptr, e))))"

definition atom_op_mask :: "'d card_info \<Rightarrow> nat \<Rightarrow> 'd atom_exec_context \<Rightarrow> nat \<Rightarrow> u8 \<Rightarrow> trap + nat \<times> 'd atom_exec_context" where
  "atom_op_mask cd fuel e ptr arg =
     (let attr = U8 e ptr; dptr = ptr + 1 in
      bnd (atom_get_dst cd fuel e arg attr dptr) (\<lambda>(dst, saved, ptr, e).
      let (msk, ptr) = atom_get_src_direct e (unat (drop_bit 3 attr AND 7)) ptr in
      bnd (atom_get_src cd fuel e attr ptr) (\<lambda>(src, ptr, e).
      bnd (atom_put_dst cd fuel e arg attr dptr ((dst AND msk) OR src) saved) (\<lambda>e. Inr (ptr, e)))))"

definition atom_op_move :: "'d card_info \<Rightarrow> nat \<Rightarrow> 'd atom_exec_context \<Rightarrow> nat \<Rightarrow> u8 \<Rightarrow> trap + nat \<times> 'd atom_exec_context" where
  "atom_op_move cd fuel e ptr arg =
     (let attr = U8 e ptr; dptr = ptr + 1 in
      bnd (if drop_bit 3 attr AND 7 \<noteq> 0
           then bnd (atom_get_dst cd fuel e arg attr dptr) (\<lambda>(_, saved, ptr, e). Inr (saved, ptr, e))
           else Inr (Some 0xCDCDCDCD, atom_skip_dst arg attr dptr, e)) (\<lambda>(saved, ptr, e).
      bnd (atom_get_src cd fuel e attr ptr) (\<lambda>(src, ptr, e).
      bnd (atom_put_dst cd fuel e arg attr dptr src saved) (\<lambda>e. Inr (ptr, e)))))"

text \<open>Shifts by an immediate, of a field.\<close>

definition op_shift ::
  "(u32 \<Rightarrow> nat \<Rightarrow> trap + u32) \<Rightarrow> 'd card_info \<Rightarrow> nat \<Rightarrow> 'd atom_exec_context \<Rightarrow> nat \<Rightarrow> u8
     \<Rightarrow> trap + nat \<times> 'd atom_exec_context" where
  "op_shift f cd fuel e ptr arg =
     (let attr = U8 e ptr AND 0x38; dptr = ptr + 1;
          attr = attr OR push_bit 6 (atom_def_dst ! unat (drop_bit 3 attr))
      in bnd (atom_get_dst cd fuel e arg attr dptr) (\<lambda>(dst, saved, ptr, e).
         let (sh, ptr) = atom_get_src_direct e 4 ptr in
         bnd (f dst (unat (ucast sh :: u8))) (\<lambda>dst.
         bnd (atom_put_dst cd fuel e arg attr dptr dst saved) (\<lambda>e. Inr (ptr, e)))))"

definition atom_op_shift_left :: "'d card_info \<Rightarrow> nat \<Rightarrow> 'd atom_exec_context \<Rightarrow> nat \<Rightarrow> u8 \<Rightarrow> trap + nat \<times> 'd atom_exec_context" where
  "atom_op_shift_left = op_shift Atom.shl"

definition atom_op_shift_right :: "'d card_info \<Rightarrow> nat \<Rightarrow> 'd atom_exec_context \<Rightarrow> nat \<Rightarrow> u8 \<Rightarrow> trap + nat \<times> 'd atom_exec_context" where
  "atom_op_shift_right = op_shift Atom.shr"

text \<open>Shifts by a source operand, of the whole value, of which the field is then taken.\<close>

definition op_full_shift ::
  "(u32 \<Rightarrow> nat \<Rightarrow> trap + u32) \<Rightarrow> 'd card_info \<Rightarrow> nat \<Rightarrow> 'd atom_exec_context \<Rightarrow> nat \<Rightarrow> u8
     \<Rightarrow> trap + nat \<times> 'd atom_exec_context" where
  "op_full_shift f cd fuel e ptr arg =
     (let attr = U8 e ptr; dptr = ptr + 1 in
      bnd (atom_get_dst cd fuel e arg attr dptr) (\<lambda>(_, saved, ptr, e).
      bnd (case saved of None \<Rightarrow> Inl Uninit | Some s \<Rightarrow> Inr s) (\<lambda>dst.
      bnd (atom_get_src cd fuel e attr ptr) (\<lambda>(sh, ptr, e).
      bnd (f dst (unat (ucast sh :: u8))) (\<lambda>dst.
      bnd (atom_put_dst cd fuel e arg attr dptr (get_field (unat (dst_align attr)) dst) saved) (\<lambda>e.
        Inr (ptr, e)))))))"

definition atom_op_shl :: "'d card_info \<Rightarrow> nat \<Rightarrow> 'd atom_exec_context \<Rightarrow> nat \<Rightarrow> u8 \<Rightarrow> trap + nat \<times> 'd atom_exec_context" where
  "atom_op_shl = op_full_shift Atom.shl"

definition atom_op_shr :: "'d card_info \<Rightarrow> nat \<Rightarrow> 'd atom_exec_context \<Rightarrow> nat \<Rightarrow> u8 \<Rightarrow> trap + nat \<times> 'd atom_exec_context" where
  "atom_op_shr = op_full_shift Atom.shr"

definition atom_op_delay :: "'d card_info \<Rightarrow> nat \<Rightarrow> 'd atom_exec_context \<Rightarrow> nat \<Rightarrow> u8 \<Rightarrow> trap + nat \<times> 'd atom_exec_context" where
  "atom_op_delay cd fuel e ptr arg =
     (let count = ucast (U8 e ptr); d = dev (ctx e);
          d = (if arg = 0 then udelay cd d count
               else if \<not> can_sleep cd d then mdelay cd d count
               else msleep cd d count)
      in Inr (ptr + 1, e\<lparr>ctx := (ctx e)\<lparr>dev := d\<rparr>\<rparr>))"

text \<open>The conditions of a jump, and \<^verbatim>\<open>time_after\<close>.\<close>

definition jump_taken :: "'d atom_context \<Rightarrow> u8 \<Rightarrow> bool" where
  "jump_taken c arg =
     (if arg = 0 then cs_above c
      else if arg = 1 then cs_above c \<or> cs_equal c
      else if arg = 2 then True
      else if arg = 3 then \<not> (cs_above c \<or> cs_equal c)
      else if arg = 4 then \<not> cs_above c
      else if arg = 5 then cs_equal c
      else if arg = 6 then \<not> cs_equal c
      else False)"

definition time_after :: "ulong \<Rightarrow> ulong \<Rightarrow> bool" where
  "time_after a b \<longleftrightarrow> sint (b - a) < 0"

definition atom_op_jump :: "'d card_info \<Rightarrow> nat \<Rightarrow> 'd atom_exec_context \<Rightarrow> nat \<Rightarrow> u8 \<Rightarrow> trap + nat \<times> 'd atom_exec_context" where
  "atom_op_jump cd fuel e ptr arg =
     (let target = start_ptr e + unat (U16 e ptr); c = ctx e in
      if \<not> jump_taken c arg then Inr (ptr + 2, e)
      else let (j, d) = jiffies cd (dev c); e = e\<lparr>ctx := c\<lparr>dev := d\<rparr>\<rparr>
      in if last_jump e = target then
           if time_after j (last_jump_jiffies e) then
             if jiffies_to_msecs cd (j - last_jump_jiffies e) > 5000 then Inr (target, e\<lparr>abort := True\<rparr>)
             else Inr (target, e)
           else
             let (j, d) = jiffies cd d
             in Inr (target, e\<lparr>ctx := c\<lparr>dev := d\<rparr>, last_jump_jiffies := j\<rparr>)
         else Inr (target, e\<lparr>last_jump := target, last_jump_jiffies := j\<rparr>))"

definition atom_op_setdatablock :: "'d card_info \<Rightarrow> nat \<Rightarrow> 'd atom_exec_context \<Rightarrow> nat \<Rightarrow> u8 \<Rightarrow> trap + nat \<times> 'd atom_exec_context" where
  "atom_op_setdatablock cd fuel e ptr arg =
     (let idx = unat (U8 e ptr); c = ctx e;
          blk = (if idx = 0 then 0 else if idx = 255 then of_nat (start_ptr e)
                 else U16 e (unat (data_table c) + 4 + 2 * idx))
      in Inr (ptr + 1, e\<lparr>ctx := c\<lparr>data_block := blk\<rparr>\<rparr>))"

definition atom_op_setfbbase :: "'d card_info \<Rightarrow> nat \<Rightarrow> 'd atom_exec_context \<Rightarrow> nat \<Rightarrow> u8 \<Rightarrow> trap + nat \<times> 'd atom_exec_context" where
  "atom_op_setfbbase cd fuel e ptr arg =
     bnd (atom_get_src cd fuel e (U8 e ptr) (ptr + 1)) (\<lambda>(v, ptr, e).
       Inr (ptr, e\<lparr>ctx := (ctx e)\<lparr>fb_base := v\<rparr>\<rparr>))"

definition atom_op_setport :: "'d card_info \<Rightarrow> nat \<Rightarrow> 'd atom_exec_context \<Rightarrow> nat \<Rightarrow> u8 \<Rightarrow> trap + nat \<times> 'd atom_exec_context" where
  "atom_op_setport cd fuel e ptr arg =
     (let c = ctx e in
      if arg = 0 then
        let port = U16 e ptr
        in Inr (ptr + 2, e\<lparr>ctx := c\<lparr>io_mode := (if port = 0 then ATOM_IO_MM else ATOM_IO_IIO OR ucast port)\<rparr>\<rparr>)
      else if arg = 1 then Inr (ptr + 1, e\<lparr>ctx := c\<lparr>io_mode := ATOM_IO_PCI\<rparr>\<rparr>)
      else if arg = 2 then Inr (ptr + 1, e\<lparr>ctx := c\<lparr>io_mode := ATOM_IO_SYSIO\<rparr>\<rparr>)
      else Inr (ptr, e))"

definition atom_op_setregblock :: "'d card_info \<Rightarrow> nat \<Rightarrow> 'd atom_exec_context \<Rightarrow> nat \<Rightarrow> u8 \<Rightarrow> trap + nat \<times> 'd atom_exec_context" where
  "atom_op_setregblock cd fuel e ptr arg =
     Inr (ptr + 2, e\<lparr>ctx := (ctx e)\<lparr>reg_block := U16 e ptr\<rparr>\<rparr>)"

fun switch_loop ::
  "'d card_info \<Rightarrow> nat \<Rightarrow> 'd atom_exec_context \<Rightarrow> nat \<Rightarrow> u8 \<Rightarrow> u32 \<Rightarrow> trap + nat \<times> 'd atom_exec_context" where
  "switch_loop cd 0 e ptr attr src = Inl Out_of_fuel"
| "switch_loop cd (Suc fuel) e ptr attr src =
     (if U16 e ptr = 0x5A5A then Inr (ptr + 2, e)
      else if U8 e ptr = 0x63 then
        bnd (atom_get_src cd fuel e ((attr AND 0x38) OR ATOM_ARG_IMM) (ptr + 1)) (\<lambda>(val, ptr, e).
          if val = src then Inr (start_ptr e + unat (U16 e ptr), e)
          else switch_loop cd fuel e (ptr + 2) attr src)
      else Inr (ptr, e))"

definition atom_op_switch :: "'d card_info \<Rightarrow> nat \<Rightarrow> 'd atom_exec_context \<Rightarrow> nat \<Rightarrow> u8 \<Rightarrow> trap + nat \<times> 'd atom_exec_context" where
  "atom_op_switch cd fuel e ptr arg =
     (let attr = U8 e ptr in
      bnd (atom_get_src cd fuel e attr (ptr + 1)) (\<lambda>(src, ptr, e). switch_loop cd fuel e ptr attr src))"

text \<open>The POST card output, and the operations that do nothing.\<close>

definition atom_op_postcard :: "'d card_info \<Rightarrow> nat \<Rightarrow> 'd atom_exec_context \<Rightarrow> nat \<Rightarrow> u8 \<Rightarrow> trap + nat \<times> 'd atom_exec_context" where
  "atom_op_postcard cd fuel e ptr arg = Inr (ptr + 1, e)"

definition atom_op_nop :: "'d card_info \<Rightarrow> nat \<Rightarrow> 'd atom_exec_context \<Rightarrow> nat \<Rightarrow> u8 \<Rightarrow> trap + nat \<times> 'd atom_exec_context" where
  "atom_op_nop cd fuel e ptr arg = Inr (ptr, e)"

section \<open>Tables\<close>

text \<open>
  The functions of the opcode table.  The table has an entry less than \<^verbatim>\<open>ATOM_OP_CNT\<close>: the last entry
  of the array is null.  The functions that only print are \<open>F_print\<close>.
\<close>

datatype atom_fn = F_null | F_move | F_and | F_or | F_shift_left | F_shift_right | F_mul | F_div | F_add | F_sub
  | F_setport | F_setregblock | F_setfbbase | F_compare | F_switch | F_jump | F_test | F_delay | F_calltable
  | F_clear | F_nop | F_eot | F_mask | F_postcard | F_setdatablock | F_xor | F_shl | F_shr | F_print

definition six :: "atom_fn \<Rightarrow> (atom_fn \<times> u8) list" where
  "six f = [(f, ATOM_ARG_REG), (f, ATOM_ARG_PS), (f, ATOM_ARG_WS), (f, ATOM_ARG_FB), (f, ATOM_ARG_PLL), (f, ATOM_ARG_MC)]"

definition ATOM_OP_CNT :: nat where "ATOM_OP_CNT = 123"

definition opcode_table :: "(atom_fn \<times> u8) list" where
  "opcode_table = [(F_null, 0)] @ six F_move @ six F_and @ six F_or @ six F_shift_left @ six F_shift_right @
     six F_mul @ six F_div @ six F_add @ six F_sub @ [(F_setport, 0), (F_setport, 1), (F_setport, 2),
     (F_setregblock, 0), (F_setfbbase, 0)] @ six F_compare @ [(F_switch, 0), (F_jump, 2), (F_jump, 5), (F_jump, 3),
     (F_jump, 0), (F_jump, 4), (F_jump, 1), (F_jump, 6)] @ six F_test @ [(F_delay, 1), (F_delay, 0),
     (F_calltable, 0), (F_print, 0)] @ six F_clear @ [(F_nop, 0), (F_eot, 0)] @ six F_mask @ [(F_postcard, 0),
     (F_print, 0), (F_print, 0), (F_print, 0), (F_setdatablock, 0)] @ six F_xor @ six F_shl @ six F_shr @
     [(F_print, 0), (F_null, 0)]"

definition call_op ::
  "atom_fn \<Rightarrow> 'd card_info \<Rightarrow> nat \<Rightarrow> 'd atom_exec_context \<Rightarrow> nat \<Rightarrow> u8 \<Rightarrow> trap + nat \<times> 'd atom_exec_context" where
  "call_op f = (case f of F_null \<Rightarrow> (\<lambda>_ _ _ _ _. Inl Null_call) | F_move \<Rightarrow> atom_op_move | F_and \<Rightarrow> atom_op_and
     | F_or \<Rightarrow> atom_op_or | F_shift_left \<Rightarrow> atom_op_shift_left | F_shift_right \<Rightarrow> atom_op_shift_right
     | F_mul \<Rightarrow> atom_op_mul | F_div \<Rightarrow> atom_op_div | F_add \<Rightarrow> atom_op_add | F_sub \<Rightarrow> atom_op_sub
     | F_setport \<Rightarrow> atom_op_setport | F_setregblock \<Rightarrow> atom_op_setregblock | F_setfbbase \<Rightarrow> atom_op_setfbbase
     | F_compare \<Rightarrow> atom_op_compare | F_switch \<Rightarrow> atom_op_switch | F_jump \<Rightarrow> atom_op_jump | F_test \<Rightarrow> atom_op_test
     | F_delay \<Rightarrow> atom_op_delay | F_clear \<Rightarrow> atom_op_clear | F_mask \<Rightarrow> atom_op_mask
     | F_postcard \<Rightarrow> atom_op_postcard | F_setdatablock \<Rightarrow> atom_op_setdatablock | F_xor \<Rightarrow> atom_op_xor
     | F_shl \<Rightarrow> atom_op_shl | F_shr \<Rightarrow> atom_op_shr | _ \<Rightarrow> atom_op_nop)"

text \<open>The context in which a table runs.\<close>

definition table_context ::
  "'d card_info \<Rightarrow> 'd atom_context \<Rightarrow> nat \<Rightarrow> u32 list \<Rightarrow> nat \<Rightarrow> 'd atom_exec_context" where
  "table_context cd c base ps off =
     (let w = unat (CU8 c (base + 4)); p = CU8 c (base + 5) AND 0x7F
      in \<lparr>ctx = c, params = ps, ps_off = off, ws = (if w \<noteq> 0 \<and> kzalloc_ok cd (dev c) (4 * w) then replicate w 0 else []),
          ps_shift = unat p div 4, start_ptr = base, last_jump = 0, last_jump_jiffies = 0, abort = False\<rparr>)"

text \<open>
  The loop over the opcodes and the execution of a table, which call each other for the opcode
  \<^verbatim>\<open>CALL_TABLE\<close>.  The result is the return value, none for 0, and the context.
\<close>

fun run_loop ::
    "'d card_info \<Rightarrow> nat \<Rightarrow> 'd atom_exec_context \<Rightarrow> nat \<Rightarrow> trap + err option \<times> 'd atom_exec_context"
  and atom_execute_table_locked ::
    "'d card_info \<Rightarrow> nat \<Rightarrow> 'd atom_context \<Rightarrow> nat \<Rightarrow> u32 list \<Rightarrow> nat \<Rightarrow> trap + err option \<times> u32 list \<times> 'd atom_context" where
  "run_loop cd 0 e ptr = Inl Out_of_fuel"
| "run_loop cd (Suc fuel) e ptr =
     (let op = unat (U8 e ptr) in
      if abort e then Inr (Some EINVAL, e)
      else if op < ATOM_OP_CNT \<and> op > 0 then
        let (f, arg) = opcode_table ! op in
        bnd (if f = F_calltable then
               let idx = unat (U8 e (ptr + 1)) in
               if U16 e (unat (cmd_table (ctx e)) + 4 + 2 * idx) \<noteq> 0
               then bnd (atom_execute_table_locked cd fuel (ctx e) idx (params e) (ps_off e + ps_shift e))
                 (\<lambda>(r, ps, c). Inr (ptr + 2, e\<lparr>ctx := c, params := ps, abort := (r \<noteq> None)\<rparr>))
               else Inr (ptr + 2, e)
             else call_op f cd fuel e (ptr + 1) arg)
          (\<lambda>(ptr, e). if op = 91 then Inr (None, e) else run_loop cd fuel e ptr)
      else Inr (None, e))"
| "atom_execute_table_locked cd 0 c idx ps off = Inl Out_of_fuel"
| "atom_execute_table_locked cd (Suc fuel) c idx ps off =
     (let base = unat (CU16 c (unat (cmd_table c) + 4 + 2 * idx)) in
      if base = 0 then Inr (Some EINVAL, ps, c)
      else bnd (run_loop cd fuel (table_context cd c base ps off) (base + 6)) (\<lambda>(r, e).
        Inr (r, params e, ctx e)))"

definition atom_execute_table_scratch_unlocked ::
  "'d card_info \<Rightarrow> nat \<Rightarrow> 'd atom_context \<Rightarrow> nat \<Rightarrow> u32 list \<Rightarrow> trap + err option \<times> u32 list \<times> 'd atom_context" where
  "atom_execute_table_scratch_unlocked cd fuel c idx ps =
     atom_execute_table_locked cd fuel
       (c\<lparr>data_block := 0, reg_block := 0, fb_base := 0, io_mode := ATOM_IO_MM, divmul := (0, 0)\<rparr>) idx ps 0"

definition atom_execute_table ::
  "'d card_info \<Rightarrow> nat \<Rightarrow> 'd atom_context \<Rightarrow> nat \<Rightarrow> u32 list \<Rightarrow> trap + err option \<times> u32 list \<times> 'd atom_context" where
  "atom_execute_table cd fuel c idx ps = atom_execute_table_scratch_unlocked cd fuel c idx ps"

section \<open>The BIOS image\<close>

text \<open>
  Indexing the indirect I/O methods.  A table that could not be allocated is the empty list.
\<close>

definition atom_iio_len :: "nat list" where
  "atom_iio_len = [1, 2, 3, 3, 3, 3, 4, 4, 4, 3]"

fun iio_skip :: "nat \<Rightarrow> 'd atom_context \<Rightarrow> nat \<Rightarrow> trap + nat" where
  "iio_skip 0 c base = Inl Out_of_fuel"
| "iio_skip (Suc fuel) c base =
     (if CU8 c base = 9 then Inr base
      else bnd (aget atom_iio_len (unat (CU8 c base))) (\<lambda>n. iio_skip fuel c (base + n)))"

fun index_loop :: "nat \<Rightarrow> 'd atom_context \<Rightarrow> nat \<Rightarrow> trap + 'd atom_context" where
  "index_loop 0 c base = Inl Out_of_fuel"
| "index_loop (Suc fuel) c base =
     (if CU8 c base = 1 then
        bnd (aput (iio c) (unat (CU8 c (base + 1))) (of_nat (base + 2))) (\<lambda>t.
        bnd (iio_skip fuel c (base + 2)) (\<lambda>e. index_loop fuel (c\<lparr>iio := t\<rparr>) (e + 3)))
      else Inr c)"

definition atom_index_iio :: "'d card_info \<Rightarrow> nat \<Rightarrow> 'd atom_context \<Rightarrow> nat \<Rightarrow> trap + 'd atom_context" where
  "atom_index_iio cd fuel c base =
     (if kzalloc_ok cd (dev c) 512 then index_loop fuel (c\<lparr>iio := replicate 256 0\<rparr>) base
      else Inr (c\<lparr>iio := []\<rparr>))"

text \<open>\<^verbatim>\<open>strncmp\<close> of the image at an address with a constant.\<close>

definition bios_has :: "(nat \<Rightarrow> u8) \<Rightarrow> nat \<Rightarrow> u8 list \<Rightarrow> bool" where
  "bios_has b ptr xs \<longleftrightarrow> map (get_u8 b) [ptr..<ptr + length xs] = xs"

definition ATOM_ATI_MAGIC :: "u8 list" where
  "ATOM_ATI_MAGIC = [0x20, 0x37, 0x36, 0x31, 0x32, 0x39, 0x35, 0x35, 0x32, 0x30]"

definition ATOM_ROM_MAGIC :: "u8 list" where
  "ATOM_ROM_MAGIC = [0x41, 0x54, 0x4F, 0x4D]"

text \<open>
  Parsing the image; none when it is not an AtomBIOS image or memory is short.  \<open>blank\<close> is the zeroed
  context, none when it could not be allocated.  The name of the BIOS, which is only printed, is left out.
\<close>

definition atom_parse ::
  "'d card_info \<Rightarrow> nat \<Rightarrow> 'd atom_context option \<Rightarrow> (nat \<Rightarrow> u8) \<Rightarrow> trap + 'd atom_context option" where
  "atom_parse cd fuel blank b =
     (case blank of None \<Rightarrow> Inr None | Some c \<Rightarrow>
      let c = c\<lparr>bios := b\<rparr> in
      if CU16 c 0 \<noteq> 0xAA55 then Inr None
      else if \<not> bios_has b 0x30 ATOM_ATI_MAGIC then Inr None
      else let base = unat (CU16 c 0x48) in
      if \<not> bios_has b (base + 4) ATOM_ROM_MAGIC then Inr None
      else
        let c = c\<lparr>cmd_table := ucast (CU16 c (base + 0x1E)), data_table := ucast (CU16 c (base + 0x20))\<rparr>
        in bnd (atom_index_iio cd fuel c (unat (CU16 c (unat (data_table c) + 0x32)) + 4)) (\<lambda>c.
          if iio c = [] then Inr None else Inr (Some c)))"

datatype asic_ret = Asic_ok | Asic_one | Asic_err err

definition atom_asic_init :: "'d card_info \<Rightarrow> nat \<Rightarrow> 'd atom_context \<Rightarrow> trap + asic_ret \<times> 'd atom_context" where
  "atom_asic_init cd fuel c =
     (let hwi = unat (CU16 c (unat (data_table c) + 0xC));
          sclk = CU32 c (hwi + 8); mclk = CU32 c (hwi + 0xC)
      in if sclk = 0 \<or> mclk = 0 then Inr (Asic_one, c)
         else if CU16 c (unat (cmd_table c) + 4) = 0 then Inr (Asic_one, c)
         else bnd (atom_execute_table cd fuel c 0 (sclk # mclk # replicate 14 0)) (\<lambda>(r, _, c).
           case r of Some e \<Rightarrow> Inr (Asic_err e, c)
           | None \<Rightarrow>
               if before_r600 cd \<and> CU16 c (unat (cmd_table c) + 4 + 2 * 0x39) \<noteq> 0
               then bnd (atom_execute_table cd fuel c 0x39 (replicate 16 0)) (\<lambda>(_, _, c). Inr (Asic_ok, c))
               else Inr (Asic_ok, c)))"

text \<open>The headers of data and command tables: size, revisions and start.\<close>

definition atom_parse_data_header :: "'d atom_context \<Rightarrow> nat \<Rightarrow> (u16 \<times> u8 \<times> u8 \<times> u16) option" where
  "atom_parse_data_header c index =
     (let idx = CU16 c (unat (data_table c) + (index * 2 + 4)); p = unat idx
      in if CU16 c (unat (data_table c) + 4 + 2 * index) = 0 then None
         else Some (CU16 c p, CU8 c (p + 2), CU8 c (p + 3), idx))"

definition atom_parse_cmd_header :: "'d atom_context \<Rightarrow> nat \<Rightarrow> (u8 \<times> u8) option" where
  "atom_parse_cmd_header c index =
     (let p = unat (CU16 c (unat (cmd_table c) + (index * 2 + 4)))
      in if CU16 c (unat (cmd_table c) + 4 + 2 * index) = 0 then None
         else Some (CU8 c (p + 2), CU8 c (p + 3)))"

text \<open>The entry \<^verbatim>\<open>VRAM_UsageByFirmware\<close> is the twelfth of the data tables.\<close>

definition atom_allocate_fb_scratch :: "'d card_info \<Rightarrow> 'd atom_context \<Rightarrow> err option \<times> 'd atom_context" where
  "atom_allocate_fb_scratch cd c =
     (let usage = (case atom_parse_data_header c 11 of
            None \<Rightarrow> 0 | Some (_, _, _, off) \<Rightarrow> unat (CU16 c (unat off + 8)) * 1024);
          c = c\<lparr>scratch_size_bytes := 0\<rparr>;
          usage = (if usage = 0 then 20 * 1024 else usage)
      in if \<not> kzalloc_ok cd (dev c) usage then (Some ENOMEM, c\<lparr>scratch := []\<rparr>)
         else (None, c\<lparr>scratch := replicate (usage div 4) 0, scratch_size_bytes := of_nat usage\<rparr>))"

end
