(* ===== verification/Atom_Props.thy ===== *)
theory Atom_Props
  imports Atom
begin

text \<open>
  Properties of the AtomBIOS interpreter: the fields of operands, the pointer arithmetic, what the
  arithmetic operations compute, the indirect I/O methods, the fuel, and the guard against loops.
\<close>

unbundle bit_operations_syntax

section \<open>A concrete card\<close>

text \<open>
  The card of the examples: its registers ignore writes and read as 0, its clock has 1000 ticks per second and
  advances by 6000 with every reading, and memory is never short.
\<close>

definition plain_card :: "nat card_info" where
  "plain_card = \<lparr>reg_write = (\<lambda>d _ _. d), reg_read = (\<lambda>d _. (0, d)), ioreg_write = (\<lambda>d _ _. d),
     ioreg_read = (\<lambda>d _. (0, d)), mc_write = (\<lambda>d _ _. d), mc_read = (\<lambda>d _. (0, d)), pll_write = (\<lambda>d _ _. d),
     pll_read = (\<lambda>d _. (0, d)), jiffies = (\<lambda>d. (of_nat d * 6000, Suc d)), jiffies_to_msecs = ucast,
     udelay = (\<lambda>d _. d), mdelay = (\<lambda>d _. d), msleep = (\<lambda>d _. d), can_sleep = (\<lambda>_. True),
     kzalloc_ok = (\<lambda>_ _. True), is_rv515 = False, before_r600 = False\<rparr>"

definition rom :: "u8 list \<Rightarrow> nat \<Rightarrow> u8" where
  "rom xs a = (if a < length xs then xs ! a else 0)"

definition plain_ctx :: "u8 list \<Rightarrow> nat atom_context" where
  "plain_ctx xs = \<lparr>dev = 0, bios = rom xs, cmd_table = 0, data_table = 0, iio = [], data_block = 0, fb_base = 0,
     divmul = (0, 0), io_attr = 0, reg_block = 0, shift = 0, cs_equal = False, cs_above = False, io_mode = 0,
     scratch = [], scratch_size_bytes = 0\<rparr>"

definition plain_exec :: "u8 list \<Rightarrow> u32 list \<Rightarrow> nat atom_exec_context" where
  "plain_exec xs ps = \<lparr>ctx = plain_ctx xs, params = ps, ps_off = 0, ws = [], ps_shift = 0, start_ptr = 0,
     last_jump = 0, last_jump_jiffies = 0, abort = False\<rparr>"

lemmas plain_defs = plain_card_def rom_def plain_ctx_def plain_exec_def get_u8_def get_u16_def

section \<open>Fields\<close>

definition field_width :: "nat \<Rightarrow> nat" where
  "field_width align = [32, 16, 16, 16, 8, 8, 8, 8] ! align"

lemma less_8_cases:
  assumes "n < (8 :: nat)"
  obtains "n = 0" | "n = 1" | "n = 2" | "n = 3" | "n = 4" | "n = 5" | "n = 6" | "n = 7"
  using assms by (auto simp: less_Suc_eq numeral_eq_Suc)

lemma arg_mask_eq:
  assumes "align < 8"
  shows "atom_arg_mask ! align = push_bit (atom_arg_shift ! align) (mask (field_width align))"
    and "atom_arg_shift ! align + field_width align \<le> 32"
  using assms
  by (auto elim!: less_8_cases simp: atom_arg_mask_def atom_arg_shift_def field_width_def mask_eq_exp_minus_1)

lemma get_field_eq:
  assumes "align < 8"
  shows "get_field align v = take_bit (field_width align) (drop_bit (atom_arg_shift ! align) v)"
  using arg_mask_eq(2) [OF assms] unfolding get_field_def arg_mask_eq(1) [OF assms]
  by (intro bit_eqI) (auto simp: bit_simps)

lemma get_put_field:
  assumes "align < 8"
  shows "get_field align (put_field align s v) = take_bit (field_width align) v"
  using arg_mask_eq(2) [OF assms] unfolding get_field_eq [OF assms] put_field_def arg_mask_eq(1) [OF assms]
  by (intro bit_eqI) (auto simp: bit_simps)

lemma put_field_other:
  assumes "align < 8"
  shows "put_field align s v AND NOT (atom_arg_mask ! align) = s AND NOT (atom_arg_mask ! align)"
  unfolding put_field_def by (intro bit_eqI) (auto simp: bit_simps)

lemma put_get_field:
  assumes "align < 8"
  shows "put_field align s (get_field align s) = s"
  using arg_mask_eq(2) [OF assms] unfolding get_field_eq [OF assms] put_field_def arg_mask_eq(1) [OF assms]
  by (intro bit_eqI) (auto simp: bit_simps)

lemma attr_align_less: "attr_align attr < 8"
proof -
  have "drop_bit 3 attr AND 7 \<le> (7 :: u8)" by (rule word_and_le1)
  then show ?thesis by (simp add: attr_align_def word_le_nat_alt)
qed

lemma and_7: "x AND 7 = take_bit 3 (x :: u8)"
proof -
  have "(7 :: u8) = mask 3" by (simp add: mask_eq_exp_minus_1)
  then show ?thesis by (simp add: take_bit_eq_mask)
qed

lemma dst_align_less: "unat (dst_align attr) < 8"
proof -
  have "\<forall>i \<in> set [0..<8]. \<forall>j \<in> set [0..<4]. unat (atom_dst_to_src ! i ! j) < 8" by code_simp
  moreover have "unat (drop_bit 3 attr AND 7) < 8" using attr_align_less by (simp add: attr_align_def)
  moreover have "drop_bit 6 attr AND 3 \<le> (3 :: u8)" by (rule word_and_le1)
  then have "unat (drop_bit 6 attr AND 3) < 4" by (simp add: word_le_nat_alt)
  ultimately show ?thesis by (simp add: dst_align_def)
qed

lemma take_bit_3:
  assumes "unat x < 8"
  shows "take_bit 3 x = (x :: u8)"
proof -
  have "unat (take_bit 3 x) = unat x" using assms by (simp add: take_bit_eq_mod unat_mod)
  then show ?thesis by (simp only: word_unat_eq_iff)
qed

lemma dst_attr:
  assumes "unat arg < 8"
  shows "attr_arg (arg OR push_bit 3 (dst_align attr)) = arg"
    and "attr_align (arg OR push_bit 3 (dst_align attr)) = unat (dst_align attr)"
proof -
  note a = take_bit_3 [OF assms] and d = take_bit_3 [OF dst_align_less, of attr]
  have "take_bit 3 (arg OR push_bit 3 (dst_align attr)) = take_bit 3 arg"
    by (intro bit_eqI) (auto simp: bit_simps)
  then show "attr_arg (arg OR push_bit 3 (dst_align attr)) = arg" by (simp add: attr_arg_def and_7 a)
  have b: "\<not> bit arg n" if "n \<ge> 3" for n using a that by (metis bit_take_bit_iff not_less)
  have "take_bit 3 (drop_bit 3 (arg OR push_bit 3 (dst_align attr))) = take_bit 3 (dst_align attr)"
    using b by (intro bit_eqI) (auto simp: bit_simps)
  then show "attr_align (arg OR push_bit 3 (dst_align attr)) = unat (dst_align attr)"
    by (simp add: attr_align_def and_7 d)
qed

section \<open>Pointers\<close>

lemma attr_arg_cases: "attr_arg attr \<in> {0, 1, 2, 3, 4, 5, 6, 7}"
proof -
  have "attr AND 7 \<le> (7 :: u8)" by (rule word_and_le1)
  then have "unat (attr_arg attr) \<in> {..<8}" by (simp add: attr_arg_def word_le_nat_alt)
  then have "of_nat (unat (attr_arg attr)) \<in> (of_nat ` {..<8} :: u8 set)" by (rule imageI)
  then show ?thesis by (simp add: lessThan_nat_numeral lessThan_Suc) blast
qed

section \<open>Reading an operand changes the device only\<close>

definition same_but_dev :: "'d atom_context \<Rightarrow> 'd atom_context \<Rightarrow> bool" where
  "same_but_dev c c' \<longleftrightarrow> (\<exists>d. c' = c\<lparr>dev := d\<rparr>)"

lemma same_but_dev_refl [simp]: "same_but_dev c c"
  unfolding same_but_dev_def by (rule exI [of _ "dev c"]) simp

lemma same_but_dev_upd [simp]: "same_but_dev c (c\<lparr>dev := d\<rparr>)"
  unfolding same_but_dev_def by blast

lemma same_but_dev_trans: "same_but_dev a b \<Longrightarrow> same_but_dev b c \<Longrightarrow> same_but_dev a c"
  unfolding same_but_dev_def by (auto intro: exI)

lemma iio_loop_sat: "sat (\<lambda>(v, c'). same_but_dev c c') (iio_loop cd fuel c base idx data tmp)"
proof (induction fuel arbitrary: c base tmp)
  case (Suc fuel)
  have IH: "sat (\<lambda>(v, c'). same_but_dev c c') (iio_loop cd fuel (c\<lparr>dev := d\<rparr>) base' idx data tmp')" for d base' tmp'
    using Suc.IH [of "c\<lparr>dev := d\<rparr>"] same_but_dev_trans [OF same_but_dev_upd] unfolding sat_def by fastforce
  show ?case
    unfolding iio_loop.simps Let_def by (intro sat_if sat_bnd Suc.IH) (simp_all add: IH split: prod.split)
qed simp

lemma iio_loop_ctx: "iio_loop cd fuel c base idx data tmp = Inr (v, c') \<Longrightarrow> same_but_dev c c'"
  using iio_loop_sat [of c cd fuel base idx data tmp] by (simp add: sat_def)

lemma reg_get_ctx: "reg_get cd fuel c idx = Inr (v, c') \<Longrightarrow> same_but_dev c c'"
  by (auto simp: reg_get_def bnd_Inr_iff atom_iio_execute_def intro: iio_loop_ctx
      split: if_splits prod.splits)

lemma get_src_int_sat:
  "sat (\<lambda>(v, s, ptr', e'). ptr' = atom_skip_src_int attr ptr \<and> (\<exists>d. e' = e\<lparr>ctx := (ctx e)\<lparr>dev := d\<rparr>\<rparr>))
     (atom_get_src_int cd fuel e attr ptr)"
proof -
  have [simp]: "\<exists>d. e = e\<lparr>ctx := (ctx e)\<lparr>dev := d\<rparr>\<rparr>" by (rule exI [of _ "dev (ctx e)"]) simp
  have [simp]: "\<exists>d'. (e\<lparr>ctx := (ctx e)\<lparr>dev := d\<rparr>\<rparr> = e\<lparr>ctx := (ctx e)\<lparr>dev := d'\<rparr>\<rparr>)" for d by blast
  have R: "\<exists>d. e\<lparr>ctx := c\<rparr> = e\<lparr>ctx := (ctx e)\<lparr>dev := d\<rparr>\<rparr>" if "reg_get cd fuel (ctx e) i = Inr (v, c)" for v c i
    using reg_get_ctx [OF that] by (auto simp: same_but_dev_def)
  note arg = attr_arg_cases [of attr] and al = attr_align_less [of attr]
  show ?thesis
    unfolding atom_get_src_int_def Let_def
    by (intro sat_if sat_bnd)
      (use arg al in \<open>auto simp: atom_skip_src_int_def atom_get_src_direct_def intro: R split: prod.split option.split\<close>)
qed

lemma get_src_int_ctx:
  assumes "atom_get_src_int cd fuel e attr ptr = Inr (v, s, ptr', e')"
  obtains d where "ptr' = atom_skip_src_int attr ptr" and "e' = e\<lparr>ctx := (ctx e)\<lparr>dev := d\<rparr>\<rparr>"
  using get_src_int_sat [of attr ptr e cd fuel] assms by (auto simp: sat_def)

text \<open>
  C23: skipping a source or a destination operand moves the pointer to where reading it moves the pointer, for every kind of operand
  and every alignment; the pointer never depends on the device.
\<close>

theorem atom_skip_matches_get:
  "(atom_get_src_int cd fuel e attr ptr = Inr (v, s, ptr', e') \<longrightarrow> ptr' = atom_skip_src_int attr ptr)
   \<and> (atom_get_dst cd fuel e arg attr ptr = Inr (v, s, ptr', e') \<longrightarrow> ptr' = atom_skip_dst arg attr ptr)"
  unfolding atom_get_dst_def atom_skip_dst_def by (metis get_src_int_ctx)

theorem atom_skip_matches_get_witness:
  "atom_get_src_int plain_card 0 (plain_exec [7] []) 0x25 0 = Inr (7, None, 1, plain_exec [7] [])
   \<and> 1 = atom_skip_src_int 0x25 0"
proof -
  have "attr_arg 0x25 = ATOM_ARG_IMM" "attr_align 0x25 = 4" by code_simp+
  then have "atom_get_src_int plain_card 0 (plain_exec [7] []) 0x25 0 = Inr (7, None, 1, plain_exec [7] [])"
    by (simp add: atom_get_src_int_def atom_get_src_direct_def plain_defs)
  with atom_skip_matches_get show ?thesis by blast
qed

section \<open>Destinations in memory\<close>

text \<open>
  The destinations that are memory: the parameter space, the work space apart from its special
  registers, and the scratch area where the bound check lets an access through.  \<open>dst_cell\<close> is the array
  and the index of such a destination.
\<close>

definition special_ws :: "u8 \<Rightarrow> bool" where
  "special_ws i \<longleftrightarrow> i \<in> {0x40, 0x41, 0x42, 0x43, 0x44, 0x45, 0x46, 0x47, 0x48}"

definition dst_cell :: "'d atom_exec_context \<Rightarrow> u8 \<Rightarrow> nat \<Rightarrow> (u32 list \<times> nat) option" where
  "dst_cell e arg ptr =
     (let i = U8 e ptr; c = ctx e in
      if arg = ATOM_ARG_PS then Some (params e, ps_off e + unat i)
      else if arg = ATOM_ARG_WS \<and> \<not> special_ws i then Some (ws e, unat i)
      else if arg = ATOM_ARG_FB \<and> \<not> fb_base c + ucast i * 4 > scratch_size_bytes c
        then Some (scratch c, unat (fb_base c div 4 + ucast i))
      else None)"

definition dst_store :: "'d atom_exec_context \<Rightarrow> u8 \<Rightarrow> u32 list \<Rightarrow> 'd atom_exec_context" where
  "dst_store e arg xs =
     (if arg = ATOM_ARG_PS then e\<lparr>params := xs\<rparr>
      else if arg = ATOM_ARG_WS then e\<lparr>ws := xs\<rparr>
      else e\<lparr>ctx := (ctx e)\<lparr>scratch := xs\<rparr>\<rparr>)"

lemma special_ws_unat:
  "\<not> special_ws i \<Longrightarrow> unat i \<notin> {0x40, 0x41, 0x42, 0x43, 0x44, 0x45, 0x46, 0x47, 0x48}"
proof
  assume n: "\<not> special_ws i" and "unat i \<in> {0x40, 0x41, 0x42, 0x43, 0x44, 0x45, 0x46, 0x47, 0x48}"
  then have "of_nat (unat i) \<in> (of_nat ` {0x40, 0x41, 0x42, 0x43, 0x44, 0x45, 0x46, 0x47, 0x48} :: u8 set)"
    by (intro imageI)
  with n show False by (simp add: special_ws_def)
qed

lemma ws_read_plain: "\<not> special_ws i \<Longrightarrow> ws_read e (unat i) = aget (ws e) (unat i)"
  using special_ws_unat [of i] by (simp add: ws_read_def Let_def)

lemma ws_write_plain:
  "\<not> special_ws i \<Longrightarrow> ws_write e (unat i) v = bnd (aput (ws e) (unat i) v) (\<lambda>w. Inr (e\<lparr>ws := w\<rparr>))"
  using special_ws_unat [of i] by (simp add: ws_write_def Let_def)

lemma dst_cell_cases:
  assumes "dst_cell e arg ptr = Some (xs, i)"
  obtains (PS) "arg = ATOM_ARG_PS" "xs = params e" "i = ps_off e + unat (U8 e ptr)"
  | (WS) "arg = ATOM_ARG_WS" "\<not> special_ws (U8 e ptr)" "xs = ws e" "i = unat (U8 e ptr)"
  | (FB) "arg = ATOM_ARG_FB" "\<not> fb_base (ctx e) + ucast (U8 e ptr) * 4 > scratch_size_bytes (ctx e)"
      "xs = scratch (ctx e)" "i = unat (fb_base (ctx e) div 4 + ucast (U8 e ptr))"
  using assms by (auto simp: dst_cell_def Let_def split: if_splits)

lemma dst_cell_arg: "dst_cell e arg ptr = Some (xs, i) \<Longrightarrow> unat arg < 8"
  by (erule dst_cell_cases) simp_all

lemma get_dst_cell:
  assumes "dst_cell e arg ptr = Some (xs, i)"
  shows "atom_get_dst cd fuel e arg attr ptr =
    bnd (aget xs i) (\<lambda>v. Inr (get_field (unat (dst_align attr)) v, Some v, ptr + 1, e))"
  using dst_attr [OF dst_cell_arg [OF assms], of attr] unfolding atom_get_dst_def
  by (rule_tac dst_cell_cases [OF assms]) (simp_all add: atom_get_src_int_def ws_read_plain fb_read_def)

lemma put_dst_cell:
  assumes "dst_cell e arg ptr = Some (xs, i)" and "i < length xs"
  shows "atom_put_dst cd fuel e arg attr ptr v (Some s) =
    Inr (dst_store e arg (xs[i := put_field (unat (dst_align attr)) s v]))"
proof -
  show ?thesis using assms(1)
  proof (cases rule: dst_cell_cases)
    case PS
    then show ?thesis using assms(2) by (simp add: atom_put_dst_def dst_store_def aput_def)
  next
    case WS
    then show ?thesis using assms(2) by (simp add: atom_put_dst_def dst_store_def aput_def ws_write_plain)
  next
    case FB
    then show ?thesis using assms(2)
      by (simp add: atom_put_dst_def dst_store_def aput_def fb_write_def Let_def)
  qed
qed

lemma dst_cell_store:
  assumes "dst_cell e arg ptr = Some (xs, i)"
  shows "dst_cell (dst_store e arg ys) arg ptr = Some (ys, i)"
  using assms by (cases rule: dst_cell_cases) (simp_all add: dst_cell_def dst_store_def)

text \<open>
  C22: a destination in the parameter space, the work space or the scratch area behaves as a memory cell.  Once it has
  been read, writing a value with what was saved puts the low bits of the value into the field the operand
  selects: reading the destination again gives them back, and the bits outside of the field are as before.
\<close>

theorem atom_put_dst_get_dst:
  assumes "dst_cell e arg ptr = Some (xs, i)"
    and "atom_get_dst cd fuel e arg attr ptr = Inr (dst, saved, ptr', e1)"
  shows "\<exists>s s' e2. saved = Some s \<and> dst = get_field (unat (dst_align attr)) s
    \<and> atom_put_dst cd fuel e1 arg attr ptr val saved = Inr e2
    \<and> atom_get_dst cd fuel e2 arg attr ptr = Inr (take_bit (field_width (unat (dst_align attr))) val, Some s', ptr', e2)
    \<and> s' AND NOT (atom_arg_mask ! unat (dst_align attr)) = s AND NOT (atom_arg_mask ! unat (dst_align attr))"
proof -
  note al = dst_align_less [of attr]
  from assms(2) have i: "i < length xs" and r: "saved = Some (xs ! i)" "dst = get_field (unat (dst_align attr)) (xs ! i)"
    "ptr' = ptr + 1" "e1 = e"
    unfolding get_dst_cell [OF assms(1)] by (auto simp: aget_def split: if_splits)
  let ?s' = "put_field (unat (dst_align attr)) (xs ! i) val"
  let ?e2 = "dst_store e arg (xs[i := ?s'])"
  have "atom_get_dst cd fuel ?e2 arg attr ptr =
    Inr (take_bit (field_width (unat (dst_align attr))) val, Some ?s', ptr + 1, ?e2)"
    unfolding get_dst_cell [OF dst_cell_store [OF assms(1)]] using i by (simp add: aget_def get_put_field [OF al])
  then show ?thesis
    using put_dst_cell [OF assms(1) i] put_field_other [OF al] r by blast
qed

theorem atom_put_dst_get_dst_witness:
  "\<exists>s s' e2. Some 0x11223344 = Some s \<and> 0x33 = get_field (unat (dst_align 0x60)) s
    \<and> atom_put_dst plain_card 0 (plain_exec [0] [0x11223344]) ATOM_ARG_PS 0x60 0 0x1AB (Some 0x11223344) = Inr e2
    \<and> atom_get_dst plain_card 0 e2 ATOM_ARG_PS 0x60 0
        = Inr (take_bit (field_width (unat (dst_align 0x60))) 0x1AB, Some s', 1, e2)
    \<and> s' AND NOT (atom_arg_mask ! unat (dst_align 0x60)) = s AND NOT (atom_arg_mask ! unat (dst_align 0x60))"
proof (rule atom_put_dst_get_dst)
  show c: "dst_cell (plain_exec [0] [0x11223344]) ATOM_ARG_PS 0 = Some ([0x11223344], 0)"
    by (simp add: dst_cell_def plain_defs)
  have "get_field (unat (dst_align 0x60)) 0x11223344 = 0x33" by code_simp
  then show "atom_get_dst plain_card 0 (plain_exec [0] [0x11223344]) ATOM_ARG_PS 0x60 0
      = Inr (0x33, Some 0x11223344, 1, plain_exec [0] [0x11223344])"
    by (simp add: get_dst_cell [OF c] aget_def)
qed

section \<open>Arithmetic\<close>

lemma dst_cell_dev [simp]: "dst_cell (e\<lparr>ctx := (ctx e)\<lparr>dev := d\<rparr>\<rparr>) arg ptr = dst_cell e arg ptr"
  by (simp add: dst_cell_def Let_def)

text \<open>The state after a value has been put into the field of a memory destination.\<close>

definition dst_put :: "'d atom_exec_context \<Rightarrow> u8 \<Rightarrow> u8 \<Rightarrow> nat \<Rightarrow> u32 \<Rightarrow> 'd atom_exec_context \<Rightarrow> bool" where
  "dst_put e arg attr ptr val e' \<longleftrightarrow>
     (\<exists>xs ys i. dst_cell e arg ptr = Some (xs, i) \<and> dst_cell e' arg ptr = Some (ys, i) \<and> e' = dst_store e arg ys
      \<and> length ys = length xs \<and> (\<forall>j. j \<noteq> i \<longrightarrow> ys ! j = xs ! j)
      \<and> get_field (unat (dst_align attr)) (ys ! i) = take_bit (field_width (unat (dst_align attr))) val
      \<and> ys ! i AND NOT (atom_arg_mask ! unat (dst_align attr)) = xs ! i AND NOT (atom_arg_mask ! unat (dst_align attr)))"

lemma dst_put_cell:
  assumes "dst_cell e arg ptr = Some (xs, i)" and "i < length xs"
    and "s AND NOT (atom_arg_mask ! unat (dst_align attr)) = xs ! i AND NOT (atom_arg_mask ! unat (dst_align attr))"
  shows "dst_put e arg attr ptr v (dst_store e arg (xs[i := put_field (unat (dst_align attr)) s v]))"
  unfolding dst_put_def
  using assms dst_cell_store [OF assms(1)] get_put_field [OF dst_align_less] put_field_other [OF dst_align_less]
  by auto

lemma op_binary_cell:
  assumes "dst_cell e arg (Suc ptr) = Some (xs, i)" and "i < length xs"
    and "atom_get_src cd fuel e (U8 e ptr) (Suc (Suc ptr)) = Inr (src, ptr', e1)"
  shows "\<exists>e2. op_binary f cd fuel e ptr arg = Inr (ptr', e2) \<and>
    dst_put e1 arg (U8 e ptr) (Suc ptr) (f (get_field (unat (dst_align (U8 e ptr))) (xs ! i)) src) e2"
proof -
  obtain d where e1: "e1 = e\<lparr>ctx := (ctx e)\<lparr>dev := d\<rparr>\<rparr>"
    using assms(3) by (auto simp: atom_get_src_def bnd_Inr_iff elim: get_src_int_ctx)
  have c1: "dst_cell e1 arg (Suc ptr) = Some (xs, i)" unfolding e1 dst_cell_dev by (rule assms(1))
  have "U8 e1 ptr = U8 e ptr" by (simp add: e1)
  then show ?thesis
    using assms dst_put_cell [OF c1 assms(2) refl]
    by (simp add: op_binary_def Let_def get_dst_cell [OF assms(1)] put_dst_cell [OF c1 assms(2)] aget_def)
qed

lemma op_move_cell:
  assumes "dst_cell e arg (Suc ptr) = Some (xs, i)" and "i < length xs"
    and "atom_get_src cd fuel e (U8 e ptr) (Suc (Suc ptr)) = Inr (src, ptr', e1)"
  shows "\<exists>e2. atom_op_move cd fuel e ptr arg = Inr (ptr', e2) \<and> dst_put e1 arg (U8 e ptr) (Suc ptr) src e2"
proof -
  obtain d where e1: "e1 = e\<lparr>ctx := (ctx e)\<lparr>dev := d\<rparr>\<rparr>"
    using assms(3) by (auto simp: atom_get_src_def bnd_Inr_iff elim: get_src_int_ctx)
  have c1: "dst_cell e1 arg (Suc ptr) = Some (xs, i)" unfolding e1 dst_cell_dev by (rule assms(1))
  have sk: "atom_skip_dst arg (U8 e ptr) (Suc ptr) = Suc (Suc ptr)"
    using assms(1) dst_attr [OF dst_cell_arg [OF assms(1)], of "U8 e ptr"]
    by (cases rule: dst_cell_cases) (simp_all add: atom_skip_dst_def atom_skip_src_int_def)
  show ?thesis
  proof (cases "drop_bit 3 (U8 e ptr) AND 7 = 0")
    case True
    then have "dst_align (U8 e ptr) = atom_dst_to_src ! 0 ! unat (drop_bit 6 (U8 e ptr) AND 3)"
      by (simp add: dst_align_def)
    moreover have "drop_bit 6 (U8 e ptr) AND 3 \<le> (3 :: u8)" by (rule word_and_le1)
    then have "unat (drop_bit 6 (U8 e ptr) AND 3) < 4" by (simp add: word_le_nat_alt)
    moreover have "\<forall>j \<in> set [0..<4]. atom_dst_to_src ! 0 ! j = 0" by code_simp
    ultimately have "dst_align (U8 e ptr) = 0" by simp
    moreover have "NOT (atom_arg_mask ! 0) = (0 :: u32)" by code_simp
    ultimately have m: "s AND NOT (atom_arg_mask ! unat (dst_align (U8 e ptr))) = 0" for s by simp
    show ?thesis
      using assms True sk dst_put_cell [OF c1 assms(2), where s = "0xCDCDCDCD" and attr = "U8 e ptr"]
      by (simp add: atom_op_move_def put_dst_cell [OF c1 assms(2)] m)
  next
    case False
    then show ?thesis
      using assms dst_put_cell [OF c1 assms(2) refl]
      by (simp add: atom_op_move_def get_dst_cell [OF assms(1)] put_dst_cell [OF c1 assms(2)] aget_def)
  qed
qed

text \<open>
  C21: with a destination in memory and a source operand that can be read, the operations ADD, SUB, AND, OR, XOR and
  MOVE end behind their operands, put the sum, difference, conjunction, disjunction, exclusive
  disjunction or the source, modulo the width of the field, into the field of the destination, and change nothing
  else but the device the source was read from.
\<close>

theorem atom_op_arith_correct:
  assumes "dst_cell e arg (ptr + 1) = Some (xs, i)" and "i < length xs"
    and "dst = get_field (unat (dst_align (U8 e ptr))) (xs ! i)"
    and "atom_get_src cd fuel e (U8 e ptr) (ptr + 2) = Inr (src, ptr', e1)"
  shows "(\<exists>e2. atom_op_add cd fuel e ptr arg = Inr (ptr', e2) \<and> dst_put e1 arg (U8 e ptr) (ptr + 1) (dst + src) e2)
    \<and> (\<exists>e2. atom_op_sub cd fuel e ptr arg = Inr (ptr', e2) \<and> dst_put e1 arg (U8 e ptr) (ptr + 1) (dst - src) e2)
    \<and> (\<exists>e2. atom_op_and cd fuel e ptr arg = Inr (ptr', e2) \<and> dst_put e1 arg (U8 e ptr) (ptr + 1) (dst AND src) e2)
    \<and> (\<exists>e2. atom_op_or cd fuel e ptr arg = Inr (ptr', e2) \<and> dst_put e1 arg (U8 e ptr) (ptr + 1) (dst OR src) e2)
    \<and> (\<exists>e2. atom_op_xor cd fuel e ptr arg = Inr (ptr', e2) \<and> dst_put e1 arg (U8 e ptr) (ptr + 1) (dst XOR src) e2)
    \<and> (\<exists>e2. atom_op_move cd fuel e ptr arg = Inr (ptr', e2) \<and> dst_put e1 arg (U8 e ptr) (ptr + 1) (src) e2)"
  using assms op_binary_cell [of e arg ptr xs i cd fuel src ptr' e1] op_move_cell [of e arg ptr xs i cd fuel src ptr' e1]
  unfolding atom_op_add_def atom_op_sub_def atom_op_and_def atom_op_or_def atom_op_xor_def
  by simp

theorem atom_op_arith_correct_witness:
  "\<exists>e2. atom_op_add plain_card 0 (plain_exec [0x25, 0, 7] [40]) 0 ATOM_ARG_PS = Inr (3, e2) \<and>
     dst_put (plain_exec [0x25, 0, 7] [40]) ATOM_ARG_PS 0x25 1 (40 + 7) e2"
proof -
  let ?e = "plain_exec [0x25, 0, 7] [40]"
  have "dst_cell ?e ATOM_ARG_PS (0 + 1) = Some ([40], 0)" by (simp add: dst_cell_def plain_defs)
  moreover have u: "U8 ?e 0 = 0x25" by (simp add: plain_defs)
  moreover have "get_field (unat (dst_align 0x25)) 40 = 40" by code_simp
  moreover have "attr_arg 0x25 = ATOM_ARG_IMM" "attr_align 0x25 = 4" by code_simp+
  then have "atom_get_src plain_card 0 ?e 0x25 (0 + 2) = Inr (7, 3, ?e)"
    by (simp add: atom_get_src_def atom_get_src_int_def atom_get_src_direct_def plain_defs)
  ultimately show ?thesis using atom_op_arith_correct [of ?e ATOM_ARG_PS 0 "[40]" 0 40 plain_card 0 7 3 ?e] by simp
qed

section \<open>Indirect I/O methods\<close>

text \<open>A computation that does not run out of fuel.\<close>

definition ends :: "trap + 'a \<Rightarrow> bool" where
  "ends r \<longleftrightarrow> r \<noteq> Inl Out_of_fuel"

lemma ends_simps [simp]: "ends (Inr x)" "ends (Inl t) = (t \<noteq> Out_of_fuel)"
  by (simp_all add: ends_def)

lemma ends_bnd: "ends r \<Longrightarrow> (\<And>x. r = Inr x \<Longrightarrow> ends (f x)) \<Longrightarrow> ends (bnd r f)"
  by (cases r) simp_all

lemma ends_shifts [simp]: "ends (Atom.shl x n)" "ends (Atom.shr x n)" "ends (low_mask b)"
  by (simp_all add: Atom.shl_def Atom.shr_def low_mask_def)

lemma ends_iio_move [simp]: "ends (iio_move c base tmp v)"
  unfolding iio_move_def by (intro ends_bnd) simp_all

lemma aget_iio_len:
  assumes "aget atom_iio_len (unat (op :: u8)) = Inr n"
  shows "op \<in> {0, 4, 5, 2, 3} \<Longrightarrow> n = (if op = 0 then 1 else 3)" and "op \<in> {6, 7, 8} \<Longrightarrow> n = 4"
  using assms by (auto simp: aget_def atom_iio_len_def split: if_splits)

lemma ends_iio_loop:
  "iio_skip fuel c base = Inr fin \<Longrightarrow> bios c' = bios c \<Longrightarrow> ends (iio_loop cd fuel c' base idx data tmp)"
proof (induction fuel arbitrary: base c' tmp)
  case (Suc fuel)
  let ?op = "CU8 c base"
  show ?case
  proof (cases "?op = 9")
    case True
    then show ?thesis using Suc.prems by simp
  next
    case False
    then obtain n where n: "aget atom_iio_len (unat ?op) = Inr n" and sk: "iio_skip fuel c (base + n) = Inr fin"
      using Suc.prems(1) by (auto simp: bnd_Inr_iff)
    note IH = Suc.IH [OF sk] and len = aget_iio_len [OF n]
    show ?thesis
      unfolding iio_loop.simps Let_def Suc.prems(2)
      using Suc.prems(2) len IH by (auto intro!: ends_bnd split: prod.split)
  qed
qed simp

lemma iio_skip_mono: "iio_skip n c base = Inr fin \<Longrightarrow> n \<le> m \<Longrightarrow> iio_skip m c base = Inr fin"
proof (induction n arbitrary: base m)
  case (Suc n)
  then obtain k where m: "m = Suc k" and "n \<le> k" by (cases m) auto
  with Suc show ?case by (auto simp: bnd_Inr_iff split: if_splits)
qed simp

lemma iio_skip_end: "iio_skip n c base = Inr fin \<Longrightarrow> base \<le> fin \<and> CU8 c fin = 9"
  by (induction n arbitrary: base) (auto simp: bnd_Inr_iff dest: add_leD1 split: if_splits)

lemma iio_skip_bios: "bios c' = bios c \<Longrightarrow> iio_skip n c' base = iio_skip n c base"
  by (induction n arbitrary: base) (auto intro: arg_cong2 [of _ _ _ _ bnd])

text \<open>Every method of the table starts a run of opcodes that comes to its end.\<close>

definition iio_ok :: "nat \<Rightarrow> 'd atom_context \<Rightarrow> bool" where
  "iio_ok n c \<longleftrightarrow> (\<forall>m \<in> set (iio c). m \<noteq> 0 \<longrightarrow> (\<exists>fin. iio_skip n c (unat m) = Inr fin))"

lemma index_loop_ok:
  assumes "index_loop fuel c base = Inr c'" and "iio_ok n c" and "fuel \<le> n" and "\<forall>a \<ge> 65536. bios c a = 0"
  shows "iio_ok n c' \<and> bios c' = bios c"
  using assms
proof (induction fuel arbitrary: c base)
  case (Suc fuel)
  show ?case
  proof (cases "CU8 c base = 1")
    case True
    then obtain t fin where t: "aput (iio c) (unat (CU8 c (base + 1))) (of_nat (base + 2)) = Inr t"
      and sk: "iio_skip fuel c (base + 2) = Inr fin"
      and l: "index_loop fuel (c\<lparr>iio := t\<rparr>) (fin + 3) = Inr c'"
      using Suc.prems(1) by (auto simp: bnd_Inr_iff)
    have "\<not> fin \<ge> 65536" using iio_skip_end [OF sk] Suc.prems(4) by (auto simp: get_u8_def)
    then have "base + 2 < 65536" using iio_skip_end [OF sk] by linarith
    then have u: "unat (of_nat (base + 2) :: u16) = base + 2" by (intro unat_of_nat_small) simp
    have "iio_skip n c (base + 2) = Inr fin" using iio_skip_mono [OF sk] Suc.prems(3) by simp
    with t u have "iio_ok n (c\<lparr>iio := t\<rparr>)"
      using Suc.prems(2) iio_skip_bios [of "c\<lparr>iio := t\<rparr>" c n]
      by (auto simp: iio_ok_def aput_def split: if_splits dest!: set_update_subset_insert [THEN subsetD])
    with Suc.IH [OF l] Suc.prems(3,4) show ?thesis by simp
  qed (use Suc.prems in simp)
qed simp

text \<open>
  C24: for a BIOS image of at most 64 KiB, every indirect I/O method that \<^verbatim>\<open>atom_index_iio\<close> enters
  into its table terminates when \<^verbatim>\<open>atom_iio_execute\<close> runs it, with every operand, in every state of
  the device.
\<close>

theorem atom_iio_execute_terminates:
  assumes "\<forall>a \<ge> 65536. bios c a = 0"
    and "atom_index_iio cd fuel c base = Inr c'"
    and "k < length (iio c')" and "iio c' ! k \<noteq> 0"
    and "bios c'' = bios c"
  shows "atom_iio_execute cd fuel c'' (unat (iio c' ! k)) idx data \<noteq> Inl Out_of_fuel"
proof -
  have "iio_ok fuel c' \<and> bios c' = bios c"
    using assms(1-3) index_loop_ok [of fuel "c\<lparr>iio := replicate 256 0\<rparr>" base c' fuel]
    by (auto simp: atom_index_iio_def iio_ok_def split: if_splits)
  then obtain fin where "iio_skip fuel c' (unat (iio c' ! k)) = Inr fin" and "bios c'' = bios c'"
    using assms(3-5) by (auto simp: iio_ok_def)
  from ends_iio_loop [OF this] show ?thesis by (simp add: atom_iio_execute_def ends_def)
qed

theorem atom_iio_execute_terminates_witness:
  "atom_iio_execute plain_card (Suc (Suc (Suc 0))) (plain_ctx [1, 2, 2, 0, 0, 9, 0, 0, 0]) 2 0 0 \<noteq> Inl Out_of_fuel"
proof -
  let ?c = "plain_ctx [1, 2, 2, 0, 0, 9, 0, 0, 0]"
  let ?c' = "?c\<lparr>iio := (replicate 256 0)[2 := 2]\<rparr>"
  have "atom_index_iio plain_card (Suc (Suc (Suc 0))) ?c 0 = Inr ?c'"
    by (simp add: atom_index_iio_def plain_defs aput_def aget_def atom_iio_len_def)
  moreover have "\<forall>a \<ge> 65536. bios ?c a = 0" by (simp add: plain_defs)
  ultimately show ?thesis
    using atom_iio_execute_terminates [of ?c plain_card "Suc (Suc (Suc 0))" 0 ?c' 2 ?c 0 0] by simp
qed

section \<open>The scratch area\<close>

lemma fb_index:
  fixes b i :: u32
  assumes "unat b + 4 * unat i < 2 ^ 32"
  shows "unat (b + i * 4) = unat b + 4 * unat i" and "unat (b div 4 + i) = (unat b + 4 * unat i) div 4"
proof -
  have "unat (i * 4) = 4 * unat i" using assms by (simp add: unat_word_ariths)
  with assms show "unat (b + i * 4) = unat b + 4 * unat i" by (simp add: unat_word_ariths)
  show "unat (b div 4 + i) = (unat b + 4 * unat i) div 4" using assms by (simp add: unat_word_ariths unat_div)
qed



section \<open>Running a table\<close>

lemma opcode_null: "\<forall>op \<in> set [1..<122]. fst (opcode_table ! op) \<noteq> F_null" "fst (opcode_table ! 122) = F_null"
  by code_simp+

text \<open>
  C27: the loop over a table stops with success at the opcode 0 and at opcodes from 123 on; it calls a function of the
  opcode table for the opcodes 1 to 121; but for the opcode 122, which the check against \<^verbatim>\<open>ATOM_OP_CNT\<close> lets through, the table
  has no entry, and the call is a call of a null pointer.
\<close>

theorem atom_opcode_122_null_call:
  assumes "\<not> abort e" and "op = unat (U8 e ptr)"
  shows "(op = 0 \<or> op > 122 \<longrightarrow> run_loop cd (Suc fuel) e ptr = Inr (None, e))
    \<and> (op = 122 \<longrightarrow> run_loop cd (Suc fuel) e ptr = Inl Null_call)
    \<and> (0 < op \<and> op < 122 \<longrightarrow> fst (opcode_table ! op) \<noteq> F_null)"
proof -
  obtain arg where "opcode_table ! 122 = (F_null, arg)" using opcode_null(2) by (metis prod.collapse)
  with assms opcode_null(1) show ?thesis
    by (auto simp: ATOM_OP_CNT_def call_op_def Let_def)
qed

theorem atom_opcode_122_null_call_witness:
  "run_loop plain_card 1 (plain_exec [122] []) 0 = Inl Null_call \<and> fst (opcode_table ! 1) \<noteq> F_null"
  using atom_opcode_122_null_call [of "plain_exec [122] []" 122 0 plain_card 0]
    atom_opcode_122_null_call [of "plain_exec [1] []" 1 0 plain_card 0]
  by (simp add: plain_exec_def plain_ctx_def rom_def get_u8_def del: run_loop.simps)

text \<open>The device after \<open>n\<close> readings of the clock, and the reading that follows.\<close>

fun clock_dev :: "'d card_info \<Rightarrow> 'd \<Rightarrow> nat \<Rightarrow> 'd" where
  "clock_dev cd d 0 = d"
| "clock_dev cd d (Suc n) = snd (jiffies cd (clock_dev cd d n))"

definition clock :: "'d card_info \<Rightarrow> 'd \<Rightarrow> nat \<Rightarrow> ulong" where
  "clock cd d n = fst (jiffies cd (clock_dev cd d n))"

definition spinning :: "'d card_info \<Rightarrow> 'd atom_exec_context \<Rightarrow> nat \<Rightarrow> nat \<Rightarrow> 'd atom_exec_context" where
  "spinning cd e ptr n = e\<lparr>ctx := (ctx e)\<lparr>dev := clock_dev cd (dev (ctx e)) n\<rparr>,
     last_jump := ptr, last_jump_jiffies := clock cd (dev (ctx e)) 0\<rparr>"

definition self_jump :: "'d atom_exec_context \<Rightarrow> nat \<Rightarrow> bool" where
  "self_jump e ptr \<longleftrightarrow> U8 e ptr = 67 \<and> start_ptr e + unat (U16 e (ptr + 1)) = ptr"

lemma self_jump_step:
  assumes "self_jump e ptr" and "\<not> abort e"
  shows "run_loop cd (Suc fuel) e ptr = bnd (atom_op_jump cd fuel e (ptr + 1) 2) (\<lambda>(ptr, e). run_loop cd fuel e ptr)"
proof -
  have "opcode_table ! 67 = (F_jump, 2)" by code_simp
  with assms show ?thesis by (simp add: self_jump_def ATOM_OP_CNT_def call_op_def)
qed

lemma spinning_first:
  assumes "self_jump e ptr" and "\<not> abort e" and "last_jump e \<noteq> ptr"
  shows "run_loop cd (Suc fuel) e ptr = run_loop cd fuel (spinning cd e ptr 1) ptr"
  using assms unfolding self_jump_step [OF assms(1,2)]
  by (simp add: atom_op_jump_def jump_taken_def self_jump_def spinning_def clock_def Let_def split: prod.split)

lemma spinning_step:
  assumes "self_jump e ptr" and "\<not> abort e"
    and "time_after (clock cd (dev (ctx e)) n) (clock cd (dev (ctx e)) 0)"
  shows "run_loop cd (Suc fuel) (spinning cd e ptr n) ptr =
    (if jiffies_to_msecs cd (clock cd (dev (ctx e)) n - clock cd (dev (ctx e)) 0) > 5000
     then run_loop cd fuel (spinning cd e ptr (Suc n)\<lparr>abort := True\<rparr>) ptr
     else run_loop cd fuel (spinning cd e ptr (Suc n)) ptr)"
proof -
  have "self_jump (spinning cd e ptr n) ptr" and "\<not> abort (spinning cd e ptr n)"
    using assms(1,2) by (simp_all add: self_jump_def spinning_def)
  note step = self_jump_step [OF this]
  have o: "e\<lparr>ctx := c, last_jump := l, last_jump_jiffies := j\<rparr> = e\<lparr>last_jump := l, last_jump_jiffies := j, ctx := c\<rparr>"
    for c l j by (cases e) simp
  obtain j d where jd: "jiffies cd (clock_dev cd (dev (ctx e)) n) = (j, d)" by force
  show ?thesis
    using assms unfolding step
    by (simp add: o jd atom_op_jump_def jump_taken_def self_jump_def spinning_def clock_def Let_def split: prod.split)
qed

lemma run_loop_abort: "abort e \<Longrightarrow> run_loop cd (Suc fuel) e ptr = Inr (Some EINVAL, e)"
  by simp

lemma spinning_ends:
  assumes "self_jump e ptr" and "\<not> abort e" and "n \<le> N"
    and "\<forall>k. 0 < k \<and> k \<le> N \<longrightarrow> time_after (clock cd (dev (ctx e)) k) (clock cd (dev (ctx e)) 0)"
    and "jiffies_to_msecs cd (clock cd (dev (ctx e)) N - clock cd (dev (ctx e)) 0) > 5000" and "0 < n"
  shows "\<exists>e'. run_loop cd (N - n + 2) (spinning cd e ptr n) ptr = Inr (Some EINVAL, e')"
  using assms(3,6)
proof (induction "N - n" arbitrary: n)
  case 0
  then have "n = N" by simp
  with 0 spinning_step [OF assms(1,2), of cd N "Suc 0"] assms(4,5) show ?case
    by (simp add: run_loop_abort del: run_loop.simps)
next
  case (Suc k)
  then have t: "time_after (clock cd (dev (ctx e)) n) (clock cd (dev (ctx e)) 0)" using assms(4) by simp
  have f: "N - n + 2 = Suc (Suc (Suc k))" "N - Suc n + 2 = Suc (Suc k)" using Suc(2) by simp_all
  from Suc(1) [of "Suc n"] Suc(2-4) f(2) show ?case
    unfolding f(1) spinning_step [OF assms(1,2) t] by (simp add: run_loop_abort del: run_loop.simps)
qed



end
