(* ===== verification/Dp_Mst_Msg.thy ===== *)
theory Dp_Mst_Msg
  imports Drm_Prelude
begin

unbundle bit_operations_syntax

text \<open>
  The sideband messages of DisplayPort multi-stream transport, \<^verbatim>\<open>drm_dp_mst_topology.c\<close>: the checksums,
  the encoding and decoding of message headers, the encoding of requests, the builder that puts
  received chunks together, and the parsers of replies and requests.

  A buffer the code writes from its start on is the list of the bytes written; an array it reads or
  copies into is a list of the array's size, and an access outside of it is the trap \<open>Oob\<close>.  The codes
  of the request types are those of a header outside of these sources and so an argument.
\<close>

section \<open>Checksums\<close>

text \<open>
  The loop that shifts the bits of the data in, and the loop that shifts zeros in, for the four-bit checksum
  of a header and for the eight-bit checksum of the data.
\<close>

fun header_crc_in :: "nat \<Rightarrow> u8 list \<Rightarrow> u8 \<Rightarrow> u8 \<Rightarrow> u8 \<Rightarrow> u8 \<Rightarrow> trap + u8" where
  "header_crc_in 0 data bitmask bitshift array_index remainder = Inr remainder"
| "header_crc_in (Suc n) data bitmask bitshift array_index remainder =
     bnd (aget data (unat array_index)) (\<lambda>d.
       let remainder = push_bit 1 remainder OR drop_bit (unat bitshift) (d AND bitmask);
           bitmask = drop_bit 1 bitmask;
           bitshift = bitshift - 1;
           (bitmask, bitshift, array_index) =
             (if bitmask = 0 then (0x80, 7, array_index + 1) else (bitmask, bitshift, array_index));
           remainder = (if remainder AND 0x10 = 0x10 then remainder XOR 0x13 else remainder)
       in header_crc_in n data bitmask bitshift array_index remainder)"

fun header_crc_out :: "nat \<Rightarrow> u8 \<Rightarrow> u8" where
  "header_crc_out 0 remainder = remainder"
| "header_crc_out (Suc n) remainder =
     (let remainder = push_bit 1 remainder
      in header_crc_out n (if remainder AND 0x10 \<noteq> 0 then remainder XOR 0x13 else remainder))"

definition drm_dp_msg_header_crc4 :: "u8 list \<Rightarrow> nat \<Rightarrow> trap + u8" where
  "drm_dp_msg_header_crc4 data num_nibbles =
     bnd (header_crc_in (num_nibbles * 4) data 0x80 7 0 0) (\<lambda>r. Inr (header_crc_out 4 r))"

fun data_crc_in :: "nat \<Rightarrow> u8 list \<Rightarrow> u8 \<Rightarrow> u8 \<Rightarrow> u8 \<Rightarrow> u16 \<Rightarrow> trap + u16" where
  "data_crc_in 0 data bitmask bitshift array_index remainder = Inr remainder"
| "data_crc_in (Suc n) data bitmask bitshift array_index remainder =
     bnd (aget data (unat array_index)) (\<lambda>d.
       let remainder = push_bit 1 remainder OR ucast (drop_bit (unat bitshift) (d AND bitmask));
           bitmask = drop_bit 1 bitmask;
           bitshift = bitshift - 1;
           (bitmask, bitshift, array_index) =
             (if bitmask = 0 then (0x80, 7, array_index + 1) else (bitmask, bitshift, array_index));
           remainder = (if remainder AND 0x100 = 0x100 then remainder XOR 0xD5 else remainder)
       in data_crc_in n data bitmask bitshift array_index remainder)"

fun data_crc_out :: "nat \<Rightarrow> u16 \<Rightarrow> u16" where
  "data_crc_out 0 remainder = remainder"
| "data_crc_out (Suc n) remainder =
     (let remainder = push_bit 1 remainder
      in data_crc_out n (if remainder AND 0x100 \<noteq> 0 then remainder XOR 0xD5 else remainder))"

definition drm_dp_msg_data_crc4 :: "u8 list \<Rightarrow> u8 \<Rightarrow> trap + u8" where
  "drm_dp_msg_data_crc4 data number_of_bytes =
     bnd (data_crc_in (unat number_of_bytes * 8) data 0x80 7 0 0) (\<lambda>r. Inr (ucast (data_crc_out 8 r AND 0xFF)))"

section \<open>Headers\<close>

record drm_dp_sideband_msg_hdr =
  lct :: u8
  lcr :: u8
  rad :: "u8 list"
  broadcast :: bool
  path_msg :: bool
  msg_len :: u8
  somt :: bool
  eomt :: bool
  seqno :: bool

definition drm_dp_calc_sb_hdr_size :: "drm_dp_sideband_msg_hdr \<Rightarrow> u8" where
  "drm_dp_calc_sb_hdr_size hdr = 3 + lct hdr div 2"

definition drm_dp_encode_sideband_msg_hdr :: "drm_dp_sideband_msg_hdr \<Rightarrow> trap + u8 list" where
  "drm_dp_encode_sideband_msg_hdr hdr =
     bnd (aslice (rad hdr) 0 (unat (lct hdr div 2))) (\<lambda>rads.
       let b0 = push_bit 4 (lct hdr AND 0xF) OR (lcr hdr AND 0xF);
           b1 = push_bit 7 (of_bool (broadcast hdr)) OR push_bit 6 (of_bool (path_msg hdr)) OR (msg_len hdr AND 0x3F);
           b2 = push_bit 7 (of_bool (somt hdr)) OR push_bit 6 (of_bool (eomt hdr)) OR push_bit 4 (of_bool (seqno hdr));
           pre = b0 # rads @ [b1]
       in bnd (drm_dp_msg_header_crc4 (pre @ [b2]) (length (pre @ [b2]) * 2 - 1)) (\<lambda>crc4.
            Inr (pre @ [b2 OR (crc4 AND 0xF)])))"

text \<open>The decoded header and its length; none when the header is refused.\<close>

definition drm_dp_decode_sideband_msg_hdr ::
  "u8 list \<Rightarrow> nat \<Rightarrow> trap + (drm_dp_sideband_msg_hdr \<times> u8) option" where
  "drm_dp_decode_sideband_msg_hdr buf buflen =
     bnd (aget buf 0) (\<lambda>b0.
     if b0 = 0 then Inr None
     else
       let len = 3 + drop_bit 4 (b0 AND 0xF0) div 2; l = unat len in
       if l > buflen then Inr None
       else
         bnd (drm_dp_msg_header_crc4 buf (l * 2 - 1)) (\<lambda>crc4.
         bnd (aget buf (l - 1)) (\<lambda>last.
         if crc4 AND 0xF \<noteq> last AND 0xF then Inr None
         else
           let n = unat (drop_bit 4 (b0 AND 0xF0) div 2) in
           bnd (aslice buf 1 n) (\<lambda>rads.
           bnd (aget buf (1 + n)) (\<lambda>b1.
           bnd (aget buf (2 + n)) (\<lambda>b2.
             Inr (Some
               (\<lparr>lct = drop_bit 4 (b0 AND 0xF0), lcr = b0 AND 0xF, rad = rads,
                 broadcast = (drop_bit 7 b1 AND 1 \<noteq> 0), path_msg = (drop_bit 6 b1 AND 1 \<noteq> 0), msg_len = b1 AND 0x3F,
                 somt = (drop_bit 7 b2 AND 1 \<noteq> 0), eomt = (drop_bit 6 b2 AND 1 \<noteq> 0),
                 seqno = (drop_bit 4 b2 AND 1 \<noteq> 0)\<rparr>, of_nat (3 + n)))))))))"

section \<open>Requests\<close>

text \<open>The codes of the request types.\<close>

record dp_codes =
  DP_LINK_ADDRESS :: u8
  DP_CONNECTION_STATUS_NOTIFY :: u8
  DP_ENUM_PATH_RESOURCES :: u8
  DP_ALLOCATE_PAYLOAD :: u8
  DP_QUERY_PAYLOAD :: u8
  DP_RESOURCE_STATUS_NOTIFY :: u8
  DP_REMOTE_DPCD_READ :: u8
  DP_REMOTE_DPCD_WRITE :: u8
  DP_REMOTE_I2C_READ :: u8
  DP_REMOTE_I2C_WRITE :: u8

text \<open>
  The bodies of requests, one constructor for each type with a body; the types without one are
  \<open>Plain_req\<close>.  A transaction of an I2C read has the device, the number of bytes, the bytes, the stop bit
  and the delay.
\<close>

record i2c_transaction =
  i2c_dev_id :: u8
  t_num_bytes :: u8
  t_bytes :: "u8 list"
  no_stop_bit :: u8
  i2c_transaction_delay :: u8

datatype req_body =
    Plain_req u8
  | Enum_path_resources u8
  | Allocate_payload u8 u8 u8 u16 "u8 list"
  | Query_payload u8 u8
  | Dpcd_read u8 u32 u8
  | Dpcd_write u8 u32 u8 "u8 list"
  | I2c_read u8 u8 "i2c_transaction list" u8 u8
  | I2c_write u8 u8 u8 "u8 list"

fun req_type_of :: "dp_codes \<Rightarrow> req_body \<Rightarrow> u8" where
  "req_type_of k (Plain_req t) = t"
| "req_type_of k (Enum_path_resources _) = DP_ENUM_PATH_RESOURCES k"
| "req_type_of k (Allocate_payload _ _ _ _ _) = DP_ALLOCATE_PAYLOAD k"
| "req_type_of k (Query_payload _ _) = DP_QUERY_PAYLOAD k"
| "req_type_of k (Dpcd_read _ _ _) = DP_REMOTE_DPCD_READ k"
| "req_type_of k (Dpcd_write _ _ _ _) = DP_REMOTE_DPCD_WRITE k"
| "req_type_of k (I2c_read _ _ _ _ _) = DP_REMOTE_I2C_READ k"
| "req_type_of k (I2c_write _ _ _ _) = DP_REMOTE_I2C_WRITE k"

definition enc_port :: "u8 \<Rightarrow> u8" where "enc_port p = push_bit 4 (p AND 0xF)"

definition enc_addr :: "u8 \<Rightarrow> u32 \<Rightarrow> u8 list" where
  "enc_addr port addr = [enc_port port OR (ucast (drop_bit 16 (addr AND 0xF0000)) AND 0xF),
     ucast (drop_bit 8 (addr AND 0xFF00)), ucast (addr AND 0xFF)]"

text \<open>The sinks of the streams, two in a byte.\<close>

fun enc_sinks :: "u8 list \<Rightarrow> nat \<Rightarrow> nat \<Rightarrow> trap + u8 list" where
  "enc_sinks sinks i 0 = Inr []"
| "enc_sinks sinks i (Suc n) =
     bnd (aget sinks (i * 2)) (\<lambda>a. bnd (aget sinks (i * 2 + 1)) (\<lambda>b.
     bnd (enc_sinks sinks (Suc i) n) (\<lambda>r. Inr ((push_bit 4 (a AND 0xF) OR (b AND 0xF)) # r))))"

fun enc_transactions :: "i2c_transaction list \<Rightarrow> nat \<Rightarrow> nat \<Rightarrow> trap + u8 list" where
  "enc_transactions ts i 0 = Inr []"
| "enc_transactions ts i (Suc n) =
     bnd (aget ts i) (\<lambda>t. bnd (aslice (t_bytes t) 0 (unat (t_num_bytes t))) (\<lambda>bs.
     bnd (enc_transactions ts (Suc i) n) (\<lambda>r.
       Inr ([i2c_dev_id t AND 0x7F, t_num_bytes t] @ bs @
         [push_bit 5 (no_stop_bit t AND 1) OR (i2c_transaction_delay t AND 0xF)] @ r))))"

definition drm_dp_encode_sideband_req :: "dp_codes \<Rightarrow> req_body \<Rightarrow> trap + u8 list" where
  "drm_dp_encode_sideband_req k req =
     bnd (case req of
         Plain_req t \<Rightarrow> Inr []
       | Enum_path_resources port \<Rightarrow> Inr [enc_port port]
       | Allocate_payload port streams vcpi pbn sinks \<Rightarrow>
           bnd (enc_sinks sinks 0 (unat (streams div 2))) (\<lambda>s.
           bnd (if streams AND 1 \<noteq> 0 then bnd (aget sinks (unat (streams - 1))) (\<lambda>a. Inr [push_bit 4 (a AND 0xF)])
                else Inr []) (\<lambda>odd.
             Inr ([enc_port port OR (streams AND 0xF), vcpi AND 0x7F, ucast (drop_bit 8 pbn), ucast (pbn AND 0xFF)]
               @ s @ odd)))
       | Query_payload port vcpi \<Rightarrow> Inr [enc_port port, vcpi AND 0x7F]
       | Dpcd_read port addr num \<Rightarrow> Inr (enc_addr port addr @ [num])
       | Dpcd_write port addr num bytes \<Rightarrow>
           bnd (aslice bytes 0 (unat num)) (\<lambda>bs. Inr (enc_addr port addr @ [num] @ bs))
       | I2c_read port n ts dev num \<Rightarrow>
           bnd (enc_transactions ts 0 (unat (n AND 3))) (\<lambda>bs.
             Inr ([enc_port port OR (n AND 3)] @ bs @ [dev AND 0x7F, num]))
       | I2c_write port dev num bytes \<Rightarrow>
           bnd (aslice bytes 0 (unat num)) (\<lambda>bs. Inr ([enc_port port, dev AND 0x7F, num] @ bs)))
       (\<lambda>body. Inr ((req_type_of k req AND 0x7F) # body))"

text \<open>The checksum behind a chunk, and the encoding of a reply.\<close>

definition drm_dp_crc_sideband_chunk_req :: "u8 list \<Rightarrow> u8 \<Rightarrow> trap + u8 list" where
  "drm_dp_crc_sideband_chunk_req msg len = bnd (drm_dp_msg_data_crc4 msg len) (\<lambda>crc4. Inr (take (unat len) msg @ [crc4]))"

definition drm_dp_encode_sideband_reply :: "u8 \<Rightarrow> u8 \<Rightarrow> u8 list" where
  "drm_dp_encode_sideband_reply reply_type req_type = [push_bit 7 (reply_type AND 1) OR (req_type AND 0x7F)]"

definition build_dpcd_write :: "dp_codes \<Rightarrow> u8 \<Rightarrow> u32 \<Rightarrow> u8 \<Rightarrow> u8 list \<Rightarrow> trap + u8 list" where
  "build_dpcd_write k port_num offset num_bytes bytes =
     drm_dp_encode_sideband_req k (Dpcd_write port_num offset num_bytes bytes)"

definition build_link_address :: "dp_codes \<Rightarrow> trap + u8 list" where
  "build_link_address k = drm_dp_encode_sideband_req k (Plain_req (DP_LINK_ADDRESS k))"

text \<open>The two requests along the path, with the flag \<^verbatim>\<open>path_msg\<close>.\<close>

definition build_enum_path_resources :: "dp_codes \<Rightarrow> u8 \<Rightarrow> trap + u8 list \<times> bool" where
  "build_enum_path_resources k port_num =
     bnd (drm_dp_encode_sideband_req k (Enum_path_resources port_num)) (\<lambda>m. Inr (m, True))"

definition build_allocate_payload :: "dp_codes \<Rightarrow> u8 \<Rightarrow> u8 \<Rightarrow> u16 \<Rightarrow> trap + u8 list \<times> bool" where
  "build_allocate_payload k port_num vcpi pbn =
     bnd (drm_dp_encode_sideband_req k (Allocate_payload port_num 0 vcpi pbn [])) (\<lambda>m. Inr (m, True))"

section \<open>Receiving\<close>

record drm_dp_sideband_msg_rx =
  chunk :: "u8 list"
  rx_msg :: "u8 list"
  curchunk_len :: u8
  curchunk_idx :: u8
  curchunk_hdrlen :: u8
  curlen :: u8
  have_somt :: bool
  have_eomt :: bool
  initial_hdr :: drm_dp_sideband_msg_hdr

text \<open>
  The end of \<^verbatim>\<open>drm_dp_sideband_msg_build\<close>: a complete chunk is copied into the message.  A chunk length of 0 makes the
  length of the copy negative.
\<close>

definition finish_chunk :: "drm_dp_sideband_msg_rx \<Rightarrow> trap + drm_dp_sideband_msg_rx" where
  "finish_chunk msg =
     (if curchunk_idx msg \<ge> curchunk_len msg then
        bnd (drm_dp_msg_data_crc4 (chunk msg) (curchunk_len msg - 1)) (\<lambda>crc4.
        if curchunk_len msg = 0 then Inl Oob
        else
          bnd (aslice (chunk msg) 0 (unat (curchunk_len msg) - 1)) (\<lambda>bs.
          bnd (ablit (rx_msg msg) (unat (curlen msg)) bs) (\<lambda>m.
            Inr (msg\<lparr>rx_msg := m, curlen := curlen msg + curchunk_len msg - 1\<rparr>))))
      else Inr msg)"

definition drm_dp_sideband_msg_build ::
  "drm_dp_sideband_msg_rx \<Rightarrow> u8 list \<Rightarrow> u8 \<Rightarrow> bool \<Rightarrow> trap + bool \<times> drm_dp_sideband_msg_rx" where
  "drm_dp_sideband_msg_build msg replybuf replybuflen hdr =
     (if hdr then
        bnd (drm_dp_decode_sideband_msg_hdr replybuf (unat replybuflen)) (\<lambda>r.
        case r of None \<Rightarrow> Inr (False, msg)
        | Some (recv_hdr, hdrlen) \<Rightarrow>
            let msg = msg\<lparr>curchunk_len := msg_len recv_hdr, curchunk_hdrlen := hdrlen\<rparr> in
            if somt recv_hdr \<and> have_somt msg then Inr (False, msg)
            else
              let msg = (if somt recv_hdr then msg\<lparr>initial_hdr := recv_hdr, have_somt := True\<rparr> else msg);
                  msg = (if eomt recv_hdr then msg\<lparr>have_eomt := True\<rparr> else msg);
                  n = min (curchunk_len msg) (replybuflen - hdrlen)
              in bnd (aslice replybuf (unat hdrlen) (unat n)) (\<lambda>bs.
                 bnd (ablit (chunk msg) 0 bs) (\<lambda>c.
                 bnd (finish_chunk (msg\<lparr>curchunk_idx := n, chunk := c\<rparr>)) (\<lambda>msg. Inr (True, msg)))))
      else
        bnd (aslice replybuf 0 (unat replybuflen)) (\<lambda>bs.
        bnd (ablit (chunk msg) (unat (curchunk_idx msg)) bs) (\<lambda>c.
        bnd (finish_chunk (msg\<lparr>chunk := c, curchunk_idx := curchunk_idx msg + replybuflen\<rparr>)) (\<lambda>msg.
          Inr (True, msg)))))"

section \<open>Parsing\<close>

text \<open>
  A parser returns whether it succeeded and the body as far as it is filled in; \<^verbatim>\<open>memset\<close> has zeroed the rest.
  \<open>at\<close> reads a byte of the message, \<open>be16\<close> two bytes, the high one first.
\<close>

record drm_dp_link_addr_reply_port =
  input_port :: bool
  peer_device_type :: u8
  port_number :: u8
  mcs :: bool
  ddps :: bool
  legacy_device_plug_status :: bool
  dpcd_revision :: u8
  peer_guid :: "u8 list"
  num_sdp_streams :: u8
  num_sdp_stream_sinks :: u8

datatype reply_body =
    No_body
  | Nak "u8 list" u8 u8
  | Link_addr "u8 list" u8 "drm_dp_link_addr_reply_port list"
  | Query_payload_ack u8 u16
  | Dpcd_read_ack u8 u8 "u8 list"
  | Dpcd_write_ack u8
  | I2c_read_ack u8 u8 "u8 list"
  | Path_resources u8 u16 u16
  | Allocate_payload_ack u8 u8 u16

definition zero_port :: drm_dp_link_addr_reply_port where
  "zero_port = \<lparr>input_port = False, peer_device_type = 0, port_number = 0, mcs = False, ddps = False,
     legacy_device_plug_status = False, dpcd_revision = 0, peer_guid = replicate 16 0, num_sdp_streams = 0,
     num_sdp_stream_sinks = 0\<rparr>"

abbreviation at :: "drm_dp_sideband_msg_rx \<Rightarrow> nat \<Rightarrow> trap + u8" where
  "at raw idx \<equiv> aget (rx_msg raw) idx"

definition be16 :: "drm_dp_sideband_msg_rx \<Rightarrow> nat \<Rightarrow> trap + u16" where
  "be16 raw idx = bnd (at raw idx) (\<lambda>h. bnd (at raw (idx + 1)) (\<lambda>l. Inr (push_bit 8 (ucast h) OR ucast l)))"

abbreviation past :: "drm_dp_sideband_msg_rx \<Rightarrow> nat \<Rightarrow> bool" where
  "past raw idx \<equiv> idx > unat (curlen raw)"

text \<open>One port of a link address reply: success, the port, and the index behind it.\<close>

definition parse_link_port ::
  "drm_dp_sideband_msg_rx \<Rightarrow> nat \<Rightarrow> trap + bool \<times> drm_dp_link_addr_reply_port \<times> nat" where
  "parse_link_port raw idx =
     bnd (at raw idx) (\<lambda>b.
       let p = zero_port\<lparr>input_port := (b AND 0x80 \<noteq> 0), peer_device_type := drop_bit 4 b AND 7, port_number := b AND 0xF\<rparr>;
           idx = idx + 1
       in if past raw idx then Inr (False, p, idx)
       else bnd (at raw idx) (\<lambda>b.
         let p = p\<lparr>mcs := (drop_bit 7 b AND 1 \<noteq> 0), ddps := (drop_bit 6 b AND 1 \<noteq> 0)\<rparr>;
             p = (if \<not> input_port p then p\<lparr>legacy_device_plug_status := (drop_bit 5 b AND 1 \<noteq> 0)\<rparr> else p);
             idx = idx + 1
         in if past raw idx then Inr (False, p, idx)
         else if input_port p then Inr (True, p, idx)
         else bnd (at raw idx) (\<lambda>b.
           let p = p\<lparr>dpcd_revision := b\<rparr>; idx = idx + 1
           in if past raw idx then Inr (False, p, idx)
           else bnd (aslice (rx_msg raw) idx 16) (\<lambda>g.
             let p = p\<lparr>peer_guid := g\<rparr>; idx = idx + 16
             in if past raw idx then Inr (False, p, idx)
             else bnd (at raw idx) (\<lambda>b.
               let p = p\<lparr>num_sdp_streams := drop_bit 4 b AND 0xF, num_sdp_stream_sinks := b AND 0xF\<rparr>; idx = idx + 1
               in Inr (\<not> past raw idx, p, idx))))))"

fun parse_link_ports ::
  "drm_dp_sideband_msg_rx \<Rightarrow> nat \<Rightarrow> nat \<Rightarrow> trap + bool \<times> drm_dp_link_addr_reply_port list" where
  "parse_link_ports raw 0 idx = Inr (True, [])"
| "parse_link_ports raw (Suc n) idx =
     bnd (parse_link_port raw idx) (\<lambda>(ok, p, idx).
       if ok then bnd (parse_link_ports raw n idx) (\<lambda>(ok, ps). Inr (ok, p # ps)) else Inr (False, [p]))"

definition drm_dp_sideband_parse_link_address :: "drm_dp_sideband_msg_rx \<Rightarrow> trap + bool \<times> reply_body" where
  "drm_dp_sideband_parse_link_address raw =
     bnd (aslice (rx_msg raw) 1 16) (\<lambda>guid.
     bnd (at raw 17) (\<lambda>b.
       let nports = b AND 0xF
       in if past raw 18 then Inr (False, Link_addr guid nports [])
          else bnd (parse_link_ports raw (unat nports) 18) (\<lambda>(ok, ps). Inr (ok, Link_addr guid nports ps))))"

definition drm_dp_sideband_parse_remote_dpcd_read :: "drm_dp_sideband_msg_rx \<Rightarrow> trap + bool \<times> reply_body" where
  "drm_dp_sideband_parse_remote_dpcd_read raw =
     bnd (at raw 1) (\<lambda>b.
       let port = b AND 0xF
       in if past raw 2 then Inr (False, Dpcd_read_ack port 0 [])
          else bnd (at raw 2) (\<lambda>num. bnd (aslice (rx_msg raw) 2 (unat num)) (\<lambda>bytes.
            Inr (True, Dpcd_read_ack port num bytes))))"

definition drm_dp_sideband_parse_remote_dpcd_write :: "drm_dp_sideband_msg_rx \<Rightarrow> trap + bool \<times> reply_body" where
  "drm_dp_sideband_parse_remote_dpcd_write raw =
     bnd (at raw 1) (\<lambda>b. Inr (\<not> past raw 2, Dpcd_write_ack (b AND 0xF)))"

definition drm_dp_sideband_parse_remote_i2c_read_ack :: "drm_dp_sideband_msg_rx \<Rightarrow> trap + bool \<times> reply_body" where
  "drm_dp_sideband_parse_remote_i2c_read_ack raw =
     bnd (at raw 1) (\<lambda>b.
       let port = b AND 0xF
       in if past raw 2 then Inr (False, I2c_read_ack port 0 [])
          else bnd (at raw 2) (\<lambda>num. bnd (aslice (rx_msg raw) 3 (unat num)) (\<lambda>bytes.
            Inr (True, I2c_read_ack port num bytes))))"

definition drm_dp_sideband_parse_enum_path_resources_ack :: "drm_dp_sideband_msg_rx \<Rightarrow> trap + bool \<times> reply_body" where
  "drm_dp_sideband_parse_enum_path_resources_ack raw =
     bnd (at raw 1) (\<lambda>b.
       let port = drop_bit 4 b AND 0xF
       in if past raw 2 then Inr (False, Path_resources port 0 0)
          else bnd (be16 raw 2) (\<lambda>full.
            if past raw 4 then Inr (False, Path_resources port full 0)
            else bnd (be16 raw 4) (\<lambda>avail. Inr (\<not> past raw 6, Path_resources port full avail))))"

definition drm_dp_sideband_parse_allocate_payload_ack :: "drm_dp_sideband_msg_rx \<Rightarrow> trap + bool \<times> reply_body" where
  "drm_dp_sideband_parse_allocate_payload_ack raw =
     bnd (at raw 1) (\<lambda>b.
       let port = drop_bit 4 b AND 0xF
       in if past raw 2 then Inr (False, Allocate_payload_ack port 0 0)
          else bnd (at raw 2) (\<lambda>vcpi.
            if past raw 3 then Inr (False, Allocate_payload_ack port vcpi 0)
            else bnd (be16 raw 3) (\<lambda>pbn. Inr (\<not> past raw 5, Allocate_payload_ack port vcpi pbn))))"

definition drm_dp_sideband_parse_query_payload_ack :: "drm_dp_sideband_msg_rx \<Rightarrow> trap + bool \<times> reply_body" where
  "drm_dp_sideband_parse_query_payload_ack raw =
     bnd (at raw 1) (\<lambda>b.
       let port = drop_bit 4 b AND 0xF
       in if past raw 2 then Inr (False, Query_payload_ack port 0)
          else bnd (be16 raw 2) (\<lambda>pbn. Inr (\<not> past raw 4, Query_payload_ack port pbn)))"

record drm_dp_sideband_msg_reply_body =
  reply_type :: u8
  req_type :: u8
  reply_u :: reply_body

definition drm_dp_sideband_parse_reply ::
  "dp_codes \<Rightarrow> drm_dp_sideband_msg_rx \<Rightarrow> trap + bool \<times> drm_dp_sideband_msg_reply_body" where
  "drm_dp_sideband_parse_reply k raw =
     bnd (at raw 0) (\<lambda>b.
       let rep = drop_bit 7 (b AND 0x80); req = b AND 0x7F;
           fin = (\<lambda>(ok, u). Inr (ok, \<lparr>reply_type = rep, req_type = req, reply_u = u\<rparr>))
       in if rep \<noteq> 0 then
            bnd (aslice (rx_msg raw) 1 16) (\<lambda>guid. bnd (at raw 17) (\<lambda>reason. bnd (at raw 18) (\<lambda>d.
              fin (False, Nak guid reason d))))
          else if req = DP_LINK_ADDRESS k then bnd (drm_dp_sideband_parse_link_address raw) fin
          else if req = DP_QUERY_PAYLOAD k then bnd (drm_dp_sideband_parse_query_payload_ack raw) fin
          else if req = DP_REMOTE_DPCD_READ k then bnd (drm_dp_sideband_parse_remote_dpcd_read raw) fin
          else if req = DP_REMOTE_DPCD_WRITE k then bnd (drm_dp_sideband_parse_remote_dpcd_write raw) fin
          else if req = DP_REMOTE_I2C_READ k then bnd (drm_dp_sideband_parse_remote_i2c_read_ack raw) fin
          else if req = DP_ENUM_PATH_RESOURCES k then bnd (drm_dp_sideband_parse_enum_path_resources_ack raw) fin
          else if req = DP_ALLOCATE_PAYLOAD k then bnd (drm_dp_sideband_parse_allocate_payload_ack raw) fin
          else fin (False, No_body))"

text \<open>The requests the driver receives.\<close>

record conn_stat =
  cs_port_number :: u8
  cs_guid :: "u8 list"
  cs_legacy_device_plug_status :: bool
  cs_displayport_device_plug_status :: bool
  cs_message_capability_status :: bool
  cs_input_port :: bool
  cs_peer_device_type :: u8

datatype up_body = No_up | Conn_stat conn_stat | Resource_stat u8 "u8 list" u16

definition drm_dp_sideband_parse_connection_status_notify :: "drm_dp_sideband_msg_rx \<Rightarrow> trap + bool \<times> up_body" where
  "drm_dp_sideband_parse_connection_status_notify raw =
     bnd (at raw 1) (\<lambda>b.
       let s = \<lparr>cs_port_number = drop_bit 4 (b AND 0xF0), cs_guid = replicate 16 0, cs_legacy_device_plug_status = False,
             cs_displayport_device_plug_status = False, cs_message_capability_status = False, cs_input_port = False,
             cs_peer_device_type = 0\<rparr>
       in if past raw 2 then Inr (False, Conn_stat s)
          else bnd (aslice (rx_msg raw) 2 16) (\<lambda>guid.
            if past raw 18 then Inr (False, Conn_stat (s\<lparr>cs_guid := guid\<rparr>))
            else bnd (at raw 18) (\<lambda>b. Inr (True, Conn_stat (s\<lparr>cs_guid := guid,
              cs_legacy_device_plug_status := (drop_bit 6 b AND 1 \<noteq> 0),
              cs_displayport_device_plug_status := (drop_bit 5 b AND 1 \<noteq> 0),
              cs_message_capability_status := (drop_bit 4 b AND 1 \<noteq> 0),
              cs_input_port := (drop_bit 3 b AND 1 \<noteq> 0), cs_peer_device_type := b AND 7\<rparr>)))))"

definition drm_dp_sideband_parse_resource_status_notify :: "drm_dp_sideband_msg_rx \<Rightarrow> trap + bool \<times> up_body" where
  "drm_dp_sideband_parse_resource_status_notify raw =
     bnd (at raw 1) (\<lambda>b.
       let port = drop_bit 4 (b AND 0xF0)
       in if past raw 2 then Inr (False, Resource_stat port (replicate 16 0) 0)
          else bnd (aslice (rx_msg raw) 2 16) (\<lambda>guid.
            if past raw 18 then Inr (False, Resource_stat port guid 0)
            else bnd (be16 raw 18) (\<lambda>pbn. Inr (True, Resource_stat port guid pbn))))"

definition drm_dp_sideband_parse_req :: "dp_codes \<Rightarrow> drm_dp_sideband_msg_rx \<Rightarrow> trap + bool \<times> u8 \<times> up_body" where
  "drm_dp_sideband_parse_req k raw =
     bnd (at raw 0) (\<lambda>b.
       let req = b AND 0x7F; fin = (\<lambda>(ok, u). Inr (ok, req, u))
       in if req = DP_CONNECTION_STATUS_NOTIFY k then bnd (drm_dp_sideband_parse_connection_status_notify raw) fin
          else if req = DP_RESOURCE_STATUS_NOTIFY k then bnd (drm_dp_sideband_parse_resource_status_notify raw) fin
          else fin (False, No_up))"

end
