(* ===== verification/Dp_Mst_Tx.thy ===== *)
theory Dp_Mst_Tx
  imports Dp_Mst_Msg
begin

unbundle bit_operations_syntax

text \<open>
  Sending and receiving sideband messages, \<^verbatim>\<open>drm_dp_mst_topology.c\<close>: the queues of messages, the two slots of a branch
  device for messages that wait for a reply, the chunks, and their transfer through the DPCD registers.

  The DPCD accessors of \<^verbatim>\<open>drm_dp_helper.c\<close> and the addresses of the message boxes are the record \<open>dpcd\<close>,
  over a type of device states.  Messages and branch devices are numbered; the manager has a store of each.
\<close>

section \<open>State\<close>

record 'd dpcd =
  drm_dp_dpcd_write :: "'d \<Rightarrow> nat \<Rightarrow> u8 list \<Rightarrow> (err + nat) \<times> 'd"
  drm_dp_dpcd_read :: "'d \<Rightarrow> nat \<Rightarrow> nat \<Rightarrow> (err + nat) \<times> u8 list \<times> 'd"
  DP_SIDEBAND_MSG_DOWN_REQ_BASE :: nat
  DP_SIDEBAND_MSG_UP_REP_BASE :: nat
  DP_SIDEBAND_MSG_DOWN_REP_BASE :: nat
  DP_SIDEBAND_MSG_UP_REQ_BASE :: nat

datatype tx_state = TX_QUEUED | TX_START_SEND | TX_SENT | TX_RX | TX_TIMEOUT

record drm_dp_sideband_msg_tx =
  tx_msg :: "u8 list"
  cur_offset :: nat
  cur_len :: nat
  tx_seqno :: int
  tx_path_msg :: bool
  tx_state :: tx_state
  tx_dst :: nat

record drm_dp_mst_branch =
  mstb_lct :: u8
  mstb_rad :: "u8 list"
  tx_slot0 :: "nat option"
  tx_slot1 :: "nat option"
  last_seqno :: bool

record 'd drm_dp_mst_topology_mgr =
  aux :: 'd
  max_dpcd_transaction_bytes :: nat
  txs :: "nat \<Rightarrow> drm_dp_sideband_msg_tx"
  mstbs :: "nat \<Rightarrow> drm_dp_mst_branch"
  tx_msg_downq :: "nat list"
  tx_msg_upq :: "nat list"
  tx_down_in_progress :: bool
  tx_up_in_progress :: bool
  down_rep_recv :: drm_dp_sideband_msg_rx
  up_req_recv :: drm_dp_sideband_msg_rx
  tx_waitq_woken :: bool

definition get_slot :: "drm_dp_mst_branch \<Rightarrow> int \<Rightarrow> trap + nat option" where
  "get_slot b i = (if i = 0 then Inr (tx_slot0 b) else if i = 1 then Inr (tx_slot1 b) else Inl Oob)"

definition set_slot :: "drm_dp_mst_branch \<Rightarrow> int \<Rightarrow> nat option \<Rightarrow> trap + drm_dp_mst_branch" where
  "set_slot b i v = (if i = 0 then Inr (b\<lparr>tx_slot0 := v\<rparr>) else if i = 1 then Inr (b\<lparr>tx_slot1 := v\<rparr>) else Inl Oob)"

abbreviation upd_tx :: "'d drm_dp_mst_topology_mgr \<Rightarrow> nat \<Rightarrow> (drm_dp_sideband_msg_tx \<Rightarrow> drm_dp_sideband_msg_tx)
    \<Rightarrow> 'd drm_dp_mst_topology_mgr" where
  "upd_tx mgr t f \<equiv> mgr\<lparr>txs := (txs mgr)(t := f (txs mgr t))\<rparr>"

abbreviation set_mstb :: "'d drm_dp_mst_topology_mgr \<Rightarrow> nat \<Rightarrow> drm_dp_mst_branch \<Rightarrow> 'd drm_dp_mst_topology_mgr" where
  "set_mstb mgr m b \<equiv> mgr\<lparr>mstbs := (mstbs mgr)(m := b)\<rparr>"

section \<open>Sending\<close>

text \<open>
  The loop writes the chunk in pieces of at most 16 bytes and starts again, five times at most, when a write fails with
  \<^verbatim>\<open>-EIO\<close>.  Without room for a transaction it would not end.
\<close>

fun send_loop ::
  "'d dpcd \<Rightarrow> nat \<Rightarrow> nat \<Rightarrow> u8 list \<Rightarrow> nat \<Rightarrow> 'd \<Rightarrow> nat \<Rightarrow> nat \<Rightarrow> trap + err option \<times> 'd" where
  "send_loop dp regbase maxt msg 0 d offset retries = Inl Out_of_fuel"
| "send_loop dp regbase maxt msg (Suc fuel) d offset retries =
     (let tot = length msg - offset;
          tosend = min (min maxt 16) tot;
          (ret, d) = drm_dp_dpcd_write dp d (regbase + offset) (take tosend (drop offset msg))
      in if ret \<noteq> Inr tosend then
           if ret = Inl EIO \<and> retries < 5 then send_loop dp regbase maxt msg fuel d 0 (Suc retries)
           else Inr (Some EIO, d)
         else if tot - tosend > 0 then send_loop dp regbase maxt msg fuel d (offset + tosend) retries
         else Inr (None, d))"

definition drm_dp_send_sideband_msg ::
  "'d dpcd \<Rightarrow> nat \<Rightarrow> 'd drm_dp_mst_topology_mgr \<Rightarrow> bool \<Rightarrow> u8 list \<Rightarrow> trap + err option \<times> 'd drm_dp_mst_topology_mgr" where
  "drm_dp_send_sideband_msg dp fuel mgr up msg =
     (let regbase = (if up then DP_SIDEBAND_MSG_UP_REP_BASE dp else DP_SIDEBAND_MSG_DOWN_REQ_BASE dp)
      in bnd (send_loop dp regbase (max_dpcd_transaction_bytes mgr) msg fuel (aux mgr) 0 0) (\<lambda>(r, d).
           Inr (r, mgr\<lparr>aux := d\<rparr>)))"

text \<open>
  A message without a sequence number gets one and with it a slot; none when both slots are taken.  Then the header of the next
  chunk is filled in.
\<close>

definition take_slot :: "'d drm_dp_mst_topology_mgr \<Rightarrow> nat \<Rightarrow> trap + 'd drm_dp_mst_topology_mgr option" where
  "take_slot mgr t =
     (let m = tx_dst (txs mgr t); b = mstbs mgr m in
      if tx_slot0 b \<noteq> None \<and> tx_slot1 b \<noteq> None then Inr None
      else
        let (n, b) = (if tx_slot0 b = None \<and> tx_slot1 b = None
                      then (of_bool (last_seqno b), b\<lparr>last_seqno := \<not> last_seqno b\<rparr>)
                      else if tx_slot0 b = None then (0, b) else (1, b))
        in bnd (set_slot b n (Some t)) (\<lambda>b. Inr (Some (upd_tx (set_mstb mgr m b) t (\<lambda>x. x\<lparr>tx_seqno := n\<rparr>)))))"

definition fill_hdr :: "'d drm_dp_mst_topology_mgr \<Rightarrow> nat \<Rightarrow> trap + drm_dp_sideband_msg_hdr" where
  "fill_hdr mgr t =
     (let b = mstbs mgr (tx_dst (txs mgr t)) in
      bnd (if mstb_lct b > 1 then aslice (mstb_rad b) 0 (unat (mstb_lct b div 2)) else Inr []) (\<lambda>r.
        Inr \<lparr>lct = mstb_lct b, lcr = mstb_lct b - 1, rad = r, broadcast = False, path_msg = tx_path_msg (txs mgr t),
          msg_len = 0, somt = False, eomt = False, seqno = (tx_seqno (txs mgr t) \<noteq> 0)\<rparr>))"

definition set_hdr_from_dst_qlock ::
  "'d drm_dp_mst_topology_mgr \<Rightarrow> nat \<Rightarrow> trap + (err + drm_dp_sideband_msg_hdr) \<times> 'd drm_dp_mst_topology_mgr" where
  "set_hdr_from_dst_qlock mgr t =
     bnd (if tx_seqno (txs mgr t) = -1 then take_slot mgr t else Inr (Some mgr)) (\<lambda>r.
       case r of None \<Rightarrow> Inr (Inl EAGAIN, mgr)
       | Some mgr \<Rightarrow> bnd (fill_hdr mgr t) (\<lambda>hdr. Inr (Inr hdr, mgr)))"

text \<open>
  The chunk that starts at an offset of the message: the complete header, the bytes to send from the message, and the
  bytes of the chunk.
\<close>

definition make_chunk ::
  "drm_dp_sideband_msg_hdr \<Rightarrow> u8 list \<Rightarrow> nat \<Rightarrow> nat \<Rightarrow> trap + drm_dp_sideband_msg_hdr \<times> nat \<times> u8 list" where
  "make_chunk hdr msg off tot =
     (let len = tot - off;
          space = 48 - 1 - int (unat (drm_dp_calc_sb_hdr_size hdr));
          tosend = min (int len) space;
          hdr = (if len = tot then hdr\<lparr>somt := True\<rparr> else hdr);
          hdr = (if space \<ge> int len then hdr\<lparr>eomt := True\<rparr> else hdr);
          hdr = hdr\<lparr>msg_len := of_int (tosend + 1)\<rparr>
      in if tosend < 0 then Inl Oob
         else
           bnd (drm_dp_encode_sideband_msg_hdr hdr) (\<lambda>h.
           bnd (aslice msg off (nat tosend)) (\<lambda>body.
           bnd (drm_dp_crc_sideband_chunk_req body (of_int tosend)) (\<lambda>cb.
             if length (h @ cb) > 48 then Inl Oob else Inr (hdr, nat tosend, h @ cb)))))"

text \<open>The result is an error, or whether the whole message has been sent.\<close>

definition process_single_tx_qlock ::
  "'d dpcd \<Rightarrow> nat \<Rightarrow> 'd drm_dp_mst_topology_mgr \<Rightarrow> nat \<Rightarrow> bool \<Rightarrow> trap + (err + bool) \<times> 'd drm_dp_mst_topology_mgr" where
  "process_single_tx_qlock dp fuel mgr t up =
     (let mgr = (if tx_state (txs mgr t) = TX_QUEUED
                 then upd_tx mgr t (\<lambda>x. x\<lparr>tx_seqno := -1, tx_state := TX_START_SEND\<rparr>) else mgr)
      in bnd (set_hdr_from_dst_qlock mgr t) (\<lambda>(r, mgr).
         case r of Inl e \<Rightarrow> Inr (Inl e, mgr)
         | Inr hdr \<Rightarrow>
             let x = txs mgr t in
             bnd (make_chunk hdr (tx_msg x) (cur_offset x) (cur_len x)) (\<lambda>(_, tosend, bytes).
             bnd (drm_dp_send_sideband_msg dp fuel mgr up bytes) (\<lambda>(ret, mgr).
               case ret of Some e \<Rightarrow> Inr (Inl e, mgr)
               | None \<Rightarrow>
                   let mgr = upd_tx mgr t (\<lambda>x. x\<lparr>cur_offset := cur_offset x + tosend\<rparr>) in
                   if cur_offset (txs mgr t) = cur_len (txs mgr t)
                   then Inr (Inr True, upd_tx mgr t (\<lambda>x. x\<lparr>tx_state := TX_SENT\<rparr>))
                   else Inr (Inr False, mgr)))))"

definition process_single_down_tx_qlock ::
  "'d dpcd \<Rightarrow> nat \<Rightarrow> 'd drm_dp_mst_topology_mgr \<Rightarrow> trap + 'd drm_dp_mst_topology_mgr" where
  "process_single_down_tx_qlock dp fuel mgr =
     (case tx_msg_downq mgr of [] \<Rightarrow> Inr (mgr\<lparr>tx_down_in_progress := False\<rparr>)
      | t # _ \<Rightarrow>
          bnd (process_single_tx_qlock dp fuel (mgr\<lparr>tx_down_in_progress := True\<rparr>) t False) (\<lambda>(ret, mgr).
          bnd (case ret of
                 Inr True \<Rightarrow> Inr (mgr\<lparr>tx_msg_downq := remove1 t (tx_msg_downq mgr)\<rparr>)
               | Inr False \<Rightarrow> Inr mgr
               | Inl e \<Rightarrow>
                   let mgr = mgr\<lparr>tx_msg_downq := remove1 t (tx_msg_downq mgr)\<rparr>; m = tx_dst (txs mgr t) in
                   bnd (if tx_seqno (txs mgr t) \<noteq> -1
                        then bnd (set_slot (mstbs mgr m) (tx_seqno (txs mgr t)) None) (\<lambda>b. Inr (set_mstb mgr m b))
                        else Inr mgr) (\<lambda>mgr.
                     Inr ((upd_tx mgr t (\<lambda>x. x\<lparr>tx_state := TX_TIMEOUT\<rparr>))\<lparr>tx_waitq_woken := True\<rparr>)))
            (\<lambda>mgr. Inr (if tx_msg_downq mgr = [] then mgr\<lparr>tx_down_in_progress := False\<rparr> else mgr))))"

text \<open>The message that is freed after it has been sent is returned.\<close>

definition process_single_up_tx_qlock ::
  "'d dpcd \<Rightarrow> nat \<Rightarrow> 'd drm_dp_mst_topology_mgr \<Rightarrow> trap + nat option \<times> 'd drm_dp_mst_topology_mgr" where
  "process_single_up_tx_qlock dp fuel mgr =
     (case tx_msg_upq mgr of [] \<Rightarrow> Inr (None, mgr\<lparr>tx_up_in_progress := False\<rparr>)
      | t # _ \<Rightarrow>
          bnd (process_single_tx_qlock dp fuel mgr t True) (\<lambda>(ret, mgr).
            let (freed, mgr) = (case ret of
                Inr True \<Rightarrow> (Some t, mgr\<lparr>tx_msg_upq := remove1 t (tx_msg_upq mgr)\<rparr>)
              | _ \<Rightarrow> (None, mgr))
            in Inr (freed, mgr\<lparr>tx_up_in_progress := True\<rparr>)))"

definition drm_dp_queue_down_tx ::
  "'d dpcd \<Rightarrow> nat \<Rightarrow> 'd drm_dp_mst_topology_mgr \<Rightarrow> nat \<Rightarrow> trap + 'd drm_dp_mst_topology_mgr" where
  "drm_dp_queue_down_tx dp fuel mgr t =
     (let mgr = mgr\<lparr>tx_msg_downq := tx_msg_downq mgr @ [t]\<rparr>
      in if \<not> tx_down_in_progress mgr then process_single_down_tx_qlock dp fuel mgr else Inr mgr)"

definition drm_dp_encode_up_ack_reply :: "u8 \<Rightarrow> u8 list" where
  "drm_dp_encode_up_ack_reply rtype = drm_dp_encode_sideband_reply 1 rtype"

text \<open>\<open>t\<close> is the number of the message that \<^verbatim>\<open>kzalloc\<close> returns, none when memory is short.\<close>

definition drm_dp_send_up_ack_reply ::
  "'d dpcd \<Rightarrow> nat \<Rightarrow> 'd drm_dp_mst_topology_mgr \<Rightarrow> nat option \<Rightarrow> nat \<Rightarrow> u8 \<Rightarrow> int
     \<Rightarrow> trap + err option \<times> 'd drm_dp_mst_topology_mgr" where
  "drm_dp_send_up_ack_reply dp fuel mgr alloc mstb rtype sn =
     (case alloc of None \<Rightarrow> Inr (Some ENOMEM, mgr)
      | Some t \<Rightarrow>
          let m = drm_dp_encode_up_ack_reply rtype;
              mgr = mgr\<lparr>txs := (txs mgr)(t := \<lparr>tx_msg = m, cur_offset = 0, cur_len = length m, tx_seqno = sn,
                tx_path_msg = False, tx_state = TX_QUEUED, tx_dst = mstb\<rparr>), tx_msg_upq := tx_msg_upq mgr @ [t]\<rparr>
          in if \<not> tx_up_in_progress mgr
             then bnd (process_single_up_tx_qlock dp fuel mgr) (\<lambda>(_, mgr). Inr (None, mgr))
             else Inr (None, mgr))"

section \<open>Waiting for the reply\<close>

definition check_txmsg_state :: "'d drm_dp_mst_topology_mgr \<Rightarrow> nat \<Rightarrow> bool" where
  "check_txmsg_state mgr t \<longleftrightarrow> tx_state (txs mgr t) = TX_RX \<or> tx_state (txs mgr t) = TX_TIMEOUT"

text \<open>
  \<^verbatim>\<open>drm_dp_mst_wait_tx_reply\<close> after the wait: \<open>waited\<close> tells whether the condition came true in time.  The result is none for
  a positive return value.
\<close>

definition drm_dp_mst_wait_tx_reply ::
  "'d drm_dp_mst_topology_mgr \<Rightarrow> nat \<Rightarrow> nat \<Rightarrow> bool \<Rightarrow> trap + err option \<times> 'd drm_dp_mst_topology_mgr" where
  "drm_dp_mst_wait_tx_reply mgr mstb t waited =
     (let st = tx_state (txs mgr t) in
      if waited then Inr (if st = TX_TIMEOUT then Some EIO else None, mgr)
      else
        let mgr = (if st = TX_QUEUED \<or> st = TX_START_SEND
                   then mgr\<lparr>tx_msg_downq := remove1 t (tx_msg_downq mgr), tx_msg_upq := remove1 t (tx_msg_upq mgr)\<rparr> else mgr)
        in bnd (if st = TX_START_SEND \<or> st = TX_SENT
                then bnd (set_slot (mstbs mgr mstb) (tx_seqno (txs mgr t)) None) (\<lambda>b. Inr (set_mstb mgr mstb b))
                else Inr mgr) (\<lambda>mgr. Inr (Some EIO, mgr)))"

section \<open>Receiving\<close>

text \<open>The block of 32 bytes that is read into keeps its contents where a read is short.\<close>

definition read_block ::
  "'d dpcd \<Rightarrow> 'd \<Rightarrow> nat \<Rightarrow> nat \<Rightarrow> u8 list \<Rightarrow> trap + (err + nat) \<times> u8 list \<times> 'd" where
  "read_block dp d addr len block =
     (let (ret, bytes, d) = drm_dp_dpcd_read dp d addr len
      in bnd (ablit block 0 bytes) (\<lambda>block. Inr (ret, block, d)))"

fun recv_loop ::
  "'d dpcd \<Rightarrow> nat \<Rightarrow> nat \<Rightarrow> nat \<Rightarrow> 'd \<Rightarrow> drm_dp_sideband_msg_rx \<Rightarrow> u8 list \<Rightarrow> nat \<Rightarrow> int
     \<Rightarrow> trap + drm_dp_sideband_msg_rx \<times> 'd" where
  "recv_loop dp basereg maxt 0 d msg block curreply replylen = Inl Out_of_fuel"
| "recv_loop dp basereg maxt (Suc fuel) d msg block curreply replylen =
     (if replylen > 0 then
        let len = min (min (nat replylen) maxt) 16 in
        bnd (read_block dp d (basereg + curreply) len block) (\<lambda>(_, block, d).
        bnd (drm_dp_sideband_msg_build msg block (of_nat len) False) (\<lambda>(_, msg).
          recv_loop dp basereg maxt fuel d msg block (curreply + len) (replylen - int len)))
      else Inr (msg, d))"

definition get_one_sb_msg ::
  "'d dpcd \<Rightarrow> nat \<Rightarrow> nat \<Rightarrow> nat \<Rightarrow> 'd \<Rightarrow> drm_dp_sideband_msg_rx \<Rightarrow> u8 list \<Rightarrow> trap + drm_dp_sideband_msg_rx \<times> 'd" where
  "get_one_sb_msg dp fuel basereg maxt d msg block =
     (let len = min maxt 16 in
      bnd (read_block dp d basereg len block) (\<lambda>(ret, block, d).
      if ret \<noteq> Inr len then Inr (msg, d)
      else bnd (drm_dp_sideband_msg_build msg block (of_nat len) True) (\<lambda>(ok, msg).
        if \<not> ok then Inr (msg, d)
        else recv_loop dp basereg maxt fuel d msg block len
          (int (unat (curchunk_len msg)) + int (unat (curchunk_hdrlen msg)) - int len))))"

definition drm_dp_get_one_sb_msg ::
  "'d dpcd \<Rightarrow> nat \<Rightarrow> 'd drm_dp_mst_topology_mgr \<Rightarrow> bool \<Rightarrow> u8 list \<Rightarrow> trap + 'd drm_dp_mst_topology_mgr" where
  "drm_dp_get_one_sb_msg dp fuel mgr up block =
     (if up then
        bnd (get_one_sb_msg dp fuel (DP_SIDEBAND_MSG_UP_REQ_BASE dp) (max_dpcd_transaction_bytes mgr) (aux mgr)
          (up_req_recv mgr) block) (\<lambda>(msg, d). Inr (mgr\<lparr>up_req_recv := msg, aux := d\<rparr>))
      else
        bnd (get_one_sb_msg dp fuel (DP_SIDEBAND_MSG_DOWN_REP_BASE dp) (max_dpcd_transaction_bytes mgr) (aux mgr)
          (down_rep_recv mgr) block) (\<lambda>(msg, d). Inr (mgr\<lparr>down_rep_recv := msg, aux := d\<rparr>)))"

end
