(* ===== verification/Dp_Mst_Msg_Props.thy ===== *)
theory Dp_Mst_Msg_Props
  imports Dp_Mst_Msg
begin

unbundle bit_operations_syntax

text \<open>
  Properties of the sideband messages: the checksums as a function of the bits of the data, the round trip of
  message headers, and what the parsers return.
\<close>

section \<open>Checksums as functions of bits\<close>

text \<open>The bits of a buffer in the order of transmission.\<close>

definition bit_at :: "u8 list \<Rightarrow> nat \<Rightarrow> bool" where
  "bit_at data p = bit (data ! (p div 8)) (7 - p mod 8)"

definition crc_step :: "u8 \<Rightarrow> bool \<Rightarrow> u8" where
  "crc_step r b = (let r = push_bit 1 r OR of_bool b in if r AND 0x10 = 0x10 then r XOR 0x13 else r)"

lemma masked_bit:
  fixes d :: u8
  assumes "k < 8"
  shows "drop_bit (unat (of_nat k :: u8)) (d AND 2 ^ k) = of_bool (bit d k)"
proof -
  have "unat (of_nat k :: u8) = k" using assms by (simp add: unat_of_nat_small)
  then show ?thesis using assms by (intro bit_eqI) (auto simp: bit_simps)
qed

lemma next_mask:
  assumes "k < 8"
  shows "drop_bit 1 (2 ^ k :: u8) = (if k = 0 then 0 else 2 ^ (k - 1))"
  using assms by (intro bit_eqI) (auto simp: bit_simps)

text \<open>The mask, the shift and the index of the loops at a bit position.\<close>

lemma crc_position:
  assumes "p < 2040"
  defines "k \<equiv> 7 - p mod 8" and "k' \<equiv> 7 - Suc p mod 8"
  shows "(if drop_bit 1 (2 ^ k :: u8) = 0 then (0x80, 7, of_nat (p div 8) + 1)
      else (drop_bit 1 (2 ^ k), of_nat k - 1, of_nat (p div 8)))
    = (2 ^ k' :: u8, of_nat k' :: u8, of_nat (Suc p div 8) :: u8)"
proof (cases "p mod 8 = 7")
  case True
  then have "k = 0" "k' = 7" "Suc p div 8 = p div 8 + 1" unfolding k_def k'_def by (simp_all add: mod_Suc div_Suc)
  then show ?thesis by (simp add: next_mask)
next
  case False
  moreover have "p mod 8 < 8" by simp
  ultimately have "k = Suc k'" "k < 8" "Suc p div 8 = p div 8"
    unfolding k_def k'_def by (simp_all add: mod_Suc div_Suc Suc_diff_Suc)
  moreover have "(2 :: u8) ^ k' \<noteq> 0"
  proof
    assume z: "(2 :: u8) ^ k' = 0"
    have "unat ((2 :: u8) ^ k') = 2 ^ k'" by (rule unat_2_power) (use calculation in simp)
    then show False unfolding z by simp
  qed
  moreover have e: "drop_bit 1 (2 ^ k :: u8) = 2 ^ k'" using next_mask [of k] calculation by simp
  ultimately show ?thesis unfolding e by simp
qed

lemma header_crc_in_step:
  assumes "p < 8 * length data" and "p < 2040"
  shows "header_crc_in (Suc n) data (2 ^ (7 - p mod 8)) (of_nat (7 - p mod 8)) (of_nat (p div 8)) r =
    header_crc_in n data (2 ^ (7 - Suc p mod 8)) (of_nat (7 - Suc p mod 8)) (of_nat (Suc p div 8)) (crc_step r (bit_at data p))"
proof -
  have i: "unat (of_nat (p div 8) :: u8) = p div 8" using assms by (intro unat_of_nat_small) simp
  have "p div 8 < length data" using assms by linarith
  then have g: "aget data (unat (of_nat (p div 8) :: u8)) = Inr (data ! (p div 8))" by (simp add: aget_def i)
  have m: "drop_bit (unat (of_nat (7 - p mod 8) :: u8)) (data ! (p div 8) AND 2 ^ (7 - p mod 8)) = of_bool (bit_at data p)"
    unfolding bit_at_def by (rule masked_bit) simp
  show ?thesis
    unfolding header_crc_in.simps g bnd_simps Let_def crc_position [OF assms(2)] prod.case m crc_step_def by (rule refl)
qed

lemma header_crc_in_bits:
  assumes "p + n \<le> 8 * length data" and "p + n \<le> 2040"
  shows "header_crc_in n data (2 ^ (7 - p mod 8)) (of_nat (7 - p mod 8)) (of_nat (p div 8)) r =
    Inr (foldl crc_step r (map (bit_at data) [p..<p + n]))"
  using assms
proof (induction n arbitrary: p r)
  case (Suc n)
  have u: "[p..<Suc (p + n)] = p # [Suc p..<Suc (p + n)]" by (simp add: upt_conv_Cons del: upt_Suc)
  show ?case
    using Suc.prems Suc.IH [of "Suc p"] by (subst header_crc_in_step) (simp_all add: u del: upt_Suc header_crc_in.simps)
qed simp

lemma drm_dp_msg_header_crc4_bits:
  assumes "n * 4 \<le> 8 * length data" and "n * 4 \<le> 2040"
  shows "drm_dp_msg_header_crc4 data n = Inr (header_crc_out 4 (foldl crc_step 0 (map (bit_at data) [0..<n * 4])))"
  using header_crc_in_bits [of 0 "n * 4" data 0] assms by (simp add: drm_dp_msg_header_crc4_def del: header_crc_in.simps)

text \<open>The checksum of the first nibbles depends on these only.\<close>

lemma drm_dp_msg_header_crc4_cong:
  assumes "n * 4 \<le> 8 * length data" and "n * 4 \<le> 8 * length data'" and "n * 4 \<le> 2040"
    and "\<And>p. p < n * 4 \<Longrightarrow> bit_at data p = bit_at data' p"
  shows "drm_dp_msg_header_crc4 data n = drm_dp_msg_header_crc4 data' n"
proof -
  have "map (bit_at data) [0..<n * 4] = map (bit_at data') [0..<n * 4]" using assms(4) by (intro map_cong) simp_all
  with assms(1-3) show ?thesis by (simp only: drm_dp_msg_header_crc4_bits)
qed

lemma data_crc_in_ends:
  assumes "p + n \<le> 8 * length data" and "p + n \<le> 2040"
  shows "\<exists>r'. data_crc_in n data (2 ^ (7 - p mod 8)) (of_nat (7 - p mod 8)) (of_nat (p div 8)) r = Inr r'"
  using assms
proof (induction n arbitrary: p r)
  case (Suc n)
  have i: "unat (of_nat (p div 8) :: u8) = p div 8" using Suc.prems by (intro unat_of_nat_small) simp
  have "p div 8 < length data" using Suc.prems by linarith
  then have g: "aget data (unat (of_nat (p div 8) :: u8)) = Inr (data ! (p div 8))" by (simp add: aget_def i)
  have "p < 2040" using Suc.prems by simp
  note pos = crc_position [OF this]
  show ?case
    unfolding data_crc_in.simps g bnd_simps Let_def pos prod.case using Suc.prems by (intro Suc.IH) simp_all
qed simp

lemma drm_dp_msg_data_crc4_ends:
  assumes "unat n \<le> length data"
  shows "\<exists>c. drm_dp_msg_data_crc4 data n = Inr c"
proof -
  have "unat n < 256" using unsigned_less [of n] by simp
  then show ?thesis
    using data_crc_in_ends [of 0 "unat n * 8" data 0] assms by (auto simp: drm_dp_msg_data_crc4_def)
qed

section \<open>Headers\<close>

text \<open>The headers whose fields fit into their bits.\<close>

definition hdr_wf :: "drm_dp_sideband_msg_hdr \<Rightarrow> bool" where
  "hdr_wf hdr \<longleftrightarrow> lct hdr < 16 \<and> lcr hdr < 16 \<and> msg_len hdr < 64 \<and> length (rad hdr) = unat (lct hdr div 2)
     \<and> (lct hdr \<noteq> 0 \<or> lcr hdr \<noteq> 0)"

lemma nibble_masks:
  fixes x :: u8
  shows "x AND 0xF = take_bit 4 x" and "x AND 0x3F = take_bit 6 x" and "drop_bit 4 (x AND 0xF0) = drop_bit 4 x"
    and "drop_bit n x AND 1 \<noteq> 0 \<longleftrightarrow> bit x n"
proof -
  have m: "(0xF :: u8) = mask 4" "(0x3F :: u8) = mask 6" "(0xF0 :: u8) = NOT (mask 4)" "(1 :: u8) = mask 1" by code_simp+
  show "x AND 0xF = take_bit 4 x" "x AND 0x3F = take_bit 6 x" unfolding m by (simp_all add: take_bit_eq_mask)
  show "drop_bit 4 (x AND 0xF0) = drop_bit 4 x" unfolding m by (intro bit_eqI) (auto simp: bit_simps dest: bit_imp_le_length)
  have "drop_bit n x AND 1 = of_bool (bit x n)" unfolding m(4) by (intro bit_eqI) (auto simp: bit_simps)
  then show "drop_bit n x AND 1 \<noteq> 0 \<longleftrightarrow> bit x n" by simp
qed

lemma take_bit_small:
  fixes x :: u8
  assumes "unat x < 2 ^ n" and "n \<le> 8"
  shows "take_bit n x = x"
proof -
  have "unat (take_bit n x) = unat x"
    using assms by (simp add: unsigned_take_bit_eq take_bit_nat_eq_self)
  then show ?thesis by (simp only: word_unat_eq_iff)
qed

lemma nibbles:
  fixes a b :: u8
  assumes "take_bit 4 a = a" and "take_bit 4 b = b"
  shows "drop_bit 4 (push_bit 4 a OR b) = a" and "take_bit 4 (push_bit 4 a OR b) = b"
proof -
  have a: "n < 4" if "bit a n" for n using assms that by (metis bit_take_bit_iff)
  have b: "n < 4" if "bit b n" for n using assms that by (metis bit_take_bit_iff)
  show "drop_bit 4 (push_bit 4 a OR b) = a" using a b by (intro bit_eqI) (force simp: bit_simps)
  show "take_bit 4 (push_bit 4 a OR b) = b" using b by (intro bit_eqI) (auto simp: bit_simps)
qed

text \<open>The two bytes of flags: their bits, and the nibble left for the checksum.\<close>

lemma flag_bytes:
  fixes l c :: u8 and p q r :: bool
  assumes "take_bit 6 l = l"
  defines "b1 \<equiv> push_bit 7 (of_bool p) OR push_bit 6 (of_bool q) OR l"
    and "b2 \<equiv> push_bit 7 (of_bool p) OR push_bit 6 (of_bool q) OR push_bit 4 (of_bool r) :: u8"
  shows "bit b1 7 = p" and "bit b1 6 = q" and "take_bit 6 b1 = l"
    and "bit (b2 OR take_bit 4 c) 7 = p" and "bit (b2 OR take_bit 4 c) 6 = q" and "bit (b2 OR take_bit 4 c) 4 = r"
    and "take_bit 4 (b2 OR take_bit 4 c) = take_bit 4 c" and "drop_bit 4 (b2 OR take_bit 4 c) = drop_bit 4 b2"
proof -
  have l: "\<not> bit l n" if "n \<ge> 6" for n using assms that by (metis bit_take_bit_iff not_less)
  show "bit b1 7 = p" "bit b1 6 = q" using l [of 7] l [of 6] by (simp_all add: b1_def bit_simps)
  show "take_bit 6 b1 = l" using l unfolding b1_def by (intro bit_eqI) (auto simp: bit_simps)
  show "bit (b2 OR take_bit 4 c) 7 = p" "bit (b2 OR take_bit 4 c) 6 = q" "bit (b2 OR take_bit 4 c) 4 = r"
    by (simp_all add: b2_def bit_simps)
  show "take_bit 4 (b2 OR take_bit 4 c) = take_bit 4 c" unfolding b2_def by (intro bit_eqI) (auto simp: bit_simps)
  show "drop_bit 4 (b2 OR take_bit 4 c) = drop_bit 4 b2" unfolding b2_def by (intro bit_eqI) (auto simp: bit_simps)
qed

text \<open>Two buffers that differ in the low nibble of the last byte have the same bits before it.\<close>

lemma bit_at_prefix:
  assumes "drop_bit 4 b = drop_bit 4 b'" and "p < 8 * length pre + 4"
  shows "bit_at (pre @ b # rest) p = bit_at (pre @ [b']) p"
proof (cases "p < 8 * length pre")
  case True
  then have "p div 8 < length pre" by linarith
  then show ?thesis by (simp add: bit_at_def nth_append)
next
  case False
  then have "p div 8 = length pre" and "p mod 8 < 4" using assms(2) by presburger+
  moreover have "bit b j = bit b' j" if "4 \<le> j" for j
    using arg_cong [OF assms(1), of "\<lambda>w. bit w (j - 4)"] that by (simp add: bit_simps)
  ultimately show ?thesis by (simp add: bit_at_def nth_append)
qed

text \<open>The bytes of an encoded header around the relative address, the last one without its checksum.\<close>

definition hdr_b0 :: "drm_dp_sideband_msg_hdr \<Rightarrow> u8" where
  "hdr_b0 hdr = push_bit 4 (lct hdr AND 0xF) OR (lcr hdr AND 0xF)"

definition hdr_b1 :: "drm_dp_sideband_msg_hdr \<Rightarrow> u8" where
  "hdr_b1 hdr = push_bit 7 (of_bool (broadcast hdr)) OR push_bit 6 (of_bool (path_msg hdr)) OR (msg_len hdr AND 0x3F)"

definition hdr_b2 :: "drm_dp_sideband_msg_hdr \<Rightarrow> u8" where
  "hdr_b2 hdr = push_bit 7 (of_bool (somt hdr)) OR push_bit 6 (of_bool (eomt hdr)) OR push_bit 4 (of_bool (seqno hdr))"

lemma hdr_wf_bits:
  assumes "hdr_wf hdr"
  shows "take_bit 4 (lct hdr) = lct hdr" and "take_bit 4 (lcr hdr) = lcr hdr" and "take_bit 6 (msg_len hdr) = msg_len hdr"
    and "length (rad hdr) \<le> 7"
proof -
  show t: "take_bit 4 (lct hdr) = lct hdr" "take_bit 4 (lcr hdr) = lcr hdr" "take_bit 6 (msg_len hdr) = msg_len hdr"
    using assms by (simp_all add: hdr_wf_def take_bit_small word_less_nat_alt)
  have "unat (lct hdr) < 16" "length (rad hdr) = unat (lct hdr) div 2"
    using assms by (simp_all add: hdr_wf_def unat_div word_less_nat_alt)
  then show "length (rad hdr) \<le> 7" by presburger
qed

lemma hdr_b0_fields:
  assumes "hdr_wf hdr"
  shows "drop_bit 4 (hdr_b0 hdr AND 0xF0) = lct hdr" and "hdr_b0 hdr AND 0xF = lcr hdr" and "hdr_b0 hdr \<noteq> 0"
proof -
  note w = hdr_wf_bits [OF assms]
  have b: "hdr_b0 hdr = push_bit 4 (lct hdr) OR lcr hdr" unfolding hdr_b0_def nibble_masks w(1,2) by (rule refl)
  show f: "drop_bit 4 (hdr_b0 hdr AND 0xF0) = lct hdr" "hdr_b0 hdr AND 0xF = lcr hdr"
    unfolding nibble_masks b by (rule nibbles [OF w(1,2)])+
  show "hdr_b0 hdr \<noteq> 0"
  proof
    assume "hdr_b0 hdr = 0"
    with f assms show False by (simp add: hdr_wf_def)
  qed
qed

lemma hdr_b1_fields:
  assumes "hdr_wf hdr"
  shows "drop_bit 7 (hdr_b1 hdr) AND 1 \<noteq> 0 \<longleftrightarrow> broadcast hdr" and "drop_bit 6 (hdr_b1 hdr) AND 1 \<noteq> 0 \<longleftrightarrow> path_msg hdr"
    and "hdr_b1 hdr AND 0x3F = msg_len hdr"
  unfolding nibble_masks hdr_b1_def hdr_wf_bits(3) [OF assms] by (rule flag_bytes [OF hdr_wf_bits(3) [OF assms]])+

lemma hdr_b2_fields:
  shows "drop_bit 7 (hdr_b2 hdr OR (c AND 0xF)) AND 1 \<noteq> 0 \<longleftrightarrow> somt hdr"
    and "drop_bit 6 (hdr_b2 hdr OR (c AND 0xF)) AND 1 \<noteq> 0 \<longleftrightarrow> eomt hdr"
    and "drop_bit 4 (hdr_b2 hdr OR (c AND 0xF)) AND 1 \<noteq> 0 \<longleftrightarrow> seqno hdr"
    and "(hdr_b2 hdr OR (c AND 0xF)) AND 0xF = c AND 0xF"
    and "drop_bit 4 (hdr_b2 hdr OR (c AND 0xF)) = drop_bit 4 (hdr_b2 hdr)"
  unfolding nibble_masks hdr_b2_def by (rule flag_bytes(4-8) [of 0]; simp)+

lemma encode_hdr:
  assumes "hdr_wf hdr"
  obtains c where "drm_dp_encode_sideband_msg_hdr hdr = Inr (hdr_b0 hdr # rad hdr @ [hdr_b1 hdr, hdr_b2 hdr OR (c AND 0xF)])"
    and "drm_dp_msg_header_crc4 (hdr_b0 hdr # rad hdr @ [hdr_b1 hdr, hdr_b2 hdr]) ((length (rad hdr) + 3) * 2 - 1) = Inr c"
proof -
  let ?buf = "hdr_b0 hdr # rad hdr @ [hdr_b1 hdr, hdr_b2 hdr]" and ?n = "(length (rad hdr) + 3) * 2 - 1"
  have "?n * 4 \<le> 8 * length ?buf" "?n * 4 \<le> 2040" using hdr_wf_bits(4) [OF assms] by simp_all
  from drm_dp_msg_header_crc4_bits [OF this] obtain c where c: "drm_dp_msg_header_crc4 ?buf ?n = Inr c" by blast
  have "length (rad hdr) = unat (lct hdr div 2)" using assms by (simp add: hdr_wf_def)
  then have a: "aslice (rad hdr) 0 (unat (lct hdr div 2)) = Inr (rad hdr)" by (simp add: aslice_def)
  have l: "length ((hdr_b0 hdr # rad hdr @ [hdr_b1 hdr]) @ [hdr_b2 hdr]) * 2 - 1 = ?n"
    and p: "(hdr_b0 hdr # rad hdr @ [hdr_b1 hdr]) @ [x] = hdr_b0 hdr # rad hdr @ [hdr_b1 hdr, x]" for x by simp_all
  have "drm_dp_encode_sideband_msg_hdr hdr = Inr (hdr_b0 hdr # rad hdr @ [hdr_b1 hdr, hdr_b2 hdr OR (c AND 0xF)])"
    unfolding drm_dp_encode_sideband_msg_hdr_def Let_def hdr_b0_def [symmetric] hdr_b1_def [symmetric] hdr_b2_def [symmetric]
      a bnd_simps l unfolding p c bnd_simps by (rule refl)
  from this c show ?thesis by (rule that)
qed

lemma decode_encode_hdr:
  assumes "hdr_wf hdr"
  shows "\<exists>buf. drm_dp_encode_sideband_msg_hdr hdr = Inr buf \<and> length buf = unat (drm_dp_calc_sb_hdr_size hdr)
    \<and> (\<forall>rest n. length buf \<le> n \<longrightarrow>
        drm_dp_decode_sideband_msg_hdr (buf @ rest) n = Inr (Some (hdr, drm_dp_calc_sb_hdr_size hdr)))"
proof -
  note w = hdr_wf_bits [OF assms]
  obtain c where enc: "drm_dp_encode_sideband_msg_hdr hdr = Inr (hdr_b0 hdr # rad hdr @ [hdr_b1 hdr, hdr_b2 hdr OR (c AND 0xF)])"
    and crc: "drm_dp_msg_header_crc4 (hdr_b0 hdr # rad hdr @ [hdr_b1 hdr, hdr_b2 hdr]) ((length (rad hdr) + 3) * 2 - 1) = Inr c"
    by (rule encode_hdr [OF assms])
  let ?buf = "hdr_b0 hdr # rad hdr @ [hdr_b1 hdr, hdr_b2 hdr OR (c AND 0xF)]" and ?n = "length (rad hdr)"
  have n: "unat (lct hdr div 2) = ?n" using assms by (simp add: hdr_wf_def)
  have size: "unat (drm_dp_calc_sb_hdr_size hdr) = ?n + 3"
    using w(4) n by (simp add: drm_dp_calc_sb_hdr_size_def unat_word_ariths)
  have "drm_dp_decode_sideband_msg_hdr (?buf @ rest) m = Inr (Some (hdr, drm_dp_calc_sb_hdr_size hdr))"
    if "?n + 3 \<le> m" for rest m
  proof -
    have "bit_at (?buf @ rest) p = bit_at (hdr_b0 hdr # rad hdr @ [hdr_b1 hdr, hdr_b2 hdr]) p"
      if "p < ((?n + 3) * 2 - 1) * 4" for p
      using bit_at_prefix [OF hdr_b2_fields(5), of p "hdr_b0 hdr # rad hdr @ [hdr_b1 hdr]" hdr c rest] that by simp
    then have "drm_dp_msg_header_crc4 (?buf @ rest) ((?n + 3) * 2 - 1) = Inr c"
      unfolding crc [symmetric] using w(4) by (intro drm_dp_msg_header_crc4_cong) simp_all
    moreover have "unat (3 + lct hdr div 2) = ?n + 3" using size by (simp add: drm_dp_calc_sb_hdr_size_def)
    moreover have "of_nat (unat (drm_dp_calc_sb_hdr_size hdr)) = drm_dp_calc_sb_hdr_size hdr" by simp
    then have "of_nat (3 + ?n) = drm_dp_calc_sb_hdr_size hdr" unfolding size by (simp add: add.commute)
    ultimately show ?thesis
      using that n hdr_b0_fields [OF assms] hdr_b1_fields [OF assms] hdr_b2_fields [of hdr c]
      by (simp add: drm_dp_decode_sideband_msg_hdr_def aget_def aslice_def nth_append)
  qed
  then show ?thesis using enc size by auto
qed

text \<open>
  C29: a header whose fields fit into their bits is encoded into as many bytes as \<^verbatim>\<open>drm_dp_calc_sb_hdr_size\<close> says, and decoding
  these bytes, with anything behind them, accepts the checksum and gives the header back.
\<close>

theorem drm_dp_sideband_msg_hdr_roundtrip:
  assumes "hdr_wf hdr"
  shows "\<exists>buf. drm_dp_encode_sideband_msg_hdr hdr = Inr buf \<and> length buf = unat (drm_dp_calc_sb_hdr_size hdr)
    \<and> (\<forall>rest n. length buf \<le> n \<longrightarrow>
        drm_dp_decode_sideband_msg_hdr (buf @ rest) n = Inr (Some (hdr, drm_dp_calc_sb_hdr_size hdr)))"
  by (rule decode_encode_hdr [OF assms])

theorem drm_dp_sideband_msg_hdr_roundtrip_witness:
  "\<exists>buf. drm_dp_encode_sideband_msg_hdr \<lparr>lct = 3, lcr = 2, rad = [0x18], broadcast = False, path_msg = True, msg_len = 9,
      somt = True, eomt = False, seqno = True\<rparr> = Inr buf \<and> length buf = 4"
  using drm_dp_sideband_msg_hdr_roundtrip [of "\<lparr>lct = 3, lcr = 2, rad = [0x18], broadcast = False, path_msg = True, msg_len = 9,
      somt = True, eomt = False, seqno = True\<rparr>"]
  by (auto simp: hdr_wf_def drm_dp_calc_sb_hdr_size_def)

text \<open>
  C30: decoding reads no byte outside of a buffer of the given length, and every header it accepts has fields that fit into their
  bits, a relative address of the length its link count says, and its end inside of the buffer.
\<close>

theorem drm_dp_decode_sideband_msg_hdr_wf:
  assumes "0 < n" and "n \<le> length buf"
  shows "\<exists>r. drm_dp_decode_sideband_msg_hdr buf n = Inr r
    \<and> (\<forall>hdr len. r = Some (hdr, len) \<longrightarrow> hdr_wf hdr \<and> len = drm_dp_calc_sb_hdr_size hdr \<and> unat len \<le> n)"
proof -
  define l where "l = drop_bit 4 (buf ! 0)"
  have "unat l = unat (buf ! 0) div 16" unfolding l_def by (simp add: drop_bit_eq_div unat_div)
  moreover have "unat (buf ! 0) < 256" by (rule unsigned_less [THEN order_less_le_trans]) simp
  ultimately have l16: "unat l < 16" by simp
  have l4: "take_bit 4 l = l" using l16 by (intro take_bit_small) simp_all
  have "unat (take_bit k (x :: u8)) < 2 ^ k" if "k \<le> 8" for k x
    using that by (simp add: unsigned_take_bit_eq)
  from this [of 4] this [of 6] have t: "take_bit 4 x < (16 :: u8)" "take_bit 6 x < (64 :: u8)" for x
    by (simp_all add: word_less_nat_alt)
  have z: "buf ! 0 = 0" if "take_bit 4 (buf ! 0) = 0" "l = 0"
    using bits_ident [of 4 "buf ! 0"] that by (simp add: l_def)
  have n: "unat (3 + l div 2) = unat l div 2 + 3" "unat (l div 2) = unat l div 2" "unat l div 2 \<le> 7"
    using l16 by (simp_all add: unat_word_ariths unat_div)
  have "of_nat (unat (l div 2)) = l div 2" by simp
  then have o: "of_nat (unat l div 2) = l div 2" unfolding n(2) .
  show ?thesis
  proof (cases "buf ! 0 = 0 \<or> unat l div 2 + 3 > n")
    case True
    then show ?thesis using assms n by (auto simp: drm_dp_decode_sideband_msg_hdr_def aget_def nibble_masks l_def [symmetric] l4 Let_def)
  next
    case False
    have "(unat (3 + l div 2) * 2 - 1) * 4 \<le> 8 * length buf" "(unat (3 + l div 2) * 2 - 1) * 4 \<le> 2040"
      using False assms n by simp_all
    from drm_dp_msg_header_crc4_bits [OF this] False assms n o t z l16
    show ?thesis
      by (auto simp: drm_dp_decode_sideband_msg_hdr_def aget_def aslice_def nibble_masks l_def [symmetric] l4 Let_def
          hdr_wf_def drm_dp_calc_sb_hdr_size_def word_less_nat_alt)
  qed
qed

theorem drm_dp_decode_sideband_msg_hdr_wf_witness:
  "\<exists>r. drm_dp_decode_sideband_msg_hdr [0x10, 2, 0] 3 = Inr r"
  using drm_dp_decode_sideband_msg_hdr_wf [of 3 "[0x10, 2, 0]"] by auto

section \<open>Chunks\<close>

lemma data_crc_trap: "data_crc_in n data m sh i r = Inl e \<Longrightarrow> e = Oob"
proof (induction n arbitrary: m sh i r)
  case (Suc n)
  then show ?case by (cases "unat i < length data") (auto simp: aget_def Let_def split: prod.splits)
qed simp


definition zero_rx :: drm_dp_sideband_msg_rx where
  "zero_rx = \<lparr>chunk = replicate 48 0, rx_msg = replicate 256 0, curchunk_len = 0, curchunk_idx = 0, curchunk_hdrlen = 0,
     curlen = 0, have_somt = False, have_eomt = False,
     initial_hdr = \<lparr>lct = 0, lcr = 0, rad = [], broadcast = False, path_msg = False, msg_len = 0, somt = False,
       eomt = False, seqno = False\<rparr>\<rparr>"


text \<open>What the parser of a DPCD read reply returns as the bytes read starts with their number.\<close>

lemma drm_dp_sideband_parse_remote_dpcd_read_bytes:
  assumes "rx_msg raw = b0 # b1 # num # bytes @ rest" and "length bytes = unat num" and "0 < unat num"
    and "unat (curlen raw) \<ge> 2"
  shows "drm_dp_sideband_parse_remote_dpcd_read raw = Inr (True, Dpcd_read_ack (b1 AND 0xF) num (num # butlast bytes))"
proof -
  obtain n where n: "unat num = Suc n" using assms(3) by (cases "unat num") auto
  with assms(2) have "take n (bytes @ rest) = butlast bytes" by (simp add: butlast_conv_take)
  with assms n show ?thesis
    by (simp add: drm_dp_sideband_parse_remote_dpcd_read_def aget_def aslice_def)
qed

section \<open>Link address replies\<close>

text \<open>The bytes of a port in a link address reply, as the DisplayPort standard lays them out.\<close>

definition link_port_bytes :: "drm_dp_link_addr_reply_port \<Rightarrow> u8 list" where
  "link_port_bytes p =
     [push_bit 7 (of_bool (input_port p)) OR push_bit 4 (peer_device_type p) OR port_number p,
      push_bit 7 (of_bool (mcs p)) OR push_bit 6 (of_bool (ddps p)) OR push_bit 5 (of_bool (legacy_device_plug_status p))] @
     (if input_port p then []
      else [dpcd_revision p] @ peer_guid p @ [push_bit 4 (num_sdp_streams p) OR num_sdp_stream_sinks p])"

definition link_port_ok :: "drm_dp_link_addr_reply_port \<Rightarrow> bool" where
  "link_port_ok p \<longleftrightarrow> peer_device_type p < 8 \<and> port_number p < 16 \<and> length (peer_guid p) = 16
     \<and> num_sdp_streams p < 16 \<and> num_sdp_stream_sinks p < 16
     \<and> (input_port p \<longrightarrow> \<not> legacy_device_plug_status p \<and> dpcd_revision p = 0 \<and> peer_guid p = replicate 16 0
          \<and> num_sdp_streams p = 0 \<and> num_sdp_stream_sinks p = 0)"

lemma port_byte:
  fixes t n :: u8 and i :: bool
  assumes "t < 8" and "n < 16"
  defines "b \<equiv> push_bit 7 (of_bool i) OR push_bit 4 t OR n"
  shows "b AND 0x80 \<noteq> 0 \<longleftrightarrow> i" and "drop_bit 4 b AND 7 = t" and "b AND 0xF = n"
proof -
  have "take_bit 3 t = t" using assms(1) by (intro take_bit_small) (simp_all add: word_less_nat_alt)
  then have t: "k < 3" if "bit t k" for k using that by (metis bit_take_bit_iff)
  have "take_bit 4 n = n" using assms(2) by (intro take_bit_small) (simp_all add: word_less_nat_alt)
  then have n: "k < 4" if "bit n k" for k using that by (metis bit_take_bit_iff)
  have m: "(0x80 :: u8) = 2 ^ 7" "(7 :: u8) = mask 3" "(0xF :: u8) = mask 4" by code_simp+
  have "\<not> bit t 3" "\<not> bit n 7" using t [of 3] n [of 7] by auto
  then have "bit b 7 = i" by (simp add: b_def bit_simps)
  then show "b AND 0x80 \<noteq> 0 \<longleftrightarrow> i" unfolding m by (simp only: and_exp_eq_0_iff_not_bit not_not)
  show "drop_bit 4 b AND 7 = t" unfolding m b_def by (intro bit_eqI) (auto simp: bit_simps dest: t n)
  show "b AND 0xF = n" unfolding m b_def by (intro bit_eqI) (auto simp: bit_simps dest: n)
qed

lemma plug_byte:
  fixes i j k :: bool
  defines "b \<equiv> push_bit 7 (of_bool i) OR push_bit 6 (of_bool j) OR push_bit 5 (of_bool k) :: u8"
  shows "drop_bit 7 b AND 1 \<noteq> 0 \<longleftrightarrow> i" and "drop_bit 6 b AND 1 \<noteq> 0 \<longleftrightarrow> j" and "drop_bit 5 b AND 1 \<noteq> 0 \<longleftrightarrow> k"
  unfolding nibble_masks b_def by (simp_all add: bit_simps)

lemma parse_link_port_bytes:
  assumes "link_port_ok p" and "rx_msg raw = pre @ link_port_bytes p @ post"
    and "length pre + length (link_port_bytes p) \<le> unat (curlen raw)"
  shows "parse_link_port raw (length pre) = Inr (True, p, length pre + length (link_port_bytes p))"
proof -
  define b0 where "b0 = push_bit 7 (of_bool (input_port p)) OR push_bit 4 (peer_device_type p) OR port_number p"
  define b1 where "b1 = (push_bit 7 (of_bool (mcs p)) OR push_bit 6 (of_bool (ddps p)) OR
    push_bit 5 (of_bool (legacy_device_plug_status p)) :: u8)"
  have ok: "peer_device_type p < 8" "port_number p < 16" "length (peer_guid p) = 16"
    "num_sdp_streams p < 16" "num_sdp_stream_sinks p < 16" using assms(1) by (simp_all add: link_port_ok_def)
  note f0 = port_byte [OF ok(1,2), of "input_port p", folded b0_def]
  note f1 = plug_byte [of "mcs p" "ddps p" "legacy_device_plug_status p", folded b1_def]
  have lb: "link_port_bytes p = [b0, b1] @ (if input_port p then [] else [dpcd_revision p] @ peer_guid p @
      [push_bit 4 (num_sdp_streams p) OR num_sdp_stream_sinks p])"
    by (simp add: link_port_bytes_def b0_def b1_def)
  show ?thesis
  proof (cases "input_port p")
    case True
    then have z: "\<not> legacy_device_plug_status p" "dpcd_revision p = 0" "peer_guid p = replicate 16 0"
      "num_sdp_streams p = 0" "num_sdp_stream_sinks p = 0" using assms(1) by (simp_all add: link_port_ok_def)
    then have "zero_port\<lparr>input_port := True, peer_device_type := peer_device_type p, port_number := port_number p,
        mcs := mcs p, ddps := ddps p\<rparr> = p"
      using True by (cases p) (simp add: zero_port_def)
    then show ?thesis
      using assms(2,3) True f0 f1 by (simp add: lb parse_link_port_def aget_def nth_append Let_def)
  next
    case False
    have t: "take_bit 4 (num_sdp_streams p) = num_sdp_streams p" "take_bit 4 (num_sdp_stream_sinks p) = num_sdp_stream_sinks p"
      using ok(4,5) by (simp_all add: take_bit_small word_less_nat_alt)
    note nb = nibbles [OF t]
    have "drop_bit 4 (push_bit 4 (num_sdp_streams p) OR num_sdp_stream_sinks p) AND 0xF = num_sdp_streams p"
      "(push_bit 4 (num_sdp_streams p) OR num_sdp_stream_sinks p) AND 0xF = num_sdp_stream_sinks p"
      unfolding nibble_masks nb t by (rule refl)+
    moreover have "zero_port\<lparr>input_port := False, peer_device_type := peer_device_type p, port_number := port_number p,
        mcs := mcs p, ddps := ddps p, legacy_device_plug_status := legacy_device_plug_status p,
        dpcd_revision := dpcd_revision p, peer_guid := peer_guid p, num_sdp_streams := num_sdp_streams p,
        num_sdp_stream_sinks := num_sdp_stream_sinks p\<rparr> = p"
      using False by (cases p) (simp add: zero_port_def)
    ultimately show ?thesis
      using assms(2,3) False f0 f1 ok(3)
      by (simp add: lb parse_link_port_def aget_def aslice_def nth_append Let_def nibble_masks del: drop_bit_or take_bit_or)
  qed
qed

lemma parse_link_ports_bytes:
  assumes "\<forall>p \<in> set ps. link_port_ok p" and "rx_msg raw = pre @ concat (map link_port_bytes ps) @ post"
    and "length pre + length (concat (map link_port_bytes ps)) \<le> unat (curlen raw)"
  shows "parse_link_ports raw (length ps) (length pre) = Inr (True, ps)"
  using assms
proof (induction ps arbitrary: pre)
  case (Cons p ps)
  have "parse_link_port raw (length pre) = Inr (True, p, length pre + length (link_port_bytes p))"
    using Cons.prems by (intro parse_link_port_bytes [where post = "concat (map link_port_bytes ps) @ post"]) simp_all
  moreover have "parse_link_ports raw (length ps) (length (pre @ link_port_bytes p)) = Inr (True, ps)"
    using Cons.prems by (intro Cons.IH) simp_all
  ultimately show ?case by simp
qed simp

text \<open>
  C31: a link address reply laid out as the standard says, with up to 15 ports, is parsed into exactly these ports and
  the GUID of the device.
\<close>

theorem drm_dp_sideband_parse_link_address_reply:
  assumes "length guid = 16" and "length ps < 16" and "\<forall>p \<in> set ps. link_port_ok p"
    and "DP_LINK_ADDRESS k < 128"
    and "rx_msg raw = [DP_LINK_ADDRESS k] @ guid @ [of_nat (length ps)] @ concat (map link_port_bytes ps) @ rest"
    and "unat (curlen raw) = 18 + length (concat (map link_port_bytes ps))"
  shows "drm_dp_sideband_parse_reply k raw =
    Inr (True, \<lparr>reply_type = 0, req_type = DP_LINK_ADDRESS k, reply_u = Link_addr guid (of_nat (length ps)) ps\<rparr>)"
proof -
  have "unat (of_nat (length ps) :: u8) = length ps" using assms(2) by (simp add: unat_of_nat_small)
  then have "take_bit 4 (of_nat (length ps) :: u8) = of_nat (length ps)" using assms(2) by (intro take_bit_small) simp_all
  then have n: "of_nat (length ps) AND 0xF = (of_nat (length ps) :: u8)" "unat (of_nat (length ps) :: u8) = length ps"
    using assms(2) by (simp_all add: nibble_masks unat_of_nat_small)
  have t7: "take_bit 7 (DP_LINK_ADDRESS k) = DP_LINK_ADDRESS k" using assms(4) by (intro take_bit_small) (simp_all add: word_less_nat_alt)
  then have b7: "\<not> bit (DP_LINK_ADDRESS k) 7" by (metis bit_take_bit_iff less_irrefl)
  have m: "(0x7F :: u8) = mask 7" "(0x80 :: u8) = 2 ^ 7" by code_simp+
  have "DP_LINK_ADDRESS k AND 0x80 = 0" unfolding m using b7 by (simp only: and_exp_eq_0_iff_not_bit not_False_eq_True)
  then have c: "DP_LINK_ADDRESS k AND 0x7F = DP_LINK_ADDRESS k" "drop_bit 7 (DP_LINK_ADDRESS k AND 0x80) = 0"
    unfolding m(1) take_bit_eq_mask [symmetric] using t7 by simp_all
  have "parse_link_ports raw (length ps) (length ([DP_LINK_ADDRESS k] @ guid @ [of_nat (length ps)])) = Inr (True, ps)"
    using assms(1,3,5,6) by (intro parse_link_ports_bytes) simp_all
  then have "parse_link_ports raw (length ps) 18 = Inr (True, ps)" using assms(1) by simp
  moreover have "aslice (rx_msg raw) 1 16 = Inr guid" "at raw 17 = Inr (of_nat (length ps))" "at raw 0 = Inr (DP_LINK_ADDRESS k)"
    using assms(1,5) by (simp_all add: aslice_def aget_def nth_append)
  ultimately show ?thesis
    using assms(6) n c by (simp add: drm_dp_sideband_parse_reply_def drm_dp_sideband_parse_link_address_def)
qed

theorem drm_dp_sideband_parse_link_address_reply_witness:
  "\<exists>raw. drm_dp_sideband_parse_reply \<lparr>DP_LINK_ADDRESS = 1, DP_CONNECTION_STATUS_NOTIFY = 2, DP_ENUM_PATH_RESOURCES = 0x10,
      DP_ALLOCATE_PAYLOAD = 0x11, DP_QUERY_PAYLOAD = 0x12, DP_RESOURCE_STATUS_NOTIFY = 0x13, DP_REMOTE_DPCD_READ = 0x20,
      DP_REMOTE_DPCD_WRITE = 0x21, DP_REMOTE_I2C_READ = 0x22, DP_REMOTE_I2C_WRITE = 0x23\<rparr> raw =
    Inr (True, \<lparr>reply_type = 0, req_type = 1, reply_u = Link_addr (replicate 16 7) 1 [zero_port\<lparr>port_number := 8, ddps := True\<rparr>]\<rparr>)"
proof -
  let ?k = "\<lparr>DP_LINK_ADDRESS = 1, DP_CONNECTION_STATUS_NOTIFY = 2, DP_ENUM_PATH_RESOURCES = 0x10,
      DP_ALLOCATE_PAYLOAD = 0x11, DP_QUERY_PAYLOAD = 0x12, DP_RESOURCE_STATUS_NOTIFY = 0x13, DP_REMOTE_DPCD_READ = 0x20,
      DP_REMOTE_DPCD_WRITE = 0x21, DP_REMOTE_I2C_READ = 0x22, DP_REMOTE_I2C_WRITE = 0x23\<rparr>"
  let ?p = "zero_port\<lparr>port_number := 8, ddps := True\<rparr>"
  let ?raw = "zero_rx\<lparr>rx_msg := [1] @ replicate 16 7 @ [1] @ link_port_bytes ?p @ [], curlen := 38\<rparr>"
  have "link_port_ok ?p" "length (link_port_bytes ?p) = 20"
    by (simp_all add: link_port_ok_def zero_port_def link_port_bytes_def)
  then have "drm_dp_sideband_parse_reply ?k ?raw = Inr (True, \<lparr>reply_type = 0, req_type = DP_LINK_ADDRESS ?k,
      reply_u = Link_addr (replicate 16 7) (of_nat (length [?p])) [?p]\<rparr>)"
    by (intro drm_dp_sideband_parse_link_address_reply [where rest = "[]"]) simp_all
  then show ?thesis by (intro exI [of _ ?raw]) simp
qed

end
