(* ===== verification/Dp_Mst_Tx_Props.thy ===== *)
theory Dp_Mst_Tx_Props
  imports Dp_Mst_Tx Dp_Mst_Msg_Props
begin

unbundle bit_operations_syntax

text \<open>
  The transfer of messages: what a receiver that reads the chunks of a sender puts together is the message,
  and the invariant of the queues and the slots of the sender.
\<close>

section \<open>Receiving a chunk\<close>

text \<open>A device whose registers from an address on hold some bytes and do not change when they are read.\<close>

definition holds :: "'d dpcd \<Rightarrow> 'd \<Rightarrow> nat \<Rightarrow> u8 list \<Rightarrow> bool" where
  "holds dp d base mem \<longleftrightarrow>
     (\<forall>off len. off + len \<le> length mem \<longrightarrow>
        drm_dp_dpcd_read dp d (base + off) len = (Inr len, take len (drop off mem), d))"

definition append_body :: "drm_dp_sideband_msg_rx \<Rightarrow> u8 list \<Rightarrow> drm_dp_sideband_msg_rx" where
  "append_body msg p = msg\<lparr>
     rx_msg := take (unat (curlen msg)) (rx_msg msg) @ p @ drop (unat (curlen msg) + length p) (rx_msg msg),
     curlen := curlen msg + of_nat (length p)\<rparr>"

lemma finish_chunk_complete:
  assumes "take (length q) (chunk msg) = q" and "q = p @ [c]" and "length q < 64"
    and "curchunk_len msg = of_nat (length q)" and "curchunk_idx msg = of_nat (length q)"
    and "unat (curlen msg) + length p \<le> length (rx_msg msg)"
  shows "finish_chunk msg = Inr (append_body msg p)"
proof -
  have "unat (of_nat (length q) :: u8) = length q" by (rule unat_of_nat_small) (use assms(3) in simp)
  then have l: "unat (of_nat (length q) :: u8) = Suc (length p)" using assms(2) by simp
  have "length q \<le> length (chunk msg)" using arg_cong [OF assms(1), of length] by simp
  then have c: "Suc (length p) \<le> length (chunk msg)" using assms(2) by simp
  have m: "curchunk_len msg - 1 = of_nat (length p)" using assms(2,4) by simp
  have "unat (of_nat (length p) :: u8) = length p" using assms(2,3) by (simp add: unat_of_nat_small)
  then obtain crc where crc: "drm_dp_msg_data_crc4 (chunk msg) (curchunk_len msg - 1) = Inr crc"
    using drm_dp_msg_data_crc4_ends [of "of_nat (length p)" "chunk msg"] c unfolding m by auto
  have nz: "curchunk_len msg \<noteq> 0" using l assms(4) by auto
  have "take (length p) (chunk msg) = p"
    using arg_cong [OF assms(1), of "take (length p)"] assms(2) by simp
  then show ?thesis
    using crc nz l c assms(4-6) m
    by (simp add: finish_chunk_def append_body_def aslice_def ablit_def)
qed

lemma finish_chunk_partial:
  assumes "curchunk_len msg = of_nat l" and "curchunk_idx msg = of_nat k" and "k < l" and "l < 64"
  shows "finish_chunk msg = Inr msg"
proof -
  have "unat (of_nat l :: u8) = l" "unat (of_nat k :: u8) = k" using assms(3,4) by (simp_all add: unat_of_nat_small)
  then show ?thesis using assms by (simp add: finish_chunk_def word_le_nat_alt)
qed

text \<open>The pieces of a chunk behind the first one.\<close>

lemma recv_loop_rest:
  assumes "holds dp d base (h @ q @ rest)" and "q = p @ [c]" and "length q < 46" and "0 < maxt" and "length block = 32"
    and "k < length q" and "length q - k < fuel"
    and "length (chunk msg) = 48" and "take k (chunk msg) = take k q"
    and "curchunk_len msg = of_nat (length q)" and "curchunk_idx msg = of_nat k"
    and "unat (curlen msg) + length p \<le> length (rx_msg msg)"
  shows "\<exists>ch. length ch = 48 \<and> recv_loop dp base maxt fuel d msg block (length h + k) (int (length q) - int k) =
    Inr (append_body (msg\<lparr>chunk := ch, curchunk_idx := of_nat (length q)\<rparr>) p, d)"
  using assms(5-)
proof (induction fuel arbitrary: msg block k)
  case (Suc fuel)
  define len where "len = min (min (length q - k) maxt) 16"
  define bs where "bs = take len (drop k q)"
  define ch where "ch = take k (chunk msg) @ bs @ drop (k + len) (chunk msg)"
  define msg' where "msg' = msg\<lparr>chunk := ch, curchunk_idx := of_nat (k + len)\<rparr>"
  have len: "0 < len" "len \<le> 16" "k + len \<le> length q" "length bs = len"
    using assms(4) Suc.prems(2) by (auto simp: len_def bs_def)
  have u: "unat (of_nat len :: u8) = len" "unat (of_nat k :: u8) = k"
    using len assms(3) by (simp_all add: unat_of_nat_small)
  have "drm_dp_dpcd_read dp d (base + (length h + k)) len = (Inr len, take len (drop (length h + k) (h @ q @ rest)), d)"
    using assms(1) len(3) unfolding holds_def by simp
  moreover have "take len (drop (length h + k) (h @ q @ rest)) = bs" using len(3) by (simp add: bs_def)
  ultimately have rd: "read_block dp d (base + (length h + k)) len block = Inr (Inr len, bs @ drop len block, d)"
    using len Suc.prems(1) by (simp add: read_block_def ablit_def add.assoc)
  have ch: "length ch = 48" "take (k + len) ch = take (k + len) q"
    using Suc.prems(4,5) len assms(3) by (simp_all add: ch_def bs_def take_add)
  have build: "drm_dp_sideband_msg_build msg (bs @ drop len block) (of_nat len) False =
      bnd (finish_chunk msg') (\<lambda>msg. Inr (True, msg))"
    using Suc.prems(1,4,7) len u assms(3)
    by (simp add: drm_dp_sideband_msg_build_def aslice_def ablit_def msg'_def ch_def)
  have step: "recv_loop dp base maxt (Suc fuel) d msg block (length h + k) (int (length q) - int k) =
      bnd (finish_chunk msg') (\<lambda>msg. recv_loop dp base maxt fuel d msg (bs @ drop len block) (length h + (k + len))
        (int (length q) - int (k + len)))"
  proof -
    have "nat (int (length q) - int k) = length q - k" by simp
    then show ?thesis
      using Suc.prems(2) build rd
      by (simp add: len_def [symmetric] bnd_assoc add.assoc diff_diff_eq del: of_nat_diff)
  qed
  show ?case
  proof (cases "k + len = length q")
    case True
    have "finish_chunk msg' = Inr (append_body msg' p)"
      using ch True assms(2,3) Suc.prems(6,8) by (intro finish_chunk_complete [where q = q and c = c]) (simp_all add: msg'_def)
    moreover have "fuel \<noteq> 0" using Suc.prems(2,3) len(1) True by auto
    ultimately show ?thesis using ch(1) True unfolding step by (cases fuel) (auto simp: msg'_def)
  next
    case False
    then have "k + len < length q" using len(3) by simp
    moreover from this have "finish_chunk msg' = Inr msg'"
      using Suc.prems(6) assms(3) by (intro finish_chunk_partial [where k = "k + len" and l = "length q"]) (simp_all add: msg'_def)
    ultimately show ?thesis
      using Suc.IH [of "bs @ drop len block" "k + len" msg'] Suc.prems len ch unfolding step by (simp add: msg'_def)
  qed
qed simp

lemma recv_loop_stop: "r \<le> 0 \<Longrightarrow> 0 < fuel \<Longrightarrow> recv_loop dp base maxt fuel d msg block n r = Inr (msg, d)"
  by (cases fuel) simp_all

text \<open>The state of a receiver after it has got a chunk.\<close>

definition received :: "drm_dp_sideband_msg_rx \<Rightarrow> drm_dp_sideband_msg_hdr \<Rightarrow> u8 list \<Rightarrow> drm_dp_sideband_msg_rx \<Rightarrow> bool" where
  "received msg hdr p msg' \<longleftrightarrow>
     rx_msg msg' = take (unat (curlen msg)) (rx_msg msg) @ p @ drop (unat (curlen msg) + length p) (rx_msg msg)
     \<and> curlen msg' = curlen msg + of_nat (length p) \<and> length (chunk msg') = 48
     \<and> have_somt msg' = (have_somt msg \<or> somt hdr) \<and> have_eomt msg' = (have_eomt msg \<or> eomt hdr)
     \<and> initial_hdr msg' = (if somt hdr then hdr else initial_hdr msg)"

text \<open>The builder at the start of a chunk whose header it accepts.\<close>

lemma build_first:
  assumes "drm_dp_decode_sideband_msg_hdr block (unat n) = Inr (Some (hdr, hl))" and "\<not> (somt hdr \<and> have_somt msg)"
    and "unat hl \<le> unat n" and "unat n \<le> length block" and "length (chunk msg) = 48"
    and "msg_len hdr = of_nat (length q)" and "length q < 46"
    and "k = min (length q) (unat n - unat hl)"
  shows "drm_dp_sideband_msg_build msg block n True =
    bnd (finish_chunk (msg\<lparr>curchunk_len := of_nat (length q), curchunk_hdrlen := hl, curchunk_idx := of_nat k,
        chunk := take k (drop (unat hl) block) @ drop k (chunk msg),
        initial_hdr := (if somt hdr then hdr else initial_hdr msg),
        have_somt := (have_somt msg \<or> somt hdr), have_eomt := (have_eomt msg \<or> eomt hdr)\<rparr>)) (\<lambda>msg. Inr (True, msg))"
proof -
  have q: "unat (of_nat (length q) :: u8) = length q" using assms(7) by (simp add: unat_of_nat_small)
  have d: "unat (n - hl) = unat n - unat hl" using assms(3) by (simp add: unat_sub word_le_nat_alt)
  have k: "unat (min (of_nat (length q)) (n - hl)) = k"
    using q d assms(8) by (simp add: min_def word_le_nat_alt)
  have "k < 256" using assms(7,8) by simp
  then have "unat (of_nat k :: u8) = k" by (simp add: unat_of_nat_small)
  then have m: "min (of_nat (length q)) (n - hl) = of_nat k" using k by (simp add: word_unat_eq_iff)
  have s: "aslice block (unat hl) k = Inr (take k (drop (unat hl) block))" using assms(3,4,8) by (simp add: aslice_def)
  have l: "length (take k (drop (unat hl) block)) = k" "k \<le> 48" using assms(3,4,7,8) by simp_all
  show ?thesis
    using assms(1,2,5) s l
    by (cases msg; cases "somt hdr"; cases "eomt hdr")
      (simp_all add: drm_dp_sideband_msg_build_def Let_def assms(6) m k [unfolded m] ablit_def)
qed

lemma recv_chunk:
  assumes "hdr_wf hdr" and "drm_dp_encode_sideband_msg_hdr hdr = Inr h" and "msg_len hdr = of_nat (length q)"
    and "q = p @ [c]" and "length q < 46" and "length h \<le> min maxt 16"
    and "holds dp d base (h @ q @ rest)" and "16 \<le> length (h @ q @ rest)" and "length block = 32"
    and "length (chunk msg) = 48" and "\<not> (somt hdr \<and> have_somt msg)"
    and "unat (curlen msg) + length p \<le> length (rx_msg msg)" and "length q < fuel"
  shows "\<exists>msg'. get_one_sb_msg dp fuel base maxt d msg block = Inr (msg', d) \<and> received msg hdr p msg'"
proof -
  define len where "len = min maxt 16"
  define blk where "blk = take len (h @ q @ rest) @ drop len block"
  define k where "k = min (length q) (len - length h)"
  define msg1 where "msg1 = msg\<lparr>curchunk_len := of_nat (length q), curchunk_hdrlen := drm_dp_calc_sb_hdr_size hdr,
    curchunk_idx := of_nat k, chunk := take k (drop (length h) blk) @ drop k (chunk msg),
    initial_hdr := (if somt hdr then hdr else initial_hdr msg),
    have_somt := (have_somt msg \<or> somt hdr), have_eomt := (have_eomt msg \<or> eomt hdr)\<rparr>"
  have len: "length h \<le> len" "len \<le> 16" "len \<le> length (h @ q @ rest)" using assms(6,8) by (simp_all add: len_def)
  have u: "unat (of_nat len :: u8) = len" using len by (simp add: unat_of_nat_small)
  have h: "length h = unat (drm_dp_calc_sb_hdr_size hdr)"
    and dec: "\<And>r n. length h \<le> n \<Longrightarrow>
      drm_dp_decode_sideband_msg_hdr (h @ r) n = Inr (Some (hdr, drm_dp_calc_sb_hdr_size hdr))"
    using decode_encode_hdr [OF assms(1)] assms(2) by auto
  have "drm_dp_dpcd_read dp d (base + 0) len = (Inr len, take len (drop 0 (h @ q @ rest)), d)"
    using assms(7) len(3) unfolding holds_def by (metis add_0)
  moreover have "length (take len (h @ q @ rest)) = len" using len(3) by (simp only: length_take min_absorb2)
  ultimately have rd: "read_block dp d base len block = Inr (Inr len, blk, d)"
    using assms(9) len(2) by (simp add: read_block_def ablit_def blk_def del: take_append length_append length_take)
  have lb: "length blk = 32" using assms(9) len by (simp add: blk_def)
  have "blk = h @ (take (len - length h) (q @ rest) @ drop len block)" using len(1) by (simp add: blk_def)
  then have "drm_dp_decode_sideband_msg_hdr blk (unat (of_nat len :: u8)) = Inr (Some (hdr, drm_dp_calc_sb_hdr_size hdr))"
    using dec len(1) by (simp add: u)
  note build_first [OF this assms(11) _ _ assms(10,3,5), where k = k]
  then have build: "drm_dp_sideband_msg_build msg blk (of_nat len) True = bnd (finish_chunk msg1) (\<lambda>msg. Inr (True, msg))"
    using len lb u h by (simp add: msg1_def k_def)
  have tk: "take k (drop (length h) blk) = take k q"
    using len by (simp add: blk_def k_def min_def)
  have kq: "k \<le> length q" by (simp add: k_def)
  then have c1: "length (chunk msg1) = 48" "take k (chunk msg1) = take k q" "k \<le> length q"
    using assms(5,10) by (simp_all add: msg1_def tk)
  have uq: "unat (of_nat (length q) :: u8) = length q" using assms(5) by (simp add: unat_of_nat_small)
  have get: "get_one_sb_msg dp fuel base maxt d msg block = bnd (finish_chunk msg1) (\<lambda>m.
      recv_loop dp base maxt fuel d m blk len (int (unat (curchunk_len m)) + int (unat (curchunk_hdrlen m)) - int len))"
    by (simp add: get_one_sb_msg_def len_def [symmetric] rd build bnd_assoc)
  show ?thesis
  proof (cases "k = length q")
    case True
    then have "finish_chunk msg1 = Inr (append_body msg1 p)"
      using c1 assms(4,5,12) by (intro finish_chunk_complete [where q = q and c = c]) (simp_all add: msg1_def)
    moreover have f: "curchunk_len (append_body msg1 p) = of_nat (length q)"
      "curchunk_hdrlen (append_body msg1 p) = drm_dp_calc_sb_hdr_size hdr" by (simp_all add: append_body_def msg1_def)
    have "int (unat (curchunk_len (append_body msg1 p))) + int (unat (curchunk_hdrlen (append_body msg1 p))) - int len \<le> 0"
      unfolding f uq h [symmetric] using True len by (simp add: k_def)
    moreover have "0 < fuel" using assms(13) by simp
    ultimately have "get_one_sb_msg dp fuel base maxt d msg block = Inr (append_body msg1 p, d)"
      unfolding get by (simp only: bnd_simps recv_loop_stop)
    then show ?thesis using c1 by (auto simp: append_body_def msg1_def received_def)
  next
    case False
    then have k: "k < length q" "length h + k = len" using c1(3) len by (auto simp: k_def)
    have fin: "finish_chunk msg1 = Inr msg1"
      using k(1) assms(5) by (intro finish_chunk_partial [where k = k and l = "length q"]) (simp_all add: msg1_def)
    have "h \<noteq> []" by (rule encode_hdr [OF assms(1)]) (use assms(2) in auto)
    then have "0 < maxt" using assms(6) by (cases "maxt = 0") auto
    moreover have "unat (curlen msg1) + length p \<le> length (rx_msg msg1)" using assms(12) by (simp add: msg1_def)
    moreover have "curchunk_len msg1 = of_nat (length q)" "curchunk_idx msg1 = of_nat k" by (simp_all add: msg1_def)
    moreover have "length q - k < fuel" using assms(13) by linarith
    ultimately obtain ch where "length ch = 48" and
      "recv_loop dp base maxt fuel d msg1 blk (length h + k) (int (length q) - int k) =
        Inr (append_body (msg1\<lparr>chunk := ch, curchunk_idx := of_nat (length q)\<rparr>) p, d)"
      using recv_loop_rest [OF assms(7,4,5) _ lb k(1) _ c1(1,2), of maxt fuel] by auto
    moreover have f: "curchunk_len msg1 = of_nat (length q)" "curchunk_hdrlen msg1 = drm_dp_calc_sb_hdr_size hdr"
      by (simp_all add: msg1_def)
    have "int (unat (curchunk_len msg1)) + int (unat (curchunk_hdrlen msg1)) - int len = int (length q) - int k"
      unfolding f uq h [symmetric] using k(2) by simp
    ultimately have "get_one_sb_msg dp fuel base maxt d msg block =
        Inr (append_body (msg1\<lparr>chunk := ch, curchunk_idx := of_nat (length q)\<rparr>) p, d)"
      unfolding get fin by (simp only: bnd_simps k(2))
    then show ?thesis using \<open>length ch = 48\<close> by (auto simp: append_body_def msg1_def received_def)
  qed
qed

section \<open>Sending a chunk\<close>

text \<open>DPCD accessors that behave as a memory: reads and writes are complete, and a read gives back what was written.\<close>

definition mem_dpcd :: "'d dpcd \<Rightarrow> ('d \<Rightarrow> nat \<Rightarrow> u8) \<Rightarrow> bool" where
  "mem_dpcd dp view \<longleftrightarrow>
     (\<forall>d a n. drm_dp_dpcd_read dp d a n = (Inr n, map (view d) [a..<a + n], d))
     \<and> (\<forall>d a bs. fst (drm_dp_dpcd_write dp d a bs) = Inr (length bs)
        \<and> (\<forall>i. view (snd (drm_dp_dpcd_write dp d a bs)) i =
             (if a \<le> i \<and> i < a + length bs then bs ! (i - a) else view d i)))"

lemma send_loop_mem:
  assumes "mem_dpcd dp view" and "0 < maxt" and "off < length msg" and "length msg - off \<le> fuel"
    and "\<forall>i < off. view d (base + i) = msg ! i"
  shows "\<exists>d'. send_loop dp base maxt msg fuel d off r = Inr (None, d') \<and> (\<forall>i < length msg. view d' (base + i) = msg ! i)"
  using assms(3-5)
proof (induction fuel arbitrary: off d)
  case (Suc fuel)
  define n where "n = min (min maxt 16) (length msg - off)"
  define bs where "bs = take n (drop off msg)"
  obtain d' where w: "drm_dp_dpcd_write dp d (base + off) bs = (Inr (length bs), d')"
    and v: "\<And>i. view d' i = (if base + off \<le> i \<and> i < base + off + length bs then bs ! (i - (base + off)) else view d i)"
    using assms(1) unfolding mem_dpcd_def by (metis prod.collapse)
  have n: "0 < n" "off + n \<le> length msg" "length bs = n" using Suc.prems(1) assms(2) by (auto simp: n_def bs_def)
  have v': "view d' (base + i) = msg ! i" if "i < off + n" for i
    using that Suc.prems(3) n by (cases "i < off") (auto simp: v bs_def)
  show ?case
  proof (cases "off + n = length msg")
    case True
    then show ?thesis using w v' n by (auto simp: Let_def n_def [symmetric] bs_def [symmetric])
  next
    case False
    then have "\<exists>d''. send_loop dp base maxt msg fuel d' (off + n) r = Inr (None, d'') \<and> (\<forall>i < length msg. view d'' (base + i) = msg ! i)"
      using n Suc.prems v' by (intro Suc.IH) auto
    with False show ?thesis using w n by (auto simp: Let_def n_def [symmetric] bs_def [symmetric])
  qed
qed simp

text \<open>The header of the chunk at an offset, and how much of the message it carries.\<close>

definition chunk_room :: "drm_dp_sideband_msg_hdr \<Rightarrow> nat" where
  "chunk_room hdr = 47 - unat (drm_dp_calc_sb_hdr_size hdr)"

definition chunk_hdr :: "drm_dp_sideband_msg_hdr \<Rightarrow> nat \<Rightarrow> nat \<Rightarrow> drm_dp_sideband_msg_hdr" where
  "chunk_hdr hdr off tot = hdr\<lparr>somt := (tot - off = tot), eomt := (tot - off \<le> chunk_room hdr),
     msg_len := of_nat (Suc (min (tot - off) (chunk_room hdr)))\<rparr>"

definition base_ok :: "drm_dp_sideband_msg_hdr \<Rightarrow> bool" where
  "base_ok hdr \<longleftrightarrow> lct hdr < 16 \<and> lct hdr \<noteq> 0 \<and> lcr hdr = lct hdr - 1 \<and> length (rad hdr) = unat (lct hdr div 2)
     \<and> \<not> somt hdr \<and> \<not> eomt hdr"

lemma base_ok_size:
  assumes "base_ok hdr"
  shows "3 \<le> unat (drm_dp_calc_sb_hdr_size hdr)" and "unat (drm_dp_calc_sb_hdr_size hdr) \<le> 10"
proof -
  have "unat (lct hdr) < 16" using assms by (simp add: base_ok_def word_less_nat_alt)
  then have "unat (lct hdr) div 2 \<le> 7" by simp
  then have "unat (drm_dp_calc_sb_hdr_size hdr) = unat (lct hdr) div 2 + 3"
    by (simp add: drm_dp_calc_sb_hdr_size_def unat_word_ariths unat_div)
  with \<open>unat (lct hdr) div 2 \<le> 7\<close> show "3 \<le> unat (drm_dp_calc_sb_hdr_size hdr)" "unat (drm_dp_calc_sb_hdr_size hdr) \<le> 10"
    by simp_all
qed

lemma chunk_hdr_wf:
  assumes "base_ok hdr"
  shows "hdr_wf (chunk_hdr hdr off tot)"
proof -
  have "unat (of_nat (Suc (min (tot - off) (chunk_room hdr))) :: u8) = Suc (min (tot - off) (chunk_room hdr))"
    by (rule unat_of_nat_small) (simp add: chunk_room_def)
  moreover have "Suc (min (tot - off) (chunk_room hdr)) < 64" by (simp add: chunk_room_def)
  ultimately have "(of_nat (Suc (min (tot - off) (chunk_room hdr))) :: u8) < 64" by (simp add: word_less_nat_alt)
  moreover have "unat (lct hdr - 1) < 16"
    using assms by (auto simp: base_ok_def word_less_nat_alt unat_sub word_le_nat_alt unat_gt_0 Suc_leI)
  ultimately show ?thesis
    using assms by (simp add: hdr_wf_def chunk_hdr_def base_ok_def word_less_nat_alt)
qed

lemma make_chunk_bytes:
  assumes "base_ok hdr" and "off \<le> length msg"
  obtains h c where "drm_dp_encode_sideband_msg_hdr (chunk_hdr hdr off (length msg)) = Inr h"
    and "length h = unat (drm_dp_calc_sb_hdr_size hdr)"
    and "make_chunk hdr msg off (length msg) = Inr (chunk_hdr hdr off (length msg), min (length msg - off) (chunk_room hdr),
      h @ take (min (length msg - off) (chunk_room hdr)) (drop off msg) @ [c])"
proof -
  define n where "n = min (length msg - off) (chunk_room hdr)"
  define H where "H = chunk_hdr hdr off (length msg)"
  note size = base_ok_size [OF assms(1)]
  obtain h where h: "drm_dp_encode_sideband_msg_hdr H = Inr h" and lh: "length h = unat (drm_dp_calc_sb_hdr_size H)"
    using decode_encode_hdr [OF chunk_hdr_wf [OF assms(1), of off "length msg"]] by (auto simp: H_def)
  have sz: "drm_dp_calc_sb_hdr_size H = drm_dp_calc_sb_hdr_size hdr"
    by (simp add: H_def chunk_hdr_def drm_dp_calc_sb_hdr_size_def)
  have r: "int (chunk_room hdr) = 48 - 1 - int (unat (drm_dp_calc_sb_hdr_size hdr))" using size(2) by (simp add: chunk_room_def)
  have n: "min (int (length msg - off)) (48 - 1 - int (unat (drm_dp_calc_sb_hdr_size hdr))) = int n"
    unfolding r [symmetric] n_def by simp
  have n47: "n < 48" "off + n \<le> length msg" using assms(2) by (auto simp: n_def chunk_room_def)
  have un: "unat (of_nat n :: u8) = n" using n47 by (simp add: unat_of_nat_small)
  obtain c where c: "drm_dp_msg_data_crc4 (take n (drop off msg)) (of_nat n) = Inr c"
    using drm_dp_msg_data_crc4_ends [of "of_nat n" "take n (drop off msg)"] n47 un by auto
  have hdr: "(if 48 - 1 - int (unat (drm_dp_calc_sb_hdr_size hdr)) \<ge> int (length msg - off)
      then (if length msg - off = length msg then hdr\<lparr>somt := True\<rparr> else hdr)\<lparr>eomt := True\<rparr>
      else (if length msg - off = length msg then hdr\<lparr>somt := True\<rparr> else hdr))\<lparr>msg_len := of_int (int n + 1)\<rparr> = H"
    unfolding r [symmetric] using assms(1)
    by (cases hdr) (auto simp: H_def chunk_hdr_def base_ok_def n_def add.commute)
  have len: "\<not> length (h @ take n (drop off msg) @ [c]) > 48"
    using lh sz n47 size by (simp add: n_def chunk_room_def)
  have "make_chunk hdr msg off (length msg) = Inr (H, n, h @ take n (drop off msg) @ [c])"
    unfolding make_chunk_def Let_def n hdr
    using h n47 un c len by (simp add: aslice_def drm_dp_crc_sideband_chunk_req_def)
  with h lh sz show ?thesis by (intro that) (simp_all add: H_def n_def)
qed

section \<open>The transfer of a message\<close>

definition base_hdr :: "'d drm_dp_mst_topology_mgr \<Rightarrow> nat \<Rightarrow> drm_dp_sideband_msg_hdr" where
  "base_hdr mgr t = (let x = txs mgr t; b = mstbs mgr (tx_dst x) in
     \<lparr>lct = mstb_lct b, lcr = mstb_lct b - 1, rad = take (unat (mstb_lct b div 2)) (mstb_rad b), broadcast = False,
      path_msg = tx_path_msg x, msg_len = 0, somt = False, eomt = False, seqno = (tx_seqno x \<noteq> 0)\<rparr>)"

text \<open>A branch device whose relative address has the nibbles its link count says.\<close>

definition branch_ok :: "drm_dp_mst_branch \<Rightarrow> bool" where
  "branch_ok b \<longleftrightarrow> 0 < mstb_lct b \<and> mstb_lct b < 16 \<and> unat (mstb_lct b div 2) \<le> length (mstb_rad b)"

text \<open>A message that is being sent.\<close>

definition sending :: "'d drm_dp_mst_topology_mgr \<Rightarrow> nat \<Rightarrow> bool" where
  "sending mgr t \<longleftrightarrow> tx_state (txs mgr t) \<noteq> TX_QUEUED \<and> tx_seqno (txs mgr t) \<noteq> -1
     \<and> branch_ok (mstbs mgr (tx_dst (txs mgr t))) \<and> cur_len (txs mgr t) = length (tx_msg (txs mgr t))
     \<and> cur_offset (txs mgr t) \<le> cur_len (txs mgr t)"

lemma base_hdr_ok:
  assumes "branch_ok (mstbs mgr (tx_dst (txs mgr t)))"
  shows "base_ok (base_hdr mgr t)"
  using assms by (auto simp: base_ok_def base_hdr_def branch_ok_def Let_def word_gt_0)

lemma fill_hdr_base:
  assumes "branch_ok (mstbs mgr (tx_dst (txs mgr t)))"
  shows "fill_hdr mgr t = Inr (base_hdr mgr t)"
proof -
  let ?b = "mstbs mgr (tx_dst (txs mgr t))"
  have "(if mstb_lct ?b > 1 then aslice (mstb_rad ?b) 0 (unat (mstb_lct ?b div 2)) else Inr []) =
      Inr (take (unat (mstb_lct ?b div 2)) (mstb_rad ?b))"
  proof (cases "mstb_lct ?b > 1")
    case False
    then have "unat (mstb_lct ?b) \<le> 1" by (simp add: word_less_nat_alt)
    then show ?thesis using False by (simp add: unat_div)
  qed (use assms in \<open>simp add: aslice_def branch_ok_def\<close>)
  then show ?thesis by (simp add: fill_hdr_def base_hdr_def Let_def)
qed

lemma set_hdr_sending:
  assumes "sending mgr t"
  shows "set_hdr_from_dst_qlock mgr t = Inr (Inr (base_hdr mgr t), mgr)"
  using assms fill_hdr_base [of mgr t] by (simp add: set_hdr_from_dst_qlock_def sending_def)

lemma process_sending:
  assumes "mem_dpcd dp view" and "sending mgr t" and "0 < max_dpcd_transaction_bytes mgr" and "48 \<le> fuel"
    and "x = txs mgr t" and "H = base_hdr mgr t" and "n = min (cur_len x - cur_offset x) (chunk_room H)"
    and "base = (if up then DP_SIDEBAND_MSG_UP_REP_BASE dp else DP_SIDEBAND_MSG_DOWN_REQ_BASE dp)"
  shows "\<exists>h c mgr'. drm_dp_encode_sideband_msg_hdr (chunk_hdr H (cur_offset x) (cur_len x)) = Inr h
    \<and> length h = unat (drm_dp_calc_sb_hdr_size H)
    \<and> process_single_tx_qlock dp fuel mgr t up = Inr (Inr (cur_offset x + n = cur_len x), mgr')
    \<and> (\<forall>i < length h + n + 1. view (aux mgr') (base + i) =
        (h @ take n (drop (cur_offset x) (tx_msg x)) @ [c]) ! i)
    \<and> sending mgr' t \<and> base_hdr mgr' t = H \<and> cur_offset (txs mgr' t) = cur_offset x + n
    \<and> tx_msg (txs mgr' t) = tx_msg x \<and> max_dpcd_transaction_bytes mgr' = max_dpcd_transaction_bytes mgr
    \<and> mstbs mgr' = mstbs mgr \<and> tx_msg_upq mgr' = tx_msg_upq mgr"
proof -
  have x: "cur_len x = length (tx_msg x)" "cur_offset x \<le> cur_len x" "tx_state x \<noteq> TX_QUEUED"
    using assms(2,5) by (simp_all add: sending_def)
  have bo: "base_ok H" using assms(2,6) base_hdr_ok by (auto simp: sending_def)
  obtain h c where h: "drm_dp_encode_sideband_msg_hdr (chunk_hdr H (cur_offset x) (cur_len x)) = Inr h"
    and lh: "length h = unat (drm_dp_calc_sb_hdr_size H)"
    and mk: "make_chunk H (tx_msg x) (cur_offset x) (cur_len x) =
      Inr (chunk_hdr H (cur_offset x) (cur_len x), n, h @ take n (drop (cur_offset x) (tx_msg x)) @ [c])"
    using make_chunk_bytes [OF bo x(2) [unfolded x(1)]] unfolding assms(7) x(1) by metis
  let ?bytes = "h @ take n (drop (cur_offset x) (tx_msg x)) @ [c]"
  have n: "cur_offset x + n \<le> cur_len x" using x by (simp add: assms(7))
  have lb: "length ?bytes = length h + n + 1" using n x(1) by simp
  have "n \<le> 47 - unat (drm_dp_calc_sb_hdr_size H)" by (simp add: assms(7) chunk_room_def)
  then have "length ?bytes \<le> fuel" unfolding lb lh using base_ok_size [OF bo] assms(4) by linarith
  then obtain d where sl: "send_loop dp base (max_dpcd_transaction_bytes mgr) ?bytes fuel (aux mgr) 0 0
      = Inr (None, d)" and v: "\<forall>i < length ?bytes. view d (base + i) = ?bytes ! i"
    using send_loop_mem [OF assms(1,3), of 0 ?bytes fuel "aux mgr" base 0] by auto
  define mgr1 where "mgr1 = upd_tx (mgr\<lparr>aux := d\<rparr>) t (\<lambda>x. x\<lparr>cur_offset := cur_offset x + n\<rparr>)"
  define mgr' where "mgr' = (if cur_offset x + n = cur_len x then upd_tx mgr1 t (\<lambda>x. x\<lparr>tx_state := TX_SENT\<rparr>) else mgr1)"
  have sh: "set_hdr_from_dst_qlock mgr t = Inr (Inr H, mgr)" using set_hdr_sending [OF assms(2)] assms(6) by simp
  have "process_single_tx_qlock dp fuel mgr t up = Inr (Inr (cur_offset x + n = cur_len x), mgr')"
    using x(3) sl
    by (simp add: process_single_tx_qlock_def sh assms(5) [symmetric] mk drm_dp_send_sideband_msg_def assms(8) [symmetric] Let_def mgr'_def mgr1_def)
  moreover have "sending mgr' t" "base_hdr mgr' t = H" "cur_offset (txs mgr' t) = cur_offset x + n"
    "tx_msg (txs mgr' t) = tx_msg x" "max_dpcd_transaction_bytes mgr' = max_dpcd_transaction_bytes mgr" "aux mgr' = d"
    "mstbs mgr' = mstbs mgr" "tx_msg_upq mgr' = tx_msg_upq mgr"
    using assms(2,5,6) n by (simp_all add: mgr'_def mgr1_def sending_def base_hdr_def Let_def)
  ultimately show ?thesis using h lh v unfolding lb by blast
qed

text \<open>The first chunk of a queued message gives it a sequence number and a slot.\<close>

lemma process_queued:
  assumes "tx_state (txs mgr t) = TX_QUEUED" and "branch_ok (mstbs mgr (tx_dst (txs mgr t)))"
    and "cur_len (txs mgr t) = length (tx_msg (txs mgr t))" and "cur_offset (txs mgr t) = 0"
    and "tx_slot0 (mstbs mgr (tx_dst (txs mgr t))) = None \<or> tx_slot1 (mstbs mgr (tx_dst (txs mgr t))) = None"
  shows "\<exists>mgr2. sending mgr2 t \<and> process_single_tx_qlock dp fuel mgr t up = process_single_tx_qlock dp fuel mgr2 t up
    \<and> cur_offset (txs mgr2 t) = 0 \<and> tx_msg (txs mgr2 t) = tx_msg (txs mgr t)
    \<and> max_dpcd_transaction_bytes mgr2 = max_dpcd_transaction_bytes mgr
    \<and> base_hdr mgr2 t = (base_hdr mgr t)\<lparr>seqno := seqno (base_hdr mgr2 t)\<rparr>
    \<and> tx_msg_upq mgr2 = tx_msg_upq mgr
    \<and> Some t \<in> {tx_slot0 (mstbs mgr2 (tx_dst (txs mgr t))), tx_slot1 (mstbs mgr2 (tx_dst (txs mgr t)))}"
proof -
  define m where "m = tx_dst (txs mgr t)"
  define b where "b = mstbs mgr m"
  define sn :: int where "sn = (if tx_slot0 b = None \<and> tx_slot1 b = None then of_bool (last_seqno b)
    else if tx_slot0 b = None then 0 else 1)"
  define b1 where "b1 = (if tx_slot0 b = None \<and> tx_slot1 b = None then b\<lparr>last_seqno := \<not> last_seqno b\<rparr> else b)"
  have sn: "sn = 0 \<or> sn = 1" by (simp add: sn_def)
  then obtain b2 where b2: "set_slot b1 sn (Some t) = Inr b2" and lr: "mstb_lct b2 = mstb_lct b" "mstb_rad b2 = mstb_rad b"
      "Some t \<in> {tx_slot0 b2, tx_slot1 b2}"
    by (cases "sn = 0") (auto simp: set_slot_def b1_def)
  define mgr1 where "mgr1 = upd_tx mgr t (\<lambda>x. x\<lparr>tx_seqno := -1, tx_state := TX_START_SEND\<rparr>)"
  define mgr2 where "mgr2 = upd_tx (set_mstb mgr1 m b2) t (\<lambda>x. x\<lparr>tx_seqno := sn\<rparr>)"
  have snd: "sending mgr2 t"
    using sn assms(2-4) lr by (auto simp: sending_def mgr2_def mgr1_def branch_ok_def m_def b_def)
  have pair: "(if tx_slot0 b = None \<and> tx_slot1 b = None then (of_bool (last_seqno b) :: int, b\<lparr>last_seqno := \<not> last_seqno b\<rparr>)
      else if tx_slot0 b = None then (0, b) else (1, b)) = (sn, b1)"
    by (simp add: sn_def b1_def)
  have "tx_dst (txs mgr1 t) = m" "tx_seqno (txs mgr1 t) = -1" "mstbs mgr1 m = b"
    by (simp_all add: mgr1_def m_def b_def)
  moreover have "\<not> (tx_slot0 b \<noteq> None \<and> tx_slot1 b \<noteq> None)" using assms(5) by (auto simp: b_def m_def)
  ultimately have "take_slot mgr1 t = Inr (Some mgr2)"
    using b2 unfolding take_slot_def Let_def mgr2_def by (simp only: pair if_False prod.case bnd_simps)
  then have "set_hdr_from_dst_qlock mgr1 t = set_hdr_from_dst_qlock mgr2 t"
    using set_hdr_sending [OF snd] snd fill_hdr_base [of mgr2 t] \<open>tx_seqno (txs mgr1 t) = -1\<close>
    by (simp add: set_hdr_from_dst_qlock_def sending_def)
  moreover have "tx_state (txs mgr2 t) \<noteq> TX_QUEUED" using snd by (simp add: sending_def)
  ultimately have "process_single_tx_qlock dp fuel mgr t up = process_single_tx_qlock dp fuel mgr2 t up"
    using assms(1) by (simp add: process_single_tx_qlock_def mgr1_def [symmetric])
  moreover have "base_hdr mgr2 t = (base_hdr mgr t)\<lparr>seqno := seqno (base_hdr mgr2 t)\<rparr>"
    using lr by (simp add: base_hdr_def mgr2_def mgr1_def Let_def m_def b_def)
  ultimately show ?thesis
    using snd assms(4) lr(3) by (intro exI [of _ mgr2]) (simp add: mgr2_def mgr1_def m_def)
qed

text \<open>
  A message is sent chunk by chunk, and a receiver gets every chunk from the registers it was written to.
\<close>

fun transfer ::
  "'d dpcd \<Rightarrow> nat \<Rightarrow> nat \<Rightarrow> 'd drm_dp_mst_topology_mgr \<Rightarrow> nat \<Rightarrow> drm_dp_sideband_msg_rx \<Rightarrow> u8 list
     \<Rightarrow> trap + err option \<times> 'd drm_dp_mst_topology_mgr \<times> drm_dp_sideband_msg_rx" where
  "transfer dp fuel 0 mgr t rx block = Inl Out_of_fuel"
| "transfer dp fuel (Suc n) mgr t rx block =
     bnd (process_single_tx_qlock dp fuel mgr t False) (\<lambda>(r, mgr).
       case r of Inl e \<Rightarrow> Inr (Some e, mgr, rx)
       | Inr sent \<Rightarrow>
           bnd (get_one_sb_msg dp fuel (DP_SIDEBAND_MSG_DOWN_REQ_BASE dp) (max_dpcd_transaction_bytes mgr) (aux mgr) rx block)
             (\<lambda>(rx, _). if sent then Inr (None, mgr, rx) else transfer dp fuel n mgr t rx block))"

lemma mem_dpcd_holds:
  assumes "mem_dpcd dp view" and "\<forall>i < length bs. view d (base + i) = bs ! i"
  shows "holds dp d base (bs @ map (view d) [base + length bs..<base + length bs + 16])"
proof -
  have "bs = map (view d) [base..<base + length bs]" using assms(2) by (intro nth_equalityI) simp_all
  then have m: "bs @ map (view d) [base + length bs..<base + length bs + 16] = map (view d) [base..<base + length bs + 16]"
    by (metis add.assoc le_add1 map_append upt_add_eq_append)
  have "drm_dp_dpcd_read dp d (base + off) len = (Inr len, map (view d) [base + off..<base + off + len], d)" for off len
    using assms(1) unfolding mem_dpcd_def by blast
  then show ?thesis unfolding holds_def m by (auto intro!: nth_equalityI simp: add.assoc)
qed

text \<open>What the receiver has after the chunks up to an offset.\<close>

definition rx_upto :: "drm_dp_sideband_msg_rx \<Rightarrow> drm_dp_sideband_msg_hdr \<Rightarrow> u8 list \<Rightarrow> nat \<Rightarrow> bool" where
  "rx_upto rx H msg off \<longleftrightarrow> length (chunk rx) = 48 \<and> length (rx_msg rx) = 256 \<and> curlen rx = of_nat off
     \<and> take off (rx_msg rx) = take off msg \<and> have_somt rx = (0 < off)
     \<and> (0 < off \<longrightarrow> initial_hdr rx = chunk_hdr H 0 (length msg))"

lemma rx_upto_received:
  assumes "rx_upto rx H msg off" and "received rx (chunk_hdr H off (length msg)) (take n (drop off msg)) rx'"
    and "off + n \<le> length msg" and "length msg < 256" and "0 < n \<or> msg = []"
  shows "rx_upto rx' H msg (off + n) \<or> msg = []" and "have_eomt rx' = (have_eomt rx \<or> length msg - off \<le> chunk_room H)"
    and "length (rx_msg rx') = 256" and "have_somt rx'" "initial_hdr rx' = chunk_hdr H 0 (length msg)"
    and "curlen rx' = of_nat (off + n)" and "take (off + n) (rx_msg rx') = take (off + n) msg"
proof -
  have u: "unat (of_nat off :: u8) = off" using assms(3,4) by (simp add: unat_of_nat_small)
  have l: "length (take n (drop off msg)) = n" using assms(3) by simp
  note r = assms(2) [unfolded received_def] and x = assms(1) [unfolded rx_upto_def]
  have off: "off = 0 \<or> off < length msg" using assms(3,5) by auto
  have so: "somt (chunk_hdr H off (length msg)) \<longleftrightarrow> off = 0" using off by (auto simp: chunk_hdr_def)
  show e: "have_eomt rx' = (have_eomt rx \<or> length msg - off \<le> chunk_room H)" using r by (simp add: chunk_hdr_def)
  show s: "have_somt rx'" using r x so by auto
  show i: "initial_hdr rx' = chunk_hdr H 0 (length msg)" using r x so by auto
  show c: "curlen rx' = of_nat (off + n)" using r x l by simp
  show m: "length (rx_msg rx') = 256" using r x l u assms(3,4) by simp
  show t: "take (off + n) (rx_msg rx') = take (off + n) msg"
    using r x l u assms(3,4) by (simp add: take_add)
  show "rx_upto rx' H msg (off + n) \<or> msg = []"
    using r s i c m t assms(5) by (auto simp: rx_upto_def)
qed

lemma transfer_loop:
  assumes "mem_dpcd dp view" and "sending mgr t" and "10 \<le> max_dpcd_transaction_bytes mgr" and "48 \<le> fuel"
    and "length (tx_msg (txs mgr t)) < 256" and "length block = 32"
    and "cur_offset (txs mgr t) < length (tx_msg (txs mgr t)) \<or> tx_msg (txs mgr t) = []"
    and "length (tx_msg (txs mgr t)) - cur_offset (txs mgr t) < n"
    and "rx_upto rx (base_hdr mgr t) (tx_msg (txs mgr t)) (cur_offset (txs mgr t))"
  shows "\<exists>mgr' rx'. transfer dp fuel n mgr t rx block = Inr (None, mgr', rx') \<and> have_eomt rx' \<and> have_somt rx'
    \<and> unat (curlen rx') = length (tx_msg (txs mgr t)) \<and> take (length (tx_msg (txs mgr t))) (rx_msg rx') = tx_msg (txs mgr t)
    \<and> initial_hdr rx' = chunk_hdr (base_hdr mgr t) 0 (length (tx_msg (txs mgr t)))"
  using assms(2-)
proof (induction n arbitrary: mgr rx)
  case (Suc n)
  define x where "x = txs mgr t"
  define H where "H = base_hdr mgr t"
  define k where "k = min (cur_len x - cur_offset x) (chunk_room H)"
  let ?msg = "tx_msg x" and ?off = "cur_offset x" and ?base = "DP_SIDEBAND_MSG_DOWN_REQ_BASE dp"
  have x: "cur_len x = length ?msg" "?off \<le> length ?msg" using Suc.prems(1) by (simp_all add: sending_def x_def)
  have bo: "base_ok H" unfolding H_def using Suc.prems(1) by (intro base_hdr_ok) (simp add: sending_def)
  have room: "37 \<le> chunk_room H" "chunk_room H \<le> 44" using base_ok_size [OF bo] by (simp_all add: chunk_room_def)
  have k: "?off + k \<le> length ?msg" "0 < k \<or> ?msg = []" "k \<le> 44"
    using x Suc.prems(6) room by (auto simp: k_def x_def)
  have "0 < max_dpcd_transaction_bytes mgr" using Suc.prems(2) by simp
  from process_sending [OF assms(1) Suc.prems(1) this Suc.prems(3) x_def H_def k_def refl, of False]
  obtain h c mgr' where h: "drm_dp_encode_sideband_msg_hdr (chunk_hdr H ?off (length ?msg)) = Inr h"
    "length h = unat (drm_dp_calc_sb_hdr_size H)"
    and pr: "process_single_tx_qlock dp fuel mgr t False = Inr (Inr (?off + k = length ?msg), mgr')"
    and v: "\<forall>i < length h + k + 1. view (aux mgr') (?base + i) = (h @ take k (drop ?off ?msg) @ [c]) ! i"
    and m': "sending mgr' t" "base_hdr mgr' t = H" "cur_offset (txs mgr' t) = ?off + k" "tx_msg (txs mgr' t) = ?msg"
      "max_dpcd_transaction_bytes mgr' = max_dpcd_transaction_bytes mgr" unfolding x(1) if_False by blast
  define q where "q = take k (drop ?off ?msg) @ [c]"
  have lq: "length q = Suc k" using k by (simp add: q_def)
  have "holds dp (aux mgr') ?base ((h @ q) @ map (view (aux mgr')) [?base + length (h @ q)..<?base + length (h @ q) + 16])"
    using v lq by (intro mem_dpcd_holds [OF assms(1)]) (simp add: q_def [symmetric])
  then have hold: "holds dp (aux mgr') ?base (h @ q @ map (view (aux mgr')) [?base + length (h @ q)..<?base + length (h @ q) + 16])"
    by simp
  have rx: "rx_upto rx H ?msg ?off" using Suc.prems(8) by (simp add: x_def H_def)
  have so: "\<not> (somt (chunk_hdr H ?off (length ?msg)) \<and> have_somt rx)"
    using rx k x by (auto simp: rx_upto_def chunk_hdr_def)
  have ml: "msg_len (chunk_hdr H ?off (length ?msg)) = of_nat (length q)" unfolding lq by (simp add: chunk_hdr_def k_def x)
  have cl: "unat (curlen rx) + length (take k (drop ?off ?msg)) \<le> length (rx_msg rx)"
    using rx k Suc.prems(4) by (simp add: rx_upto_def x_def [symmetric] unat_of_nat_small)
  have "length h \<le> min (max_dpcd_transaction_bytes mgr') 16" using h(2) base_ok_size [OF bo] Suc.prems(2) m'(5) by simp
  from recv_chunk [OF chunk_hdr_wf [OF bo] h(1) ml q_def _ this hold _ Suc.prems(5) _ so cl, of fuel] rx lq k Suc.prems(3)
  obtain rx' where get: "get_one_sb_msg dp fuel ?base (max_dpcd_transaction_bytes mgr') (aux mgr') rx block = Inr (rx', aux mgr')"
    and rc: "received rx (chunk_hdr H ?off (length ?msg)) (take k (drop ?off ?msg)) rx'"
    by (auto simp: rx_upto_def)
  note r = rx_upto_received [OF rx rc k(1) _ k(2)]
  have step: "transfer dp fuel (Suc n) mgr t rx block =
      (if ?off + k = length ?msg then Inr (None, mgr', rx') else transfer dp fuel n mgr' t rx' block)"
    by (simp add: pr get)
  show ?case
  proof (cases "?off + k = length ?msg")
    case True
    moreover from True have "length ?msg - ?off \<le> chunk_room H" using x by (simp add: k_def)
    ultimately show ?thesis
      using r Suc.prems(4) unfolding step by (auto simp: x_def [symmetric] H_def [symmetric] unat_of_nat_small)
  next
    case False
    then have "?msg \<noteq> []" "?off + k < length ?msg" using k by auto
    then show ?thesis
      using Suc.IH [OF m'(1), of rx'] m' r(1) Suc.prems k False unfolding step
      by (auto simp: x_def [symmetric] H_def [symmetric])
  qed
qed simp

text \<open>
  C28: a queued message of at most 255 bytes, sent chunk by chunk with \<^verbatim>\<open>process_single_tx_qlock\<close> to a branch device
  with a free slot, is put together by a receiver that gets every chunk with \<^verbatim>\<open>drm_dp_get_one_sb_msg\<close>: at the end the receiver has exactly the bytes of
  the message and the marks for its start and its end, and the header it kept names the link count and the relative address of
  the branch device.
\<close>

theorem sideband_message_transfer:
  assumes "mem_dpcd dp view" and "10 \<le> max_dpcd_transaction_bytes mgr" and "48 \<le> fuel"
    and "tx_state (txs mgr t) = TX_QUEUED" and "cur_offset (txs mgr t) = 0"
    and "cur_len (txs mgr t) = length (tx_msg (txs mgr t))" and "length (tx_msg (txs mgr t)) < 256"
    and "branch_ok (mstbs mgr (tx_dst (txs mgr t)))"
    and "tx_slot0 (mstbs mgr (tx_dst (txs mgr t))) = None \<or> tx_slot1 (mstbs mgr (tx_dst (txs mgr t))) = None"
    and "length (chunk rx) = 48" and "length (rx_msg rx) = 256" and "curlen rx = 0" and "\<not> have_somt rx"
    and "length block = 32"
  shows "\<exists>mgr' rx'. transfer dp fuel (Suc (length (tx_msg (txs mgr t)))) mgr t rx block = Inr (None, mgr', rx')
    \<and> take (unat (curlen rx')) (rx_msg rx') = tx_msg (txs mgr t) \<and> unat (curlen rx') = length (tx_msg (txs mgr t))
    \<and> have_somt rx' \<and> have_eomt rx' \<and> lct (initial_hdr rx') = mstb_lct (mstbs mgr (tx_dst (txs mgr t)))
    \<and> rad (initial_hdr rx') = take (unat (lct (initial_hdr rx') div 2)) (mstb_rad (mstbs mgr (tx_dst (txs mgr t))))"
proof -
  let ?msg = "tx_msg (txs mgr t)"
  obtain mgr2 where m2: "sending mgr2 t" "cur_offset (txs mgr2 t) = 0" "tx_msg (txs mgr2 t) = ?msg"
    "max_dpcd_transaction_bytes mgr2 = max_dpcd_transaction_bytes mgr"
    and pr: "process_single_tx_qlock dp fuel mgr t False = process_single_tx_qlock dp fuel mgr2 t False"
    and bh: "base_hdr mgr2 t = (base_hdr mgr t)\<lparr>seqno := seqno (base_hdr mgr2 t)\<rparr>"
    using process_queued [OF assms(4,8,6,5,9), of dp fuel False] by blast
  have "rx_upto rx (base_hdr mgr2 t) ?msg 0" using assms(10-13) by (simp add: rx_upto_def)
  then obtain mgr' rx' where tr: "transfer dp fuel (Suc (length ?msg)) mgr2 t rx block = Inr (None, mgr', rx')"
    and r: "have_eomt rx'" "have_somt rx'" "unat (curlen rx') = length ?msg" "take (length ?msg) (rx_msg rx') = ?msg"
      "initial_hdr rx' = chunk_hdr (base_hdr mgr2 t) 0 (length ?msg)"
    using transfer_loop [OF assms(1) m2(1) _ assms(3) _ assms(14), of "Suc (length ?msg)" rx] m2(2-4) assms(2,7) by auto
  have "transfer dp fuel (Suc (length ?msg)) mgr t rx block = Inr (None, mgr', rx')" using tr by (simp add: pr)
  moreover have "lct (initial_hdr rx') = lct (base_hdr mgr t)" "rad (initial_hdr rx') = rad (base_hdr mgr t)"
    unfolding r(5) by (subst bh, simp add: chunk_hdr_def)+
  ultimately show ?thesis using r by (simp add: base_hdr_def Let_def)
qed

text \<open>Registers that are a memory, and a manager with one branch device and one message.\<close>

definition mem_aux :: "(nat \<Rightarrow> u8) dpcd" where
  "mem_aux = \<lparr>drm_dp_dpcd_write = (\<lambda>d a bs. (Inr (length bs), \<lambda>i. if a \<le> i \<and> i < a + length bs then bs ! (i - a) else d i)),
     drm_dp_dpcd_read = (\<lambda>d a n. (Inr n, map d [a..<a + n], d)), DP_SIDEBAND_MSG_DOWN_REQ_BASE = 0x1000,
     DP_SIDEBAND_MSG_UP_REP_BASE = 0x1200, DP_SIDEBAND_MSG_DOWN_REP_BASE = 0x1400, DP_SIDEBAND_MSG_UP_REQ_BASE = 0x1600\<rparr>"

definition one_msg_mgr :: "u8 list \<Rightarrow> (nat \<Rightarrow> u8) drm_dp_mst_topology_mgr" where
  "one_msg_mgr m = \<lparr>aux = (\<lambda>_. 0), max_dpcd_transaction_bytes = 16,
     txs = (\<lambda>_. \<lparr>tx_msg = m, cur_offset = 0, cur_len = length m, tx_seqno = 0, tx_path_msg = False, tx_state = TX_QUEUED,
       tx_dst = 0\<rparr>),
     mstbs = (\<lambda>_. \<lparr>mstb_lct = 2, mstb_rad = [0x80], tx_slot0 = None, tx_slot1 = None, last_seqno = False\<rparr>),
     tx_msg_downq = [0], tx_msg_upq = [], tx_down_in_progress = False, tx_up_in_progress = False,
     down_rep_recv = zero_rx, up_req_recv = zero_rx, tx_waitq_woken = False\<rparr>"

theorem sideband_message_transfer_witness:
  "\<exists>mgr' rx'. transfer mem_aux 48 101 (one_msg_mgr (replicate 100 7)) 0 zero_rx (replicate 32 0) = Inr (None, mgr', rx')
    \<and> take 100 (rx_msg rx') = replicate 100 7"
proof -
  have "mem_dpcd mem_aux (\<lambda>d. d)" by (auto simp: mem_dpcd_def mem_aux_def)
  note transfer = sideband_message_transfer [OF this, of "one_msg_mgr (replicate 100 7)" 48 0 zero_rx "replicate 32 0"]
  have "branch_ok (mstbs (one_msg_mgr (replicate 100 7)) 0)" by (simp add: branch_ok_def one_msg_mgr_def)
  with transfer show ?thesis by (auto simp: one_msg_mgr_def zero_rx_def simp del: transfer.simps)
qed

section \<open>Replies to requests of a branch device\<close>



end
