(* ===== verification/Dp_Mst_Topology.thy ===== *)
theory Dp_Mst_Topology
  imports Dp_Mst_Tx
begin

text \<open>
  The topology of a DisplayPort multi-stream device, \<^verbatim>\<open>drm_dp_mst_topology.c\<close>: the tree of branch devices and ports with
  their reference counts, the relative addresses of branch devices, and the lookups.

  Branch devices and ports are in a store; an address that has been freed has no object, and an access to it is the trap
  \<open>Use_after_free\<close>.  A virtual channel is embedded in its port and named by the address of the port.  The search and the
  release of objects walk down the tree; fuel bounds the depth.
\<close>

unbundle bit_operations_syntax

section \<open>State\<close>

datatype peer_device_type = DP_LEGACY_CONV | SST_SINK | MST_BRANCHING | OTHER_PEER

text \<open>A port with its \<^verbatim>\<open>struct drm_dp_vcpi\<close>.\<close>

record mst_port =
  port_kref :: nat
  port_num :: u8
  input :: bool
  pdt :: peer_device_type
  port_mstb :: "ptr option"
  port_parent :: ptr
  vcpi_id :: int
  vcpi_pbn :: int
  vcpi_aligned_pbn :: int
  vcpi_num_slots :: int
  port_mcs :: bool
  port_ddps :: bool
  port_ldps :: bool
  port_dpcd_rev :: u8
  port_sdp_streams :: u8
  port_sdp_stream_sinks :: u8
  port_guid :: "u8 list"
  port_guid_valid :: bool
  available_pbn :: u16
  cached_edid :: "nat option"

record mst_branch = drm_dp_mst_branch +
  mstb_kref :: nat
  mstb_ports :: "ptr list"
  mstb_port_parent :: "ptr option"
  link_address_sent :: bool

datatype payload_state = PAYLOAD_NONE | PAYLOAD_LOCAL | PAYLOAD_REMOTE | PAYLOAD_DELETE_LOCAL

record drm_dp_payload =
  payload_state :: payload_state
  start_slot :: int
  payload_num_slots :: int

text \<open>
  The part of the manager that this code works on.  \<open>tx_states\<close> are the states of the messages, \<open>waitq_woken\<close> says that the
  waiters for them have been woken, \<open>work_queued\<close> that the probe work has been queued, and \<open>i2c_buses\<close>, \<open>connectors\<close> and \<open>hotplugs\<close>
  log the registered buses, the connectors with their paths and the number of hotplug calls.  An EDID is named by a number.
\<close>

record topology =
  branches :: "ptr \<Rightarrow> mst_branch option"
  mports :: "ptr \<Rightarrow> mst_port option"
  mst_primary :: "ptr option"
  max_payloads :: nat
  payload_mask :: ulong
  vcpi_mask :: ulong
  proposed_vcpis :: "ptr option list"
  payloads :: "drm_dp_payload list"
  pbn_div :: int
  avail_slots :: int
  tx_states :: "nat \<Rightarrow> tx_state"
  waitq_woken :: bool
  i2c_buses :: "ptr set"
  connectors :: "ptr \<Rightarrow> string option"
  hotplugs :: nat
  mst_state :: bool
  total_slots :: int
  mgr_dpcd :: "u8 list"
  mgr_guid :: "u8 list"
  mgr_guid_valid :: bool
  work_queued :: bool

definition get_mport :: "topology \<Rightarrow> ptr \<Rightarrow> trap + mst_port" where
  "get_mport t p = (case mports t p of None \<Rightarrow> Inl Use_after_free | Some x \<Rightarrow> Inr x)"

definition get_branch :: "topology \<Rightarrow> ptr \<Rightarrow> trap + mst_branch" where
  "get_branch t b = (case branches t b of None \<Rightarrow> Inl Use_after_free | Some x \<Rightarrow> Inr x)"

definition put_mport :: "topology \<Rightarrow> ptr \<Rightarrow> mst_port \<Rightarrow> topology" where
  "put_mport t p x = t\<lparr>mports := (mports t)(p \<mapsto> x)\<rparr>"

definition put_branch :: "topology \<Rightarrow> ptr \<Rightarrow> mst_branch \<Rightarrow> topology" where
  "put_branch t b x = t\<lparr>branches := (branches t)(b \<mapsto> x)\<rparr>"

section \<open>Payload ids\<close>

text \<open>The bit operations on the word of a mask.\<close>

definition mask_set :: "nat \<Rightarrow> ulong \<Rightarrow> trap + ulong" where
  "mask_set k m = (if k < 64 then Inr (Bit_Operations.set_bit k m) else Inl Oob)"

definition mask_clear :: "nat \<Rightarrow> ulong \<Rightarrow> trap + ulong" where
  "mask_clear k m = (if k < 64 then Inr (unset_bit k m) else Inl Oob)"

definition find_first_zero_bit :: "ulong \<Rightarrow> nat \<Rightarrow> trap + nat" where
  "find_first_zero_bit m n = (if n > 64 then Inl Oob
     else Inr (case find (\<lambda>k. \<not> bit m k) [0..<n] of None \<Rightarrow> n | Some k \<Rightarrow> k))"

definition drm_dp_mst_assign_payload_id :: "topology \<Rightarrow> ptr \<Rightarrow> trap + (err + nat) \<times> topology" where
  "drm_dp_mst_assign_payload_id t p =
     bnd (find_first_zero_bit (payload_mask t) (max_payloads t + 1)) (\<lambda>ret.
     if ret > max_payloads t then Inr (Inl EINVAL, t) else
     bnd (find_first_zero_bit (vcpi_mask t) (max_payloads t + 1)) (\<lambda>vcpi_ret.
     if vcpi_ret > max_payloads t then Inr (Inl EINVAL, t) else
     bnd (mask_set ret (payload_mask t)) (\<lambda>pm.
     bnd (mask_set vcpi_ret (vcpi_mask t)) (\<lambda>vm.
     bnd (get_mport t p) (\<lambda>x.
     let t = put_mport (t\<lparr>payload_mask := pm, vcpi_mask := vm\<rparr>) p (x\<lparr>vcpi_id := int vcpi_ret + 1\<rparr>)
     in if ret = 0 then Inl Oob else
        bnd (aput (proposed_vcpis t) (ret - 1) (Some p)) (\<lambda>ps.
        Inr (Inr ret, t\<lparr>proposed_vcpis := ps\<rparr>)))))))"

text \<open>The loop over the proposed channels: \<open>n\<close> iterations from index \<open>i\<close> on.\<close>

fun put_payload_loop :: "nat \<Rightarrow> nat \<Rightarrow> int \<Rightarrow> topology \<Rightarrow> trap + topology" where
  "put_payload_loop 0 i vcpi t = Inr t"
| "put_payload_loop (Suc n) i vcpi t =
     bnd (aget (proposed_vcpis t) i) (\<lambda>q.
     bnd (case q of
            None \<Rightarrow> Inr t
          | Some p \<Rightarrow> bnd (get_mport t p) (\<lambda>x.
              if vcpi_id x = vcpi then
                bnd (aput (proposed_vcpis t) i None) (\<lambda>ps.
                bnd (mask_clear (i + 1) (payload_mask t)) (\<lambda>pm.
                Inr (t\<lparr>proposed_vcpis := ps, payload_mask := pm\<rparr>)))
              else Inr t)) (\<lambda>t.
     put_payload_loop n (Suc i) vcpi t))"

definition drm_dp_mst_put_payload_id :: "topology \<Rightarrow> int \<Rightarrow> trap + topology" where
  "drm_dp_mst_put_payload_id t vcpi =
     (if vcpi = 0 then Inr t else if vcpi < 0 then Inl Oob else
      bnd (mask_clear (nat (vcpi - 1)) (vcpi_mask t)) (\<lambda>vm.
      put_payload_loop (max_payloads t) 0 vcpi (t\<lparr>vcpi_mask := vm\<rparr>)))"

section \<open>Branch devices\<close>

text \<open>
  \<open>addr\<close> is the address the allocator returns, none when it is out of memory.  The address array of a device has eight bytes.
\<close>

definition drm_dp_add_mst_branch_device :: "ptr option \<Rightarrow> topology \<Rightarrow> u8 \<Rightarrow> u8 list \<Rightarrow> trap + ptr option \<times> topology" where
  "drm_dp_add_mst_branch_device addr t l r =
     (case addr of
        None \<Rightarrow> Inr (None, t)
      | Some b \<Rightarrow>
          bnd (if l > 1 then bnd (aslice r 0 (unat (l div 2))) (ablit (replicate 8 0) 0) else Inr (replicate 8 0)) (\<lambda>rd.
          Inr (Some b, put_branch t b \<lparr>mstb_lct = l, mstb_rad = rd, tx_slot0 = None, tx_slot1 = None, last_seqno = False,
            mstb_kref = 1, mstb_ports = [], mstb_port_parent = None, link_address_sent = False\<rparr>)))"

definition drop_slot :: "nat option \<Rightarrow> topology \<Rightarrow> topology" where
  "drop_slot s t = (case s of None \<Rightarrow> t
     | Some m \<Rightarrow> t\<lparr>tx_states := (tx_states t)(m := TX_TIMEOUT), waitq_woken := True\<rparr>)"

text \<open>
  The release of ports and branch devices.  They call each other: \<open>put_b\<close> is \<^verbatim>\<open>drm_dp_put_mst_branch_device\<close>.
\<close>

definition port_teardown_pdt_with ::
  "(topology \<Rightarrow> ptr \<Rightarrow> trap + topology) \<Rightarrow> topology \<Rightarrow> ptr \<Rightarrow> peer_device_type \<Rightarrow> trap + topology" where
  "port_teardown_pdt_with put_b t p old_pdt =
     (case old_pdt of
        DP_LEGACY_CONV \<Rightarrow> Inr (t\<lparr>i2c_buses := i2c_buses t - {p}\<rparr>)
      | SST_SINK \<Rightarrow> Inr (t\<lparr>i2c_buses := i2c_buses t - {p}\<rparr>)
      | MST_BRANCHING \<Rightarrow> bnd (get_mport t p) (\<lambda>x.
          case port_mstb x of
            None \<Rightarrow> Inl Null_deref
          | Some b \<Rightarrow> put_b (put_mport t p (x\<lparr>port_mstb := None\<rparr>)) b)
      | OTHER_PEER \<Rightarrow> Inr t)"

definition destroy_port_with :: "(topology \<Rightarrow> ptr \<Rightarrow> trap + topology) \<Rightarrow> topology \<Rightarrow> ptr \<Rightarrow> trap + topology" where
  "destroy_port_with put_b t p =
     bnd (get_mport t p) (\<lambda>x.
     bnd (if \<not> input x then
            let t = put_mport t p (x\<lparr>vcpi_num_slots := 0\<rparr>);
                t = t\<lparr>connectors := (connectors t)(p := None)\<rparr>
            in bnd (port_teardown_pdt_with put_b t p (pdt x)) (\<lambda>t.
               bnd (get_mport t p) (\<lambda>x.
               if vcpi_id x > 0 then drm_dp_mst_put_payload_id t (vcpi_id x) else Inr t))
          else Inr t) (\<lambda>t.
     Inr (t\<lparr>mports := (mports t)(p := None), hotplugs := hotplugs t + 1\<rparr>)))"

definition put_port_with :: "(topology \<Rightarrow> ptr \<Rightarrow> trap + topology) \<Rightarrow> topology \<Rightarrow> ptr \<Rightarrow> trap + topology" where
  "put_port_with put_b t p =
     bnd (get_mport t p) (\<lambda>x.
     let t = put_mport t p (x\<lparr>port_kref := port_kref x - 1\<rparr>)
     in if port_kref x = 1 then destroy_port_with put_b t p else Inr t)"

fun destroy_ports_with :: "(topology \<Rightarrow> ptr \<Rightarrow> trap + topology) \<Rightarrow> topology \<Rightarrow> ptr \<Rightarrow> ptr list \<Rightarrow> trap + topology" where
  "destroy_ports_with put_b t b [] = Inr t"
| "destroy_ports_with put_b t b (p # ps) =
     bnd (get_branch t b) (\<lambda>y.
     bnd (put_port_with put_b (put_branch t b (y\<lparr>mstb_ports := ps\<rparr>)) p) (\<lambda>t.
     destroy_ports_with put_b t b ps))"

definition destroy_mst_branch_device_with :: "(topology \<Rightarrow> ptr \<Rightarrow> trap + topology) \<Rightarrow> topology \<Rightarrow> ptr \<Rightarrow> trap + topology" where
  "destroy_mst_branch_device_with put_b t b =
     bnd (get_branch t b) (\<lambda>y.
     bnd (destroy_ports_with put_b (t\<lparr>work_queued := False\<rparr>) b (mstb_ports y)) (\<lambda>t.
     bnd (get_branch t b) (\<lambda>y.
     let t = drop_slot (tx_slot1 y) (drop_slot (tx_slot0 y) t)
     in Inr (t\<lparr>branches := (branches t)(b := None)\<rparr>))))"

fun drm_dp_put_mst_branch_device :: "nat \<Rightarrow> topology \<Rightarrow> ptr \<Rightarrow> trap + topology" where
  "drm_dp_put_mst_branch_device 0 t b = Inl Out_of_fuel"
| "drm_dp_put_mst_branch_device (Suc fuel) t b =
     bnd (get_branch t b) (\<lambda>y.
     let t = put_branch t b (y\<lparr>mstb_kref := mstb_kref y - 1\<rparr>)
     in if mstb_kref y = 1 then destroy_mst_branch_device_with (drm_dp_put_mst_branch_device fuel) t b else Inr t)"

definition drm_dp_port_teardown_pdt :: "nat \<Rightarrow> topology \<Rightarrow> ptr \<Rightarrow> peer_device_type \<Rightarrow> trap + topology" where
  "drm_dp_port_teardown_pdt fuel = port_teardown_pdt_with (drm_dp_put_mst_branch_device fuel)"

definition drm_dp_destroy_port :: "nat \<Rightarrow> topology \<Rightarrow> ptr \<Rightarrow> trap + topology" where
  "drm_dp_destroy_port fuel = destroy_port_with (drm_dp_put_mst_branch_device fuel)"

definition drm_dp_put_port :: "nat \<Rightarrow> topology \<Rightarrow> ptr \<Rightarrow> trap + topology" where
  "drm_dp_put_port fuel = put_port_with (drm_dp_put_mst_branch_device fuel)"

section \<open>Validation of pointers\<close>

definition port_kref_get :: "topology \<Rightarrow> ptr \<Rightarrow> trap + topology" where
  "port_kref_get t p = bnd (get_mport t p) (\<lambda>x. Inr (put_mport t p (x\<lparr>port_kref := port_kref x + 1\<rparr>)))"

definition mstb_kref_get :: "topology \<Rightarrow> ptr \<Rightarrow> trap + topology" where
  "mstb_kref_get t b = bnd (get_branch t b) (\<lambda>y. Inr (put_branch t b (y\<lparr>mstb_kref := mstb_kref y + 1\<rparr>)))"

text \<open>
  The loops over the ports of a branch device; \<open>rec\<close> is the search in the device behind a port.  A search that finds the
  object returns its address and has taken a reference to it.
\<close>

fun mstb_ref_loop ::
  "(topology \<Rightarrow> ptr \<Rightarrow> trap + ptr option \<times> topology) \<Rightarrow> topology \<Rightarrow> ptr list \<Rightarrow> trap + ptr option \<times> topology" where
  "mstb_ref_loop rec t [] = Inr (None, t)"
| "mstb_ref_loop rec t (p # ps) =
     bnd (get_mport t p) (\<lambda>x.
     case port_mstb x of
       None \<Rightarrow> mstb_ref_loop rec t ps
     | Some c \<Rightarrow> bnd (rec t c) (\<lambda>(rmstb, t).
         if rmstb \<noteq> None then Inr (rmstb, t) else mstb_ref_loop rec t ps))"

fun drm_dp_mst_get_validated_mstb_ref_locked ::
  "nat \<Rightarrow> ptr \<Rightarrow> topology \<Rightarrow> ptr \<Rightarrow> trap + ptr option \<times> topology" where
  "drm_dp_mst_get_validated_mstb_ref_locked 0 to_find t b = Inl Out_of_fuel"
| "drm_dp_mst_get_validated_mstb_ref_locked (Suc fuel) to_find t b =
     (if to_find = b then bnd (mstb_kref_get t b) (\<lambda>t. Inr (Some b, t))
      else bnd (get_branch t b) (\<lambda>y.
        mstb_ref_loop (drm_dp_mst_get_validated_mstb_ref_locked fuel to_find) t (mstb_ports y)))"

definition drm_dp_get_validated_mstb_ref :: "nat \<Rightarrow> topology \<Rightarrow> ptr \<Rightarrow> trap + ptr option \<times> topology" where
  "drm_dp_get_validated_mstb_ref fuel t mstb =
     (case mst_primary t of None \<Rightarrow> Inr (None, t)
      | Some b \<Rightarrow> drm_dp_mst_get_validated_mstb_ref_locked fuel mstb t b)"

fun port_ref_loop ::
  "(topology \<Rightarrow> ptr \<Rightarrow> trap + ptr option \<times> topology) \<Rightarrow> ptr \<Rightarrow> topology \<Rightarrow> ptr list \<Rightarrow> trap + ptr option \<times> topology" where
  "port_ref_loop rec to_find t [] = Inr (None, t)"
| "port_ref_loop rec to_find t (p # ps) =
     (if p = to_find then bnd (port_kref_get t p) (\<lambda>t. Inr (Some p, t))
      else bnd (get_mport t p) (\<lambda>x.
        case port_mstb x of
          None \<Rightarrow> port_ref_loop rec to_find t ps
        | Some c \<Rightarrow> bnd (rec t c) (\<lambda>(mport, t).
            if mport \<noteq> None then Inr (mport, t) else port_ref_loop rec to_find t ps)))"

fun drm_dp_mst_get_port_ref_locked :: "nat \<Rightarrow> ptr \<Rightarrow> topology \<Rightarrow> ptr \<Rightarrow> trap + ptr option \<times> topology" where
  "drm_dp_mst_get_port_ref_locked 0 to_find t b = Inl Out_of_fuel"
| "drm_dp_mst_get_port_ref_locked (Suc fuel) to_find t b =
     bnd (get_branch t b) (\<lambda>y. port_ref_loop (drm_dp_mst_get_port_ref_locked fuel to_find) to_find t (mstb_ports y))"

definition drm_dp_get_validated_port_ref :: "nat \<Rightarrow> topology \<Rightarrow> ptr \<Rightarrow> trap + ptr option \<times> topology" where
  "drm_dp_get_validated_port_ref fuel t p =
     (case mst_primary t of None \<Rightarrow> Inr (None, t) | Some b \<Rightarrow> drm_dp_mst_get_port_ref_locked fuel p t b)"

text \<open>The port of a branch device with a number.\<close>

fun get_port_loop :: "topology \<Rightarrow> u8 \<Rightarrow> ptr list \<Rightarrow> trap + ptr option \<times> topology" where
  "get_port_loop t n [] = Inr (None, t)"
| "get_port_loop t n (p # ps) =
     bnd (get_mport t p) (\<lambda>x.
     if port_num x = n then bnd (port_kref_get t p) (\<lambda>t. Inr (Some p, t)) else get_port_loop t n ps)"

definition drm_dp_get_port :: "topology \<Rightarrow> ptr \<Rightarrow> u8 \<Rightarrow> trap + ptr option \<times> topology" where
  "drm_dp_get_port t b n = bnd (get_branch t b) (\<lambda>y. get_port_loop t n (mstb_ports y))"

section \<open>Relative addresses\<close>

text \<open>\<open>r\<close> is the array the address is written to, as it is before the call: the caller does not initialise it.\<close>

definition drm_dp_calculate_rad :: "topology \<Rightarrow> ptr \<Rightarrow> u8 list \<Rightarrow> trap + u8 \<times> u8 list" where
  "drm_dp_calculate_rad t p r =
     bnd (get_mport t p) (\<lambda>x.
     bnd (get_branch t (port_parent x)) (\<lambda>y.
     let l = unat (mstb_lct y); idx = l div 2
     in bnd (if l > 1 then bnd (aslice (mstb_rad y) 0 idx) (ablit r 0) else aput r 0 0) (\<lambda>r.
        let shift = (if l > 1 then if l mod 2 \<noteq> 0 then 4 else 0 else 4)
        in bnd (aget r idx) (\<lambda>v.
           bnd (aput r idx (v OR push_bit shift (port_num x))) (\<lambda>r.
           Inr (of_nat (l + 1), r))))))"

text \<open>\<open>garbage\<close> is what the six bytes of the array on the stack are before the call.\<close>

definition drm_dp_port_setup_pdt :: "ptr option \<Rightarrow> u8 list \<Rightarrow> topology \<Rightarrow> ptr \<Rightarrow> trap + bool \<times> topology" where
  "drm_dp_port_setup_pdt addr garbage t p =
     bnd (get_mport t p) (\<lambda>x.
     case pdt x of
       DP_LEGACY_CONV \<Rightarrow> Inr (False, t\<lparr>i2c_buses := insert p (i2c_buses t)\<rparr>)
     | SST_SINK \<Rightarrow> Inr (False, t\<lparr>i2c_buses := insert p (i2c_buses t)\<rparr>)
     | MST_BRANCHING \<Rightarrow>
         bnd (drm_dp_calculate_rad t p garbage) (\<lambda>(l, r).
         bnd (drm_dp_add_mst_branch_device addr t l r) (\<lambda>(m, t).
         let t = put_mport t p (x\<lparr>port_mstb := m\<rparr>)
         in case m of
              None \<Rightarrow> Inl Null_deref
            | Some b \<Rightarrow> bnd (get_branch t b) (\<lambda>y. Inr (True, put_branch t b (y\<lparr>mstb_port_parent := Some p\<rparr>)))))
     | OTHER_PEER \<Rightarrow> Inr (False, t))"

text \<open>
  The walk to the device with a given address: step \<open>i\<close> of \<open>n\<close> goes through the port whose number the address has at \<open>i\<close>.
  The inner loop finds that port; no port with the number leaves the device as it is.
\<close>

fun branch_port_loop :: "topology \<Rightarrow> u8 \<Rightarrow> ptr \<Rightarrow> ptr list \<Rightarrow> trap + ptr option" where
  "branch_port_loop t n b [] = Inr (Some b)"
| "branch_port_loop t n b (p # ps) =
     bnd (get_mport t p) (\<lambda>x. if port_num x = n then Inr (port_mstb x) else branch_port_loop t n b ps)"

fun branch_walk :: "nat \<Rightarrow> nat \<Rightarrow> u8 list \<Rightarrow> topology \<Rightarrow> ptr \<Rightarrow> trap + ptr option" where
  "branch_walk 0 i r t b = Inr (Some b)"
| "branch_walk (Suc n) i r t b =
     bnd (aget r (i div 2)) (\<lambda>v.
     let shift = (if i mod 2 \<noteq> 0 then 0 else 4); num = drop_bit shift v
     in bnd (get_branch t b) (\<lambda>y.
        bnd (branch_port_loop t num b (mstb_ports y)) (\<lambda>m.
        case m of None \<Rightarrow> Inr None | Some b \<Rightarrow> branch_walk n (Suc i) r t b)))"

definition drm_dp_get_mst_branch_device :: "topology \<Rightarrow> u8 \<Rightarrow> u8 list \<Rightarrow> trap + ptr option \<times> topology" where
  "drm_dp_get_mst_branch_device t l r =
     (case mst_primary t of
        None \<Rightarrow> Inl Null_deref
      | Some b \<Rightarrow>
          bnd (branch_walk (unat l - 1) 0 r t b) (\<lambda>m.
          case m of
            None \<Rightarrow> Inr (None, t)
          | Some b \<Rightarrow> bnd (mstb_kref_get t b) (\<lambda>t. Inr (Some b, t))))"

text \<open>A GUID that is zero is replaced by the clock, twice; the machine is little endian.\<close>

definition u64_bytes :: "u64 \<Rightarrow> u8 list" where
  "u64_bytes x = map (\<lambda>k. ucast (drop_bit (8 * k) x)) [0..<8]"

definition drm_dp_validate_guid :: "u64 \<Rightarrow> u8 list \<Rightarrow> bool \<times> u8 list" where
  "drm_dp_validate_guid jiffies guid =
     (if guid = replicate 16 0 then (False, u64_bytes jiffies @ u64_bytes jiffies) else (True, guid))"

end
