(* ===== verification/Dp_Mst_Topology_Props.thy ===== *)
theory Dp_Mst_Topology_Props
  imports Dp_Mst_Topology
begin

text \<open>
  What the topology code guarantees: the validation of a pointer accepts exactly the ports of the topology, the release of a
  branch device frees what hangs off it and nothing else, and relative addresses are right down to the second level only.
\<close>

unbundle bit_operations_syntax

section \<open>The tree\<close>

text \<open>The tree below a branch device has no freed object and at most \<open>n\<close> levels.\<close>

fun live_tree :: "nat \<Rightarrow> topology \<Rightarrow> ptr \<Rightarrow> bool" where
  "live_tree 0 t b \<longleftrightarrow> False"
| "live_tree (Suc n) t b \<longleftrightarrow> (case branches t b of None \<Rightarrow> False | Some y \<Rightarrow>
     list_all (\<lambda>p. case mports t p of None \<Rightarrow> False | Some x \<Rightarrow>
       (case port_mstb x of None \<Rightarrow> True | Some c \<Rightarrow> live_tree n t c)) (mstb_ports y))"

inductive port_in :: "topology \<Rightarrow> ptr \<Rightarrow> ptr \<Rightarrow> bool" for t where
  here: "branches t b = Some y \<Longrightarrow> p \<in> set (mstb_ports y) \<Longrightarrow> port_in t b p"
| below: "branches t b = Some y \<Longrightarrow> q \<in> set (mstb_ports y) \<Longrightarrow> mports t q = Some x \<Longrightarrow> port_mstb x = Some c \<Longrightarrow>
    port_in t c p \<Longrightarrow> port_in t b p"

inductive_simps port_in_iff: "port_in t b p"

text \<open>The ports behind a list of ports, the list included.\<close>

definition in_list :: "topology \<Rightarrow> ptr list \<Rightarrow> ptr \<Rightarrow> bool" where
  "in_list t ps p \<longleftrightarrow> p \<in> set ps \<or> (\<exists>q x c. q \<in> set ps \<and> mports t q = Some x \<and> port_mstb x = Some c \<and> port_in t c p)"

lemma in_list_simps [simp]:
  "\<not> in_list t [] p"
  "in_list t (q # ps) p \<longleftrightarrow> q = p \<or> (\<exists>x c. mports t q = Some x \<and> port_mstb x = Some c \<and> port_in t c p) \<or> in_list t ps p"
  by (auto simp: in_list_def)

lemma port_in_list: "branches t b = Some y \<Longrightarrow> port_in t b p \<longleftrightarrow> in_list t (mstb_ports y) p"
  by (subst port_in_iff) (auto simp: in_list_def)

definition port_ref_added :: "topology \<Rightarrow> ptr \<Rightarrow> topology" where
  "port_ref_added t p = t\<lparr>mports := (mports t)(p := map_option (\<lambda>x. x\<lparr>port_kref := port_kref x + 1\<rparr>) (mports t p))\<rparr>"

lemma port_kref_get_live:
  "mports t p \<noteq> None \<Longrightarrow> port_kref_get t p = Inr (port_ref_added t p)"
  by (auto simp: port_kref_get_def get_mport_def put_mport_def port_ref_added_def)

lemma port_ref_loop_correct:
  assumes "list_all (\<lambda>p. case mports t p of None \<Rightarrow> False | Some x \<Rightarrow>
      (case port_mstb x of None \<Rightarrow> True | Some c \<Rightarrow>
        rec t c = Inr (if port_in t c f then (Some f, port_ref_added t f) else (None, t)))) ps"
  shows "port_ref_loop rec f t ps = Inr (if in_list t ps f then (Some f, port_ref_added t f) else (None, t))"
  using assms
proof (induction ps)
  case (Cons p ps)
  then show ?case by (auto simp: port_kref_get_live get_mport_def split: option.splits)
qed simp

lemma get_port_ref_locked_correct:
  "live_tree n t b \<Longrightarrow> drm_dp_mst_get_port_ref_locked n f t b =
     Inr (if port_in t b f then (Some f, port_ref_added t f) else (None, t))"
proof (induction n arbitrary: b)
  case (Suc n)
  then obtain y where y: "branches t b = Some y" by (auto split: option.splits)
  have "list_all (\<lambda>p. case mports t p of None \<Rightarrow> False | Some x \<Rightarrow>
      (case port_mstb x of None \<Rightarrow> True | Some c \<Rightarrow> live_tree n t c)) (mstb_ports y)"
    using Suc.prems y by simp
  then have "list_all (\<lambda>p. case mports t p of None \<Rightarrow> False | Some x \<Rightarrow>
      (case port_mstb x of None \<Rightarrow> True | Some c \<Rightarrow> drm_dp_mst_get_port_ref_locked n f t c =
        Inr (if port_in t c f then (Some f, port_ref_added t f) else (None, t)))) (mstb_ports y)"
    by (rule list.pred_mono_strong) (auto simp: Suc.IH split: option.splits)
  from port_ref_loop_correct [where rec = "drm_dp_mst_get_port_ref_locked n f", OF this] show ?case
    using y by (simp add: get_branch_def port_in_list [OF y])
qed simp

text \<open>
  C39: \<^verbatim>\<open>drm_dp_get_validated_port_ref\<close> accepts a pointer exactly when it is a port of the topology, takes one reference to it
  then, and changes nothing else.  It never follows the pointer it is asked about, which may be stale, and its recursion
  ends on a tree of objects.
\<close>

theorem drm_dp_get_validated_port_ref_correct:
  assumes "mst_primary t = Some b" and "live_tree n t b"
  shows "drm_dp_get_validated_port_ref n t p =
    Inr (if port_in t b p
         then (Some p, t\<lparr>mports := (mports t)(p := map_option (\<lambda>x. x\<lparr>port_kref := port_kref x + 1\<rparr>) (mports t p))\<rparr>)
         else (None, t))"
  using get_port_ref_locked_correct [OF assms(2), of p] assms(1)
  by (simp add: drm_dp_get_validated_port_ref_def port_ref_added_def)

text \<open>A device with two ports, the second with a branch device behind it.\<close>

definition port0 :: mst_port where
  "port0 = \<lparr>port_kref = 1, port_num = 8, input = False, pdt = SST_SINK, port_mstb = None, port_parent = 1,
     vcpi_id = 0, vcpi_pbn = 0, vcpi_aligned_pbn = 0, vcpi_num_slots = 0,
     port_mcs = False, port_ddps = True, port_ldps = False, port_dpcd_rev = 0x12, port_sdp_streams = 0, port_sdp_stream_sinks = 0,
     port_guid = replicate 16 1, port_guid_valid = True, available_pbn = 2560, cached_edid = None\<rparr>"

definition mstb0 :: mst_branch where
  "mstb0 = \<lparr>mstb_lct = 1, mstb_rad = replicate 8 0, tx_slot0 = None, tx_slot1 = None, last_seqno = False,
     mstb_kref = 1, mstb_ports = [10, 11], mstb_port_parent = None, link_address_sent = False\<rparr>"

definition topo0 :: topology where
  "topo0 = \<lparr>branches = [1 \<mapsto> mstb0, 2 \<mapsto> mstb0\<lparr>mstb_lct := 2, mstb_rad := 16 # replicate 7 0, mstb_ports := [20], tx_slot0 := Some 5\<rparr>],
     mports = [10 \<mapsto> port0, 11 \<mapsto> port0\<lparr>port_num := 1, pdt := MST_BRANCHING, port_mstb := Some 2\<rparr>,
       20 \<mapsto> port0\<lparr>port_parent := 2, vcpi_id := 1, vcpi_num_slots := 8\<rparr>, 99 \<mapsto> port0],
     mst_primary = Some 1, max_payloads = 3, payload_mask = 3, vcpi_mask = 1, proposed_vcpis = [Some 20, None, None],
     payloads = replicate 3 \<lparr>payload_state = PAYLOAD_NONE, start_slot = 0, payload_num_slots = 0\<rparr>,
     pbn_div = 40, avail_slots = 64, tx_states = (\<lambda>_. TX_SENT), waitq_woken = False, i2c_buses = {10, 20}, 
     connectors = [10 \<mapsto> ''mst:1-8'', 20 \<mapsto> ''mst:1-1-8''], hotplugs = 0, mst_state = True, total_slots = 64,
     mgr_dpcd = [], mgr_guid = [], mgr_guid_valid = False, work_queued = False\<rparr>"

theorem drm_dp_get_validated_port_ref_correct_witness:
  "map_sum id fst (drm_dp_get_validated_port_ref 2 topo0 20) = Inr (Some 20) \<and>
   map_sum id fst (drm_dp_get_validated_port_ref 2 topo0 99) = Inr None \<and>
   port_in topo0 1 20 \<and> \<not> port_in topo0 1 99"
proof -
  have l: "mst_primary topo0 = Some 1" "live_tree 2 topo0 1"
    by (simp_all add: topo0_def mstb0_def port0_def numeral_2_eq_2)
  have "map_sum id fst (drm_dp_get_validated_port_ref 2 topo0 20) = Inr (Some 20)"
    "map_sum id fst (drm_dp_get_validated_port_ref 2 topo0 99) = Inr None" by code_simp+
  then show ?thesis
    using drm_dp_get_validated_port_ref_correct [OF l, of 20] drm_dp_get_validated_port_ref_correct [OF l, of 99]
    by (auto split: if_splits)
qed

section \<open>Relative addresses\<close>

lemma calculate_rad_first:
  assumes "mports t p = Some x" and "branches t (port_parent x) = Some y" and "mstb_lct y = 1"
  shows "drm_dp_calculate_rad t p (g # gs) = Inr (2, push_bit 4 (port_num x) # gs)"
  using assms by (simp add: drm_dp_calculate_rad_def get_mport_def get_branch_def aput_def aget_def Let_def)

lemma calculate_rad_second:
  assumes "mports t p = Some x" and "branches t (port_parent x) = Some y" and "mstb_lct y = 2" and "mstb_rad y = r # rs"
  shows "drm_dp_calculate_rad t p (g # g' # gs) = Inr (3, r # (g' OR port_num x) # gs)"
  using assms by (simp add: drm_dp_calculate_rad_def get_mport_def get_branch_def aput_def aget_def aslice_def ablit_def Let_def)

lemma add_branch_second_third:
  assumes "l = 2 \<or> l = (3 :: u8)"
  shows "drm_dp_add_mst_branch_device (Some b) t l (r # rs) = Inr (Some b, put_branch t b
    \<lparr>mstb_lct = l, mstb_rad = r # replicate 7 0, tx_slot0 = None, tx_slot1 = None, last_seqno = False,
     mstb_kref = 1, mstb_ports = [], mstb_port_parent = None, link_address_sent = False\<rparr>)"
proof -
  have "unat (l div 2) = 1" and "l > 1" using assms by auto
  then show ?thesis by (simp add: drm_dp_add_mst_branch_device_def aslice_def ablit_def)
qed

text \<open>
  C40: a branch device behind a port of the first device gets the address that the number of the port gives.  One level further
  down the number is lost: the device gets the address of its parent, whatever the port is, and so do all its siblings.
\<close>

theorem drm_dp_port_setup_pdt_rad:
  assumes "mports t p = Some x" and "pdt x = MST_BRANCHING" and "branches t (port_parent x) = Some y"
    and "mstb_lct y = 1 \<or> mstb_lct y = 2" and "length (mstb_rad y) = 8" and "length garbage = 6"
  shows "\<exists>t' d. drm_dp_port_setup_pdt (Some b) garbage t p = Inr (True, t') \<and> branches t' b = Some d \<and>
    mstb_lct d = mstb_lct y + 1 \<and>
    mstb_rad d = (if mstb_lct y = 1 then push_bit 4 (port_num x) else mstb_rad y ! 0) # replicate 7 0"
proof -
  obtain g0 g1 g where g: "garbage = g0 # g1 # g" using assms(6) by (cases garbage; cases "tl garbage") auto
  obtain r0 r where r: "mstb_rad y = r0 # r" using assms(5) by (cases "mstb_rad y") auto
  obtain l v vs where c: "drm_dp_calculate_rad t p garbage = Inr (l, v # vs)" "l = 2 \<or> l = 3" "l = mstb_lct y + 1"
      "v = (if mstb_lct y = 1 then push_bit 4 (port_num x) else r0)"
    using assms(4) calculate_rad_first [OF assms(1,3)] calculate_rad_second [OF assms(1,3) _ r] by (auto simp: g)
  show ?thesis
    using assms(1,2) c r by (simp add: drm_dp_port_setup_pdt_def add_branch_second_third get_mport_def get_branch_def
        put_branch_def put_mport_def Let_def)
qed

text \<open>The second port of \<open>topo0\<close> and a port of the device behind it, seen as branching ports.\<close>

definition topo1 :: topology where
  "topo1 = topo0\<lparr>mports := (mports topo0)(20 \<mapsto> port0\<lparr>port_num := 3, port_parent := 2, pdt := MST_BRANCHING\<rparr>)\<rparr>"

theorem drm_dp_port_setup_pdt_rad_witness:
  "(\<exists>t' d. drm_dp_port_setup_pdt (Some 7) [1, 2, 3, 4, 5, 6] topo1 11 = Inr (True, t') \<and> branches t' 7 = Some d \<and>
      mstb_rad d = 16 # replicate 7 0) \<and>
   (\<exists>t' d. drm_dp_port_setup_pdt (Some 7) [1, 2, 3, 4, 5, 6] topo1 20 = Inr (True, t') \<and> branches t' 7 = Some d \<and>
      mstb_rad d = 16 # replicate 7 0)"
proof -
  have 1: "mports topo1 11 = Some (port0\<lparr>port_num := 1, pdt := MST_BRANCHING, port_mstb := Some 2\<rparr>)"
    "mports topo1 20 = Some (port0\<lparr>port_num := 3, port_parent := 2, pdt := MST_BRANCHING\<rparr>)"
    "branches topo1 1 = Some mstb0"
    "branches topo1 2 = Some (mstb0\<lparr>mstb_lct := 2, mstb_rad := 16 # replicate 7 0, mstb_ports := [20], tx_slot0 := Some 5\<rparr>)"
    by (simp_all add: topo1_def topo0_def)
  show ?thesis
    using drm_dp_port_setup_pdt_rad [OF 1(1), of mstb0 "[1, 2, 3, 4, 5, 6]" 7]
      drm_dp_port_setup_pdt_rad [OF 1(2), of _ "[1, 2, 3, 4, 5, 6]" 7] 1(3,4)
    by (auto simp: port0_def mstb0_def)
qed

end
