(* ===== verification/Dp_Mst_Release.thy ===== *)
theory Dp_Mst_Release
  imports Dp_Mst_Topology_Props
begin

text \<open>
  The release of a branch device nobody else refers to: everything below it is freed, nothing else is, no freed object is
  accessed, and no proposed payload is left behind that refers to a freed port.
\<close>

section \<open>Proposals\<close>

text \<open>
  The proposed virtual channels are those of ports that are there and have an id.  No two ports have the same id, and the
  ids of the ports are marked as used in the mask.
\<close>

definition vcpi_of :: "topology \<Rightarrow> ptr \<Rightarrow> int" where
  "vcpi_of t p = (case mports t p of None \<Rightarrow> 0 | Some x \<Rightarrow> vcpi_id x)"

definition input_port :: "topology \<Rightarrow> ptr \<Rightarrow> bool" where
  "input_port t p = (case mports t p of None \<Rightarrow> False | Some x \<Rightarrow> input x)"

definition proposals_ok :: "bool \<Rightarrow> topology \<Rightarrow> bool" where
  "proposals_ok M t \<longleftrightarrow> max_payloads t < 64 \<and> length (proposed_vcpis t) = max_payloads t \<and>
     (\<forall>p. vcpi_of t p \<le> int (max_payloads t) + 1) \<and>
     (\<forall>p. Some p \<in> set (proposed_vcpis t) \<longrightarrow> 0 < vcpi_of t p \<and> \<not> input_port t p) \<and>
     (M \<longrightarrow> (\<forall>p. 0 < vcpi_of t p \<longrightarrow> bit (vcpi_mask t) (nat (vcpi_of t p - 1)))) \<and>
     (\<forall>p q. 0 < vcpi_of t p \<longrightarrow> vcpi_of t p = vcpi_of t q \<longrightarrow> p = q) \<and>
     bit (payload_mask t) 0"

lemma proposals_okD:
  assumes "proposals_ok M t"
  shows "max_payloads t < 64" and "length (proposed_vcpis t) = max_payloads t" and "vcpi_of t p \<le> int (max_payloads t) + 1"
    and "Some p \<in> set (proposed_vcpis t) \<Longrightarrow> 0 < vcpi_of t p" and "Some p \<in> set (proposed_vcpis t) \<Longrightarrow> \<not> input_port t p"
    and "M \<Longrightarrow> 0 < vcpi_of t p \<Longrightarrow> bit (vcpi_mask t) (nat (vcpi_of t p - 1))"
    and "0 < vcpi_of t p \<Longrightarrow> vcpi_of t p = vcpi_of t q \<Longrightarrow> p = q" and "bit (payload_mask t) 0"
  using assms by (simp_all add: proposals_ok_def)

lemma proposals_ok_cong:
  assumes "vcpi_of t' = vcpi_of t" and "input_port t' = input_port t" and "max_payloads t' = max_payloads t"
    and "proposed_vcpis t' = proposed_vcpis t" and "vcpi_mask t' = vcpi_mask t" and "bit (payload_mask t') 0 = bit (payload_mask t) 0"
  shows "proposals_ok M t' = proposals_ok M t"
  by (simp add: proposals_ok_def assms)

text \<open>A port goes away or loses its id.\<close>

lemma proposals_ok_forget:
  assumes ok: "proposals_ok M t" and vc: "\<And>q. q \<noteq> p \<Longrightarrow> vcpi_of t' q = vcpi_of t q" "vcpi_of t' p = 0"
    and inp: "\<And>q. q \<noteq> p \<Longrightarrow> input_port t' q = input_port t q"
    and pr: "\<And>q. Some q \<in> set (proposed_vcpis t') \<Longrightarrow> Some q \<in> set (proposed_vcpis t) \<and> q \<noteq> p"
    and len: "length (proposed_vcpis t') = length (proposed_vcpis t)" and mx: "max_payloads t' = max_payloads t"
    and bits: "\<And>q. M \<Longrightarrow> q \<noteq> p \<Longrightarrow> 0 < vcpi_of t q \<Longrightarrow> bit (vcpi_mask t') (nat (vcpi_of t q - 1))" and b0: "bit (payload_mask t') 0"
  shows "proposals_ok M t'"
proof -
  note k = proposals_okD [OF ok]
  have v: "vcpi_of t' q = (if q = p then 0 else vcpi_of t q)" for q using vc by simp
  have "vcpi_of t' q \<le> int (max_payloads t') + 1" "M \<Longrightarrow> 0 < vcpi_of t' q \<Longrightarrow> bit (vcpi_mask t') (nat (vcpi_of t' q - 1))" for q
    using k(3) [of q] bits [of q] by (simp_all add: v mx split: if_splits)
  moreover have "Some q \<in> set (proposed_vcpis t') \<Longrightarrow> 0 < vcpi_of t' q \<and> \<not> input_port t' q" for q
    using pr [of q] k(4,5) [of q] inp [of q] by (simp add: v)
  moreover have "0 < vcpi_of t' q \<Longrightarrow> vcpi_of t' q = vcpi_of t' r \<Longrightarrow> q = r" for q r
    using k(7) [of q r] by (simp add: v split: if_splits)
  ultimately show ?thesis using k(1,2) len mx b0 by (simp add: proposals_ok_def)
qed

lemma vcpi_of_simps:
  "mports t p = Some x \<Longrightarrow> vcpi_of t p = vcpi_id x" "mports t p = Some x \<Longrightarrow> input_port t p = input x"
  "0 < vcpi_of t p \<Longrightarrow> mports t p \<noteq> None"
  by (auto simp: vcpi_of_def input_port_def split: option.splits)

definition proposal_cleared :: "topology \<Rightarrow> int \<Rightarrow> ptr option \<Rightarrow> ptr option" where
  "proposal_cleared t v q = (case q of None \<Rightarrow> None
     | Some p \<Rightarrow> if vcpi_of t p = v then None else Some p)"

definition same_objects :: "topology \<Rightarrow> topology \<Rightarrow> bool" where
  "same_objects t t' \<longleftrightarrow> branches t' = branches t \<and> mports t' = mports t \<and> max_payloads t' = max_payloads t \<and>
     vcpi_mask t' = vcpi_mask t \<and> bit (payload_mask t') 0 = bit (payload_mask t) 0 \<and> payloads t' = payloads t"

lemma put_payload_loop_correct:
  assumes "max_payloads t < 64" and "length (proposed_vcpis t) = max_payloads t" and "i + n = max_payloads t"
    and "\<forall>p. Some p \<in> set (proposed_vcpis t) \<longrightarrow> mports t p \<noteq> None"
  shows "\<exists>t'. put_payload_loop n i v t = Inr t' \<and> same_objects t t' \<and>
    proposed_vcpis t' = take i (proposed_vcpis t) @ map (proposal_cleared t v) (drop i (proposed_vcpis t))"
  using assms
proof (induction n arbitrary: i t)
  case (Suc n)
  let ?q = "proposed_vcpis t ! i"
  have i: "i < length (proposed_vcpis t)" "i < max_payloads t" using Suc.prems by auto
  note d = Cons_nth_drop_Suc [OF i(1), symmetric]
  have tk: "take (Suc i) (proposed_vcpis t) = take i (proposed_vcpis t) @ [?q]" using i(1) by (rule take_Suc_conv_app_nth)
  have q: "?q = Some p \<Longrightarrow> \<exists>x. mports t p = Some x" for p using Suc.prems(4) i(1) nth_mem by fastforce
  show ?case
  proof (cases "proposal_cleared t v ?q = ?q")
    case True
    have "put_payload_loop (Suc n) i v t = put_payload_loop n (Suc i) v t"
      using True i q by (auto simp: aget_def get_mport_def proposal_cleared_def vcpi_of_def split: option.splits if_splits)
    with Suc.IH [of t "Suc i"] Suc.prems True show ?thesis by (auto simp: d tk)
  next
    case False
    then obtain p where p: "?q = Some p" "vcpi_of t p = v" "proposal_cleared t v ?q = None"
      by (auto simp: proposal_cleared_def split: option.splits if_splits)
    then obtain x where x: "mports t p = Some x" "vcpi_id x = v" using q [of p] by (auto simp: vcpi_of_def)
    let ?t = "t\<lparr>proposed_vcpis := (proposed_vcpis t)[i := None], payload_mask := unset_bit (i + 1) (payload_mask t)\<rparr>"
    have "put_payload_loop (Suc n) i v t = put_payload_loop n (Suc i) v ?t"
      using p x i Suc.prems(1) by (simp add: aget_def aput_def get_mport_def mask_clear_def)
    moreover have "\<forall>p. Some p \<in> set (proposed_vcpis ?t) \<longrightarrow> mports ?t p \<noteq> None"
      using Suc.prems(4) set_update_subset_insert [of "proposed_vcpis t" i None] by auto
    moreover have "proposal_cleared ?t v = proposal_cleared t v" by (simp add: proposal_cleared_def vcpi_of_def fun_eq_iff split: option.split)
    ultimately show ?thesis
      using Suc.IH [of ?t "Suc i"] Suc.prems p(3) i(1)
      by (auto simp: same_objects_def d tk take_Suc_conv_app_nth nth_list_update drop_update_cancel bit_unset_bit_iff)
  qed
qed (simp add: same_objects_def)

text \<open>
  Giving back the id of a port is safe when the port goes away or loses the id.
\<close>

lemma put_payload_id_correct:
  assumes ok: "proposals_ok M t" and p: "mports t p = Some x" "0 < vcpi_id x" and m: "case m of None \<Rightarrow> True | Some x' \<Rightarrow> vcpi_id x' = 0"
  shows "\<exists>t'. drm_dp_mst_put_payload_id t (vcpi_id x) = Inr t' \<and> branches t' = branches t \<and> mports t' = mports t \<and>
    max_payloads t' = max_payloads t \<and> payloads t' = payloads t \<and> proposals_ok M (t'\<lparr>mports := (mports t')(p := m)\<rparr>)"
proof -
  note k = proposals_okD [OF ok]
  let ?v = "vcpi_id x"
  have vp: "vcpi_of t p = ?v" using p(1) by (rule vcpi_of_simps)
  let ?t = "t\<lparr>vcpi_mask := unset_bit (nat (?v - 1)) (vcpi_mask t)\<rparr>"
  have "nat (?v - 1) < 64" using k(1) k(3) [of p] vp by simp
  then have mc: "mask_clear (nat (?v - 1)) (vcpi_mask t) = Inr (unset_bit (nat (?v - 1)) (vcpi_mask t))"
    by (simp add: mask_clear_def)
  have "\<forall>q. Some q \<in> set (proposed_vcpis ?t) \<longrightarrow> mports ?t q \<noteq> None" using k(4) vcpi_of_simps(3) by fastforce
  then obtain t' where t': "put_payload_loop (max_payloads t) 0 ?v ?t = Inr t'" "same_objects ?t t'"
    "proposed_vcpis t' = map (proposal_cleared ?t ?v) (proposed_vcpis t)"
    using put_payload_loop_correct [of ?t 0 "max_payloads t" ?v] k(1,2) by auto
  have c: "Some q \<in> set (proposed_vcpis t') \<Longrightarrow> Some q \<in> set (proposed_vcpis t) \<and> vcpi_of t q \<noteq> ?v" for q
    unfolding t'(3) by (auto simp: proposal_cleared_def vcpi_of_def split: option.splits if_splits)
  let ?t' = "t'\<lparr>mports := (mports t')(p := m)\<rparr>"
  have "proposals_ok M ?t'"
  proof (rule proposals_ok_forget [OF ok, of p])
    show "vcpi_of ?t' p = 0" using m by (simp add: vcpi_of_def split: option.splits)
    show "q \<noteq> p \<Longrightarrow> vcpi_of ?t' q = vcpi_of t q" "q \<noteq> p \<Longrightarrow> input_port ?t' q = input_port t q" for q
      using t'(2) by (simp_all add: vcpi_of_def input_port_def same_objects_def)
    show "Some q \<in> set (proposed_vcpis ?t') \<Longrightarrow> Some q \<in> set (proposed_vcpis t) \<and> q \<noteq> p" for q using c [of q] vp by auto
    show "M \<Longrightarrow> q \<noteq> p \<Longrightarrow> 0 < vcpi_of t q \<Longrightarrow> bit (vcpi_mask ?t') (nat (vcpi_of t q - 1))" for q
    proof -
      assume q: "M" "q \<noteq> p" "0 < vcpi_of t q"
      then have "vcpi_of t q \<noteq> ?v" using k(7) [of q p] vp by auto
      then show ?thesis using k(6) [OF q(1,3)] q(3) p(2) t'(2) by (auto simp: same_objects_def bit_unset_bit_iff)
    qed
  qed (use t'(2,3) k(8) in \<open>simp_all add: same_objects_def\<close>)
  then show ?thesis using t' p mc by (auto simp: drm_dp_mst_put_payload_id_def same_objects_def)
qed

section \<open>Ownership\<close>

text \<open>
  \<open>owned n t b B P\<close>: the tree below the branch device \<open>b\<close>, of at most \<open>n\<close> levels, has the branch devices \<open>B\<close> and the ports
  \<open>P\<close>, no two of them the same, and each has only the reference of its parent.
\<close>

inductive owned :: "nat \<Rightarrow> topology \<Rightarrow> ptr \<Rightarrow> ptr set \<Rightarrow> ptr set \<Rightarrow> bool"
  and owned_port :: "nat \<Rightarrow> topology \<Rightarrow> mst_port \<Rightarrow> ptr set \<Rightarrow> ptr set \<Rightarrow> bool"
  and owned_ports :: "nat \<Rightarrow> topology \<Rightarrow> ptr list \<Rightarrow> ptr set \<Rightarrow> ptr set \<Rightarrow> bool" where
  owned_branch: "branches t b = Some y \<Longrightarrow> mstb_kref y = 1 \<Longrightarrow> owned_ports n t (mstb_ports y) B P \<Longrightarrow> b \<notin> B \<Longrightarrow>
    owned (Suc n) t b (insert b B) P"
| owned_leaf: "input x \<or> pdt x \<noteq> MST_BRANCHING \<Longrightarrow> owned_port n t x {} {}"
| owned_inner: "\<not> input x \<Longrightarrow> pdt x = MST_BRANCHING \<Longrightarrow> port_mstb x = Some c \<Longrightarrow> owned n t c B P \<Longrightarrow> owned_port n t x B P"
| owned_Nil: "owned_ports n t [] {} {}"
| owned_Cons: "mports t p = Some x \<Longrightarrow> port_kref x = 1 \<Longrightarrow> owned_port n t x B P \<Longrightarrow> owned_ports n t ps B' P' \<Longrightarrow>
    p \<notin> P \<Longrightarrow> p \<notin> P' \<Longrightarrow> B \<inter> B' = {} \<Longrightarrow> P \<inter> P' = {} \<Longrightarrow> owned_ports n t (p # ps) (B \<union> B') (insert p (P \<union> P'))"

inductive_cases owned_cases: "owned n t b B P"
inductive_cases owned_port_cases: "owned_port n t x B P"
inductive_cases owned_ports_Nil: "owned_ports n t [] B P"
inductive_cases owned_ports_Cons: "owned_ports n t (p # ps) B P"

lemma owned_frame:
  "owned n t b B P \<Longrightarrow> \<forall>c \<in> B. branches t' c = branches t c \<Longrightarrow> \<forall>p \<in> P. mports t' p = mports t p \<Longrightarrow> owned n t' b B P"
  "owned_port n t x B P \<Longrightarrow> \<forall>c \<in> B. branches t' c = branches t c \<Longrightarrow> \<forall>p \<in> P. mports t' p = mports t p \<Longrightarrow> owned_port n t' x B P"
  "owned_ports n t ps B P \<Longrightarrow> \<forall>c \<in> B. branches t' c = branches t c \<Longrightarrow> \<forall>p \<in> P. mports t' p = mports t p \<Longrightarrow> owned_ports n t' ps B P"
proof (induction rule: owned_owned_port_owned_ports.inducts)
  case (owned_branch t b y n B P)
  then show ?case by (intro owned_owned_port_owned_ports.owned_branch [of _ _ y]) auto
next
  case (owned_Cons t p x n B P ps B' P')
  then show ?case by (intro owned_owned_port_owned_ports.owned_Cons) auto
qed (auto intro: owned_owned_port_owned_ports.intros)

text \<open>The state after the branch devices \<open>B\<close> and the ports \<open>P\<close> have been freed; the device \<open>b\<close> may have changed.\<close>

definition freed :: "bool \<Rightarrow> ptr set \<Rightarrow> ptr set \<Rightarrow> topology \<Rightarrow> topology \<Rightarrow> bool" where
  "freed M B P t t' \<longleftrightarrow> (\<forall>c. branches t' c = (if c \<in> B then None else branches t c)) \<and>
     (\<forall>p. mports t' p = (if p \<in> P then None else mports t p)) \<and> max_payloads t' = max_payloads t \<and>
     payloads t' = payloads t \<and> proposals_ok M t'"

text \<open>What is asked of the release of the branch device behind a port.\<close>

definition releases :: "nat \<Rightarrow> (topology \<Rightarrow> ptr \<Rightarrow> trap + topology) \<Rightarrow> bool" where
  "releases n put_b \<longleftrightarrow> (\<forall>M t b B P. owned n t b B P \<longrightarrow> proposals_ok M t \<longrightarrow> (\<exists>t'. put_b t b = Inr t' \<and> freed M B P t t'))"

lemma releasesD:
  "releases n put_b \<Longrightarrow> owned n t b B P \<Longrightarrow> proposals_ok M t \<Longrightarrow> \<exists>t'. put_b t b = Inr t' \<and> freed M B P t t'"
  unfolding releases_def by blast

lemma proposals_ok_port:
  assumes "proposals_ok M t" and "mports t p = Some x" and "vcpi_id x' = vcpi_id x" and "input x' = input x"
  shows "proposals_ok M (put_mport t p x')"
proof -
  have "proposals_ok M (put_mport t p x') = proposals_ok M t"
    using assms(2-4) by (intro proposals_ok_cong) (auto simp: put_mport_def vcpi_of_def input_port_def fun_eq_iff)
  with assms(1) show ?thesis by simp
qed

text \<open>The branch devices and the logs do not matter.\<close>

lemma proposals_ok_irrelevant [simp]:
  "proposals_ok M (t\<lparr>connectors := c\<rparr>) = proposals_ok M t" "proposals_ok M (t\<lparr>i2c_buses := ib\<rparr>) = proposals_ok M t"
  "proposals_ok M (put_branch t b y) = proposals_ok M t" "proposals_ok M (t\<lparr>branches := bs\<rparr>) = proposals_ok M t"
  "proposals_ok M (t\<lparr>mports := ms, hotplugs := n\<rparr>) = proposals_ok M (t\<lparr>mports := ms\<rparr>)"
  "proposals_ok M (drop_slot s t) = proposals_ok M t" "proposals_ok M (t\<lparr>work_queued := w\<rparr>) = proposals_ok M t"
  by (rule proposals_ok_cong; simp add: vcpi_of_def input_port_def put_branch_def drop_slot_def fun_eq_iff split: option.splits)+

lemma proposals_ok_free:
  assumes ok: "proposals_ok M t" and n: "Some p \<notin> set (proposed_vcpis t)"
  shows "proposals_ok M (t\<lparr>mports := (mports t)(p := None)\<rparr>)"
  using n proposals_okD(6,8) [OF ok]
  by (intro proposals_ok_forget [OF ok, of p]) (auto simp: vcpi_of_def input_port_def)

lemma owned_port_vcpi:
  assumes "owned_port n t x B P" and "input x' = input x" and "pdt x' = pdt x" and "port_mstb x' = port_mstb x"
  shows "owned_port n t x' B P"
  using assms by (auto elim!: owned_port_cases intro: owned_owned_port_owned_ports.intros)

lemma teardown_correct:
  assumes rel: "releases n put_b" and ok: "proposals_ok M t" and p: "mports t p = Some x" "\<not> input x"
    and own: "owned_port n t x B P" and pP: "p \<notin> P"
  shows "\<exists>t2 x2. port_teardown_pdt_with put_b t p (pdt x) = Inr t2 \<and> mports t2 p = Some x2 \<and> vcpi_id x2 = vcpi_id x \<and>
      proposals_ok M t2 \<and> max_payloads t2 = max_payloads t \<and> payloads t2 = payloads t \<and> (\<forall>c. branches t2 c = (if c \<in> B then None else branches t c)) \<and>
      (\<forall>q. q \<noteq> p \<longrightarrow> mports t2 q = (if q \<in> P then None else mports t q))"
proof (cases "pdt x = MST_BRANCHING")
  case True
  then obtain c where c: "port_mstb x = Some c" "owned n t c B P" using own p(2) by (auto elim: owned_port_cases)
  let ?t = "put_mport t p (x\<lparr>port_mstb := None\<rparr>)"
  have "owned n ?t c B P" using c(2) by (rule owned_frame) (use pP in \<open>auto simp: put_mport_def\<close>)
  moreover have "proposals_ok M ?t" by (rule proposals_ok_port [OF ok p(1)]) simp_all
  ultimately obtain t2 where "put_b ?t c = Inr t2" "freed M B P ?t t2" using releasesD [OF rel] by blast
  then show ?thesis using True c(1) p pP
    by (auto simp: port_teardown_pdt_with_def get_mport_def freed_def put_mport_def)
next
  case False
  then have e: "B = {}" "P = {}" using own by (auto elim: owned_port_cases)
  then show ?thesis using False p ok by (cases "pdt x") (auto simp: port_teardown_pdt_with_def e)
qed

lemma destroy_port_correct:
  assumes rel: "releases n put_b" and ok: "proposals_ok M t" and p: "mports t p = Some x" and own: "owned_port n t x B P" and pP: "p \<notin> P"
  shows "\<exists>t'. destroy_port_with put_b t p = Inr t' \<and> freed M B (insert p P) t t'"
proof (cases "input x")
  case True
  then have e: "B = {}" "P = {}" using own by (auto elim: owned_port_cases)
  have "Some p \<notin> set (proposed_vcpis t)" using proposals_okD(5) [OF ok] vcpi_of_simps(2) [OF p] True by auto
  then show ?thesis
    using proposals_ok_free [OF ok, of p] p True by (auto simp: destroy_port_with_def get_mport_def freed_def e)
next
  case False
  let ?x = "x\<lparr>vcpi_num_slots := 0\<rparr>"
  define t1 where "t1 = (put_mport t p ?x)\<lparr>connectors := (connectors (put_mport t p ?x))(p := None)\<rparr>"
  have ok1: "proposals_ok M t1" using proposals_ok_port [OF ok p, of ?x] by (simp add: t1_def)
  have own1: "owned_port n t1 ?x B P"
    by (rule owned_port_vcpi [OF owned_frame(2) [OF own]]) (use pP in \<open>auto simp: t1_def put_mport_def\<close>)
  have f: "mports t1 p = Some ?x" "branches t1 = branches t" "max_payloads t1 = max_payloads t" "payloads t1 = payloads t" "q \<noteq> p \<Longrightarrow> mports t1 q = mports t q" for q
    by (simp_all add: t1_def put_mport_def)
  from teardown_correct [OF rel ok1 f(1) _ own1 pP] False
  obtain t2 x2 where t2: "port_teardown_pdt_with put_b t1 p (pdt x) = Inr t2" "mports t2 p = Some x2" "vcpi_id x2 = vcpi_id x"
      "proposals_ok M t2" "max_payloads t2 = max_payloads t" "payloads t2 = payloads t" "\<forall>c. branches t2 c = (if c \<in> B then None else branches t c)"
      "\<forall>q. q \<noteq> p \<longrightarrow> mports t2 q = (if q \<in> P then None else mports t q)"
    unfolding f(2-4) using f(5) by fastforce
  have "\<exists>t3. (if vcpi_id x2 > 0 then drm_dp_mst_put_payload_id t2 (vcpi_id x2) else Inr t2) = Inr t3 \<and> branches t3 = branches t2 \<and>
      mports t3 = mports t2 \<and> max_payloads t3 = max_payloads t2 \<and> payloads t3 = payloads t2 \<and> proposals_ok M (t3\<lparr>mports := (mports t3)(p := None)\<rparr>)"
  proof (cases "vcpi_id x2 > 0")
    case True
    then show ?thesis using put_payload_id_correct [OF t2(4,2), of None] by auto
  next
    case False
    then have "Some p \<notin> set (proposed_vcpis t2)" using proposals_okD(4) [OF t2(4), of p] vcpi_of_simps(1) [OF t2(2)] by auto
    then show ?thesis using proposals_ok_free [OF t2(4), of p] False by simp
  qed
  then obtain t3 where t3: "(if vcpi_id x2 > 0 then drm_dp_mst_put_payload_id t2 (vcpi_id x2) else Inr t2) = Inr t3"
      "branches t3 = branches t2" "mports t3 = mports t2" "max_payloads t3 = max_payloads t2" "payloads t3 = payloads t2"
      "proposals_ok M (t3\<lparr>mports := (mports t3)(p := None)\<rparr>)" by blast
  let ?t = "t3\<lparr>mports := (mports t3)(p := None), hotplugs := hotplugs t3 + 1\<rparr>"
  have "destroy_port_with put_b t p = Inr ?t"
    using p False t2(1,2) t3(1) by (simp add: destroy_port_with_def get_mport_def t1_def [symmetric] Let_def)
  moreover have "freed M B (insert p P) t ?t"
    using t2(5-8) t3(2-6) by (auto simp: freed_def)
  ultimately show ?thesis by blast
qed

lemma put_port_correct:
  assumes rel: "releases n put_b" and ok: "proposals_ok M t" and p: "mports t p = Some x" "port_kref x = 1"
    and own: "owned_port n t x B P" and pP: "p \<notin> P"
  shows "\<exists>t'. put_port_with put_b t p = Inr t' \<and> freed M B (insert p P) t t'"
proof -
  let ?t = "put_mport t p (x\<lparr>port_kref := 0\<rparr>)"
  have "owned_port n ?t (x\<lparr>port_kref := 0\<rparr>) B P"
    by (rule owned_port_vcpi [OF owned_frame(2) [OF own]]) (use pP in \<open>auto simp: put_mport_def\<close>)
  moreover have "proposals_ok M ?t" by (rule proposals_ok_port [OF ok p(1)]) simp_all
  ultimately obtain t' where "destroy_port_with put_b ?t p = Inr t'" "freed M B (insert p P) ?t t'"
    using destroy_port_correct [OF rel, of M ?t p "x\<lparr>port_kref := 0\<rparr>" B P] pP by (auto simp: put_mport_def)
  then show ?thesis using p by (auto simp: put_port_with_def get_mport_def freed_def put_mport_def)
qed

lemma destroy_ports_correct:
  assumes rel: "releases n put_b" and "proposals_ok M t" and "owned_ports n t ps B P" and "branches t b = Some y" and "b \<notin> B"
  shows "\<exists>t' y'. destroy_ports_with put_b t b ps = Inr t' \<and> branches t' b = Some y' \<and> tx_slot0 y' = tx_slot0 y \<and> tx_slot1 y' = tx_slot1 y \<and>
    freed M (insert b B) P t (t'\<lparr>branches := (branches t')(b := None)\<rparr>)"
  using assms(2-)
proof (induction ps arbitrary: t B P y)
  case Nil
  then show ?case by (auto elim!: owned_ports_Nil simp: freed_def)
next
  case (Cons p ps)
  from Cons.prems(2) obtain x B1 P1 B2 P2 where o: "mports t p = Some x" "port_kref x = 1" "owned_port n t x B1 P1"
    "owned_ports n t ps B2 P2" "p \<notin> P1" "p \<notin> P2" "B1 \<inter> B2 = {}" "P1 \<inter> P2 = {}" "B = B1 \<union> B2" "P = insert p (P1 \<union> P2)"
    by (auto elim!: owned_ports_Cons)
  let ?t = "put_branch t b (y\<lparr>mstb_ports := ps\<rparr>)"
  have b: "b \<notin> B1" "b \<notin> B2" using Cons.prems(4) o(9) by auto
  have "owned_port n ?t x B1 P1" by (rule owned_frame(2) [OF o(3)]) (use b in \<open>auto simp: put_branch_def\<close>)
  moreover have "proposals_ok M ?t" using Cons.prems(1) by simp
  ultimately obtain t1 where t1: "put_port_with put_b ?t p = Inr t1" "freed M B1 (insert p P1) ?t t1"
    using put_port_correct [OF rel, of M ?t p x B1 P1] o(1,2,5) by (auto simp: put_branch_def)
  have "owned_ports n t1 ps B2 P2"
    by (rule owned_frame(3) [OF o(4)]) (use t1(2) o(6-8) b in \<open>auto simp: freed_def put_branch_def\<close>)
  moreover have "proposals_ok M t1" "branches t1 b = Some (y\<lparr>mstb_ports := ps\<rparr>)"
    using t1(2) b by (auto simp: freed_def put_branch_def)
  ultimately have "\<exists>t2 y2. destroy_ports_with put_b t1 b ps = Inr t2 \<and> branches t2 b = Some y2 \<and>
      tx_slot0 y2 = tx_slot0 (y\<lparr>mstb_ports := ps\<rparr>) \<and> tx_slot1 y2 = tx_slot1 (y\<lparr>mstb_ports := ps\<rparr>) \<and>
      freed M (insert b B2) P2 t1 (t2\<lparr>branches := (branches t2)(b := None)\<rparr>)"
    using Cons.IH b(2) by blast
  then obtain t2 y2 where t2: "destroy_ports_with put_b t1 b ps = Inr t2" "branches t2 b = Some y2"
    "tx_slot0 y2 = tx_slot0 (y\<lparr>mstb_ports := ps\<rparr>)" "tx_slot1 y2 = tx_slot1 (y\<lparr>mstb_ports := ps\<rparr>)"
    "freed M (insert b B2) P2 t1 (t2\<lparr>branches := (branches t2)(b := None)\<rparr>)" by blast
  have "freed M (insert b B) P t (t2\<lparr>branches := (branches t2)(b := None)\<rparr>)"
    using t1(2) t2(5) o(9,10) unfolding freed_def put_branch_def by (auto split: if_splits)
  moreover have "destroy_ports_with put_b t b (p # ps) = Inr t2" "tx_slot0 y2 = tx_slot0 y" "tx_slot1 y2 = tx_slot1 y"
    using t1(1) t2(1,3,4) Cons.prems(3) by (simp_all add: get_branch_def)
  ultimately show ?case using t2(2) by blast
qed

lemma drop_slot_fields [simp]:
  "branches (drop_slot s t) = branches t" "mports (drop_slot s t) = mports t" "max_payloads (drop_slot s t) = max_payloads t"
  "proposed_vcpis (drop_slot s t) = proposed_vcpis t" "vcpi_mask (drop_slot s t) = vcpi_mask t"
  "payload_mask (drop_slot s t) = payload_mask t" "payloads (drop_slot s t) = payloads t"
  by (simp_all add: drop_slot_def split: option.splits)

lemma put_branch_releases: "releases n (drm_dp_put_mst_branch_device n)"
proof (induction n)
  case 0
  show ?case by (auto simp: releases_def elim: owned_cases)
next
  case (Suc n)
  show ?case unfolding releases_def
  proof (intro allI impI)
    fix M t b B P
    assume own: "owned (Suc n) t b B P" and ok: "proposals_ok M t"
    then obtain y C where o: "branches t b = Some y" "mstb_kref y = 1" "owned_ports n t (mstb_ports y) C P" "b \<notin> C" "B = insert b C"
      by (auto elim: owned_cases)
    let ?t = "(put_branch t b (y\<lparr>mstb_kref := 0\<rparr>))\<lparr>work_queued := False\<rparr>"
    have "owned_ports n ?t (mstb_ports y) C P" by (rule owned_frame(3) [OF o(3)]) (use o(4) in \<open>auto simp: put_branch_def\<close>)
    moreover have "proposals_ok M ?t" using ok by simp
    ultimately obtain t1 y1 where t1: "destroy_ports_with (drm_dp_put_mst_branch_device n) ?t b (mstb_ports y) = Inr t1"
      "branches t1 b = Some y1" "freed M (insert b C) P ?t (t1\<lparr>branches := (branches t1)(b := None)\<rparr>)"
      using destroy_ports_correct [OF Suc.IH, of M ?t "mstb_ports y" C P b "y\<lparr>mstb_kref := 0\<rparr>"] o(4) by (auto simp: put_branch_def)
    then show "\<exists>t'. drm_dp_put_mst_branch_device (Suc n) t b = Inr t' \<and> freed M B P t t'"
      using o(1,2,5)
      by (auto simp: get_branch_def destroy_mst_branch_device_with_def put_branch_def freed_def Let_def split: if_splits)
  qed
qed


lemma topo0_owned: "owned 2 topo0 1 {1, 2} {10, 11, 20}"
proof -
  note i = owned_owned_port_owned_ports.intros
  let ?y = "mstb0\<lparr>mstb_lct := 2, mstb_rad := 16 # replicate 7 0, mstb_ports := [20], tx_slot0 := Some 5\<rparr>"
  have leaf: "owned_port n topo0 (port0\<lparr>port_parent := 2, vcpi_id := 1, vcpi_num_slots := 8\<rparr>) {} {}" "owned_port n topo0 port0 {} {}" for n
    by (rule i(2); simp add: port0_def)+
  have "owned_ports 0 topo0 [20] ({} \<union> {}) (insert 20 ({} \<union> {}))"
    by (rule i(5) [OF _ _ leaf(1) i(4)]) (simp_all add: topo0_def port0_def)
  then have "owned (Suc 0) topo0 2 (insert 2 {}) {20}"
    by (intro i(1) [of _ _ ?y]) (simp_all add: topo0_def mstb0_def)
  then have "owned_port (Suc 0) topo0 (port0\<lparr>port_num := 1, pdt := MST_BRANCHING, port_mstb := Some 2\<rparr>) {2} {20}"
    by (intro i(3) [of _ 2]) (simp_all add: port0_def)
  then have "owned_ports (Suc 0) topo0 [11] ({2} \<union> {}) (insert 11 ({20} \<union> {}))"
    by (intro i(5) [OF _ _ _ i(4)]) (simp_all add: topo0_def port0_def)
  then have "owned_ports (Suc 0) topo0 [10, 11] ({} \<union> {2}) (insert 10 ({} \<union> {11, 20}))"
    by (intro i(5) [OF _ _ leaf(2)]) (simp_all add: topo0_def port0_def)
  then have "owned (Suc (Suc 0)) topo0 1 (insert 1 {2}) {10, 11, 20}"
    by (intro i(1) [of _ _ mstb0]) (simp_all add: topo0_def mstb0_def)
  then show ?thesis by (simp add: numeral_2_eq_2)
qed


end
