(* ===== verification/Dp_Mst_Payload.thy ===== *)
theory Dp_Mst_Payload
  imports Dp_Mst_Release
begin

text \<open>
  The time slots of the virtual channels, \<^verbatim>\<open>drm_dp_mst_topology.c\<close>: allocation of channels for ports, the two parts of the update
  of the payload table, and the table in the DPCD registers of the device.

  The DPCD accessors, the register addresses and bits of the header files, and the transport of a request to a branch
  device until its reply or a timeout are the record \<open>payload_dev\<close>, over a type of device states.
\<close>

unbundle bit_operations_syntax

section \<open>The payload table of the device\<close>

record 'd payload_dev = "'d dpcd" +
  drm_dp_dpcd_readb :: "'d \<Rightarrow> nat \<Rightarrow> (err + u8) \<times> 'd"
  drm_dp_dpcd_writeb :: "'d \<Rightarrow> nat \<Rightarrow> u8 \<Rightarrow> (err + nat) \<times> 'd"
  DP_PAYLOAD_ALLOCATE_SET :: nat
  DP_PAYLOAD_TABLE_UPDATE_STATUS :: nat
  DP_PAYLOAD_TABLE_UPDATED :: u8
  DP_PAYLOAD_ACT_HANDLED :: u8
  request_codes :: dp_codes
  request_memory :: bool
  tx_reply :: "'d \<Rightarrow> ptr \<Rightarrow> u8 list \<Rightarrow> (err + drm_dp_sideband_msg_reply_body) \<times> 'd"

text \<open>The loop that waits for the table to be updated: \<open>n\<close> more tries.\<close>

fun table_loop :: "'d payload_dev \<Rightarrow> nat \<Rightarrow> 'd \<Rightarrow> (err + nat) \<times> 'd" where
  "table_loop dev n d =
     (case drm_dp_dpcd_readb dev d (DP_PAYLOAD_TABLE_UPDATE_STATUS dev) of
        (Inl e, d) \<Rightarrow> (Inl e, d)
      | (Inr status, d) \<Rightarrow>
          if status AND DP_PAYLOAD_TABLE_UPDATED dev = 0
          then case n of 0 \<Rightarrow> (Inl EINVAL, d) | Suc n \<Rightarrow> table_loop dev n d
          else (Inr 0, d))"

definition drm_dp_dpcd_write_payload :: "'d payload_dev \<Rightarrow> 'd \<Rightarrow> int \<Rightarrow> drm_dp_payload \<Rightarrow> (err + nat) \<times> 'd" where
  "drm_dp_dpcd_write_payload dev d i payload =
     (let d = snd (drm_dp_dpcd_writeb dev d (DP_PAYLOAD_TABLE_UPDATE_STATUS dev) (DP_PAYLOAD_TABLE_UPDATED dev));
          (ret, d) = drm_dp_dpcd_write dev d (DP_PAYLOAD_ALLOCATE_SET dev)
            [of_int i, of_int (start_slot payload), of_int (payload_num_slots payload)]
      in if ret \<noteq> Inr 3 then (ret, d) else table_loop dev 19 d)"

fun act_loop :: "'d payload_dev \<Rightarrow> nat \<Rightarrow> 'd \<Rightarrow> err option \<times> 'd" where
  "act_loop dev 0 d = (Some EINVAL, d)"
| "act_loop dev (Suc n) d =
     (case drm_dp_dpcd_readb dev d (DP_PAYLOAD_TABLE_UPDATE_STATUS dev) of
        (Inl e, d) \<Rightarrow> (Some e, d)
      | (Inr status, d) \<Rightarrow> if status AND DP_PAYLOAD_ACT_HANDLED dev \<noteq> 0 then (None, d) else act_loop dev n d)"

definition drm_dp_check_act_status :: "'d payload_dev \<Rightarrow> 'd \<Rightarrow> err option \<times> 'd" where
  "drm_dp_check_act_status dev d = act_loop dev 30 d"

section \<open>Allocation of channels\<close>

text \<open>The initialisation of the part of the manager that this code works on; the flags say whether the allocations succeed.\<close>

definition drm_dp_mst_topology_mgr_init :: "bool \<Rightarrow> bool \<Rightarrow> nat \<Rightarrow> topology \<Rightarrow> err option \<times> topology" where
  "drm_dp_mst_topology_mgr_init mem1 mem2 n t =
     (let t = t\<lparr>max_payloads := n\<rparr>
      in if \<not> mem1 then (Some ENOMEM, t) else
      let t = t\<lparr>payloads := replicate n \<lparr>payload_state = PAYLOAD_NONE, start_slot = 0, payload_num_slots = 0\<rparr>\<rparr>
      in if \<not> mem2 then (Some ENOMEM, t) else
      let t = t\<lparr>proposed_vcpis := replicate n None\<rparr>
      in (None, t\<lparr>payload_mask := Bit_Operations.set_bit 0 (payload_mask t)\<rparr>))"

text \<open>\<^verbatim>\<open>DIV_ROUND_UP\<close> on signed integers, whose division rounds towards zero.\<close>

definition div_round_up :: "int \<Rightarrow> int \<Rightarrow> trap + int" where
  "div_round_up n d = (if d = 0 then Inl Div_by_zero
     else let m = n + d - 1 in Inr (sgn m * sgn d * (\<bar>m\<bar> div \<bar>d\<bar>)))"

definition drm_dp_get_vc_payload_bw :: "u8 \<times> u8 \<times> u8 \<Rightarrow> u8 \<Rightarrow> int \<Rightarrow> int option" where
  "drm_dp_get_vc_payload_bw bw link_bw count =
     (case bw of (bw_1_62, bw_2_7, bw_5_4) \<Rightarrow>
        if link_bw = bw_1_62 then Some (3 * count) else if link_bw = bw_2_7 then Some (5 * count)
        else if link_bw = bw_5_4 then Some (10 * count) else None)"

definition drm_dp_find_vcpi_slots :: "topology \<Rightarrow> int \<Rightarrow> trap + (err + int)" where
  "drm_dp_find_vcpi_slots t pbn =
     bnd (div_round_up pbn (pbn_div t)) (\<lambda>n. Inr (if n > avail_slots t then Inl ENOSPC else Inr n))"

definition drm_dp_init_vcpi :: "topology \<Rightarrow> ptr \<Rightarrow> int \<Rightarrow> trap + err option \<times> topology" where
  "drm_dp_init_vcpi t p pbn =
     bnd (div_round_up pbn (pbn_div t)) (\<lambda>n.
     if n > avail_slots t then Inr (Some ENOSPC, t) else
     bnd (get_mport t p) (\<lambda>x.
     let t = put_mport t p (x\<lparr>vcpi_pbn := pbn, vcpi_aligned_pbn := n * pbn_div t, vcpi_num_slots := n\<rparr>)
     in bnd (drm_dp_mst_assign_payload_id t p) (\<lambda>(ret, t).
        Inr (case ret of Inl e \<Rightarrow> Some e | Inr _ \<Rightarrow> None, t))))"

text \<open>The result is the number of slots when the function returns true.\<close>

definition drm_dp_mst_allocate_vcpi :: "nat \<Rightarrow> topology \<Rightarrow> ptr \<Rightarrow> int \<Rightarrow> trap + int option \<times> topology" where
  "drm_dp_mst_allocate_vcpi fuel t p pbn =
     bnd (drm_dp_get_validated_port_ref fuel t p) (\<lambda>(r, t).
     case r of None \<Rightarrow> Inr (None, t) | Some p \<Rightarrow>
     bnd (get_mport t p) (\<lambda>x.
     if vcpi_id x > 0 \<and> pbn = vcpi_pbn x then Inr (Some (vcpi_num_slots x), t) else
     bnd (drm_dp_init_vcpi t p pbn) (\<lambda>(ret, t).
     if ret \<noteq> None then Inr (None, t) else
     bnd (get_mport t p) (\<lambda>x.
     bnd (drm_dp_put_port fuel t p) (\<lambda>t. Inr (Some (vcpi_num_slots x), t))))))"

definition drm_dp_mst_reset_vcpi_slots :: "nat \<Rightarrow> topology \<Rightarrow> ptr \<Rightarrow> trap + topology" where
  "drm_dp_mst_reset_vcpi_slots fuel t p =
     bnd (drm_dp_get_validated_port_ref fuel t p) (\<lambda>(r, t).
     case r of None \<Rightarrow> Inr t | Some p \<Rightarrow>
     bnd (get_mport t p) (\<lambda>x. drm_dp_put_port fuel (put_mport t p (x\<lparr>vcpi_num_slots := 0\<rparr>)) p))"

definition drm_dp_mst_deallocate_vcpi :: "nat \<Rightarrow> topology \<Rightarrow> ptr \<Rightarrow> trap + topology" where
  "drm_dp_mst_deallocate_vcpi fuel t p =
     bnd (drm_dp_get_validated_port_ref fuel t p) (\<lambda>(r, t).
     case r of None \<Rightarrow> Inr t | Some p \<Rightarrow>
     bnd (get_mport t p) (\<lambda>x.
     bnd (drm_dp_mst_put_payload_id t (vcpi_id x)) (\<lambda>t.
     bnd (get_mport t p) (\<lambda>x.
     drm_dp_put_port fuel
       (put_mport t p (x\<lparr>vcpi_num_slots := 0, vcpi_pbn := 0, vcpi_aligned_pbn := 0, vcpi_id := 0\<rparr>)) p))))"

section \<open>Update of the payload table\<close>

definition drm_dp_payload_send_msg ::
  "'d payload_dev \<Rightarrow> nat \<Rightarrow> topology \<Rightarrow> 'd \<Rightarrow> ptr \<Rightarrow> int \<Rightarrow> int \<Rightarrow> trap + err option \<times> topology \<times> 'd" where
  "drm_dp_payload_send_msg dev fuel t d p i pbn =
     bnd (get_mport t p) (\<lambda>x.
     bnd (drm_dp_get_validated_mstb_ref fuel t (port_parent x)) (\<lambda>(mstb, t).
     case mstb of None \<Rightarrow> Inr (Some EINVAL, t, d) | Some b \<Rightarrow>
     bnd (if \<not> request_memory dev then Inr (Some ENOMEM, d) else
          bnd (build_allocate_payload (request_codes dev) (port_num x) (of_int i) (of_int pbn)) (\<lambda>(msg, _).
          case tx_reply dev d b msg of
            (Inl e, d) \<Rightarrow> Inr (Some e, d)
          | (Inr reply, d) \<Rightarrow> Inr (if reply_type reply = 1 then Some EINVAL else None, d))) (\<lambda>(ret, d).
     bnd (drm_dp_put_mst_branch_device fuel t b) (\<lambda>t. Inr (ret, t, d)))))"

text \<open>The steps on a payload; the result has its new state.\<close>

definition drm_dp_create_payload_step1 ::
  "'d payload_dev \<Rightarrow> 'd \<Rightarrow> int \<Rightarrow> drm_dp_payload \<Rightarrow> payload_state \<times> 'd" where
  "drm_dp_create_payload_step1 dev d i payload =
     (case drm_dp_dpcd_write_payload dev d i payload of
        (Inl e, d) \<Rightarrow> (PAYLOAD_NONE, d) | (Inr _, d) \<Rightarrow> (PAYLOAD_LOCAL, d))"

definition drm_dp_create_payload_step2 ::
  "'d payload_dev \<Rightarrow> nat \<Rightarrow> topology \<Rightarrow> 'd \<Rightarrow> ptr \<Rightarrow> int \<Rightarrow> drm_dp_payload
     \<Rightarrow> trap + err option \<times> drm_dp_payload \<times> topology \<times> 'd" where
  "drm_dp_create_payload_step2 dev fuel t d p i payload =
     bnd (get_mport t p) (\<lambda>x.
     bnd (drm_dp_payload_send_msg dev fuel t d p i (vcpi_pbn x)) (\<lambda>(ret, t, d).
     Inr (ret, if ret \<noteq> None then payload else payload\<lparr>payload_state := PAYLOAD_REMOTE\<rparr>, t, d)))"

definition drm_dp_destroy_payload_step1 ::
  "'d payload_dev \<Rightarrow> nat \<Rightarrow> topology \<Rightarrow> 'd \<Rightarrow> ptr option \<Rightarrow> int \<Rightarrow> drm_dp_payload
     \<Rightarrow> trap + drm_dp_payload \<times> topology \<times> 'd" where
  "drm_dp_destroy_payload_step1 dev fuel t d pt i payload =
     bnd (case pt of None \<Rightarrow> Inr (None, t, d) | Some p \<Rightarrow> drm_dp_payload_send_msg dev fuel t d p i 0) (\<lambda>(_, t, d).
     let d = snd (drm_dp_dpcd_write_payload dev d i payload)
     in Inr (payload\<lparr>payload_state := PAYLOAD_DELETE_LOCAL\<rparr>, t, d))"

definition drm_dp_destroy_payload_step2 :: "drm_dp_payload \<Rightarrow> drm_dp_payload" where
  "drm_dp_destroy_payload_step2 payload = payload\<lparr>payload_state := PAYLOAD_NONE\<rparr>"

text \<open>
  The first loop of the update, from index \<open>i\<close> on: every payload gets its slots behind those of the payloads before it.
\<close>

definition update_payload ::
  "'d payload_dev \<Rightarrow> nat \<Rightarrow> nat \<Rightarrow> int \<Rightarrow> topology \<Rightarrow> 'd \<Rightarrow> trap + int \<times> topology \<times> 'd" where
  "update_payload dev fuel i cur_slots t d =
     bnd (aget (proposed_vcpis t) i) (\<lambda>prop.
     bnd (case prop of None \<Rightarrow> Inr 0 | Some p \<Rightarrow> bnd (get_mport t p) (\<lambda>x. Inr (vcpi_num_slots x))) (\<lambda>req.
     bnd (aget (payloads t) i) (\<lambda>pl.
     let pl = pl\<lparr>start_slot := cur_slots\<rparr>
     in bnd (if payload_num_slots pl \<noteq> req then
               if req \<noteq> 0 then
                 case prop of None \<Rightarrow> Inl Null_deref | Some p \<Rightarrow>
                 bnd (get_mport t p) (\<lambda>x.
                 let (st, d) = drm_dp_create_payload_step1 dev d (vcpi_id x)
                       \<lparr>payload_state = PAYLOAD_NONE, start_slot = cur_slots, payload_num_slots = req\<rparr>
                 in Inr (pl\<lparr>payload_num_slots := req, payload_state := st\<rparr>, t, d))
               else
                 case prop of None \<Rightarrow> Inl Null_deref | Some p \<Rightarrow>
                 bnd (get_mport t p) (\<lambda>x.
                 bnd (drm_dp_destroy_payload_step1 dev fuel t d prop (vcpi_id x) (pl\<lparr>payload_num_slots := 0\<rparr>)) (\<lambda>(pl, t, d).
                 Inr (pl\<lparr>start_slot := 0\<rparr>, t, d)))
             else Inr (pl, t, d)) (\<lambda>(pl, t, d).
        bnd (aput (payloads t) i pl) (\<lambda>pls. Inr (cur_slots + req, t\<lparr>payloads := pls\<rparr>, d))))))"

fun update_loop :: "'d payload_dev \<Rightarrow> nat \<Rightarrow> nat \<Rightarrow> nat \<Rightarrow> int \<Rightarrow> topology \<Rightarrow> 'd \<Rightarrow> trap + topology \<times> 'd" where
  "update_loop dev fuel 0 i cur_slots t d = Inr (t, d)"
| "update_loop dev fuel (Suc n) i cur_slots t d =
     bnd (update_payload dev fuel i cur_slots t d) (\<lambda>(cur_slots, t, d). update_loop dev fuel n (Suc i) cur_slots t d)"

text \<open>The second loop removes the deleted payloads; the inner one moves the payloads behind one down by a place.\<close>

fun shift_loop :: "nat \<Rightarrow> nat \<Rightarrow> topology \<Rightarrow> trap + topology" where
  "shift_loop 0 j t = Inr t"
| "shift_loop (Suc n) j t =
     bnd (aget (payloads t) (j + 1)) (\<lambda>pl.
     bnd (aput (payloads t) j pl) (\<lambda>pls.
     bnd (aget (proposed_vcpis t) (j + 1)) (\<lambda>prop.
     bnd (aput (proposed_vcpis t) j prop) (\<lambda>props.
     bnd (case prop of None \<Rightarrow> Inr False | Some p \<Rightarrow> bnd (get_mport t p) (\<lambda>x. Inr (vcpi_num_slots x \<noteq> 0))) (\<lambda>used.
     bnd ((if used then mask_set else mask_clear) (j + 1) (payload_mask t)) (\<lambda>pm.
     shift_loop n (Suc j) (t\<lparr>payloads := pls, proposed_vcpis := props, payload_mask := pm\<rparr>)))))))"

definition remove_payload :: "nat \<Rightarrow> topology \<Rightarrow> trap + topology" where
  "remove_payload i t =
     bnd (shift_loop (max_payloads t - 1 - i) i t) (\<lambda>t.
     bnd (aput (payloads t) (max_payloads t - 1) \<lparr>payload_state = PAYLOAD_NONE, start_slot = 0, payload_num_slots = 0\<rparr>) (\<lambda>pls.
     bnd (aput (proposed_vcpis t) (max_payloads t - 1) None) (\<lambda>props.
     bnd (mask_clear (max_payloads t) (payload_mask t)) (\<lambda>pm.
     Inr (t\<lparr>payloads := pls, proposed_vcpis := props, payload_mask := pm\<rparr>)))))"

fun remove_loop :: "nat \<Rightarrow> nat \<Rightarrow> topology \<Rightarrow> trap + topology" where
  "remove_loop 0 i t = Inr t"
| "remove_loop (Suc n) i t =
     bnd (aget (payloads t) i) (\<lambda>pl.
     bnd (if payload_state pl = PAYLOAD_DELETE_LOCAL then remove_payload i t else Inr t) (\<lambda>t.
     remove_loop n (Suc i) t))"

definition drm_dp_update_payload_part1 :: "'d payload_dev \<Rightarrow> nat \<Rightarrow> topology \<Rightarrow> 'd \<Rightarrow> trap + topology \<times> 'd" where
  "drm_dp_update_payload_part1 dev fuel t d =
     bnd (update_loop dev fuel (max_payloads t) 0 1 t d) (\<lambda>(t, d).
     bnd (remove_loop (max_payloads t) 0 t) (\<lambda>t. Inr (t, d)))"

fun part2_loop :: "'d payload_dev \<Rightarrow> nat \<Rightarrow> nat \<Rightarrow> nat \<Rightarrow> topology \<Rightarrow> 'd \<Rightarrow> trap + err option \<times> topology \<times> 'd" where
  "part2_loop dev fuel 0 i t d = Inr (None, t, d)"
| "part2_loop dev fuel (Suc n) i t d =
     bnd (aget (proposed_vcpis t) i) (\<lambda>prop.
     case prop of None \<Rightarrow> part2_loop dev fuel n (Suc i) t d | Some p \<Rightarrow>
     bnd (aget (payloads t) i) (\<lambda>pl.
     bnd (get_mport t p) (\<lambda>x.
     bnd (if payload_state pl = PAYLOAD_LOCAL then drm_dp_create_payload_step2 dev fuel t d p (vcpi_id x) pl
          else if payload_state pl = PAYLOAD_DELETE_LOCAL then Inr (None, drm_dp_destroy_payload_step2 pl, t, d)
          else Inr (None, pl, t, d)) (\<lambda>(ret, pl, t, d).
     bnd (aput (payloads t) i pl) (\<lambda>pls.
     if ret \<noteq> None then Inr (ret, t\<lparr>payloads := pls\<rparr>, d)
     else part2_loop dev fuel n (Suc i) (t\<lparr>payloads := pls\<rparr>) d)))))"

definition drm_dp_update_payload_part2 :: "'d payload_dev \<Rightarrow> nat \<Rightarrow> topology \<Rightarrow> 'd \<Rightarrow> trap + err option \<times> topology \<times> 'd" where
  "drm_dp_update_payload_part2 dev fuel t d = part2_loop dev fuel (max_payloads t) 0 t d"

end
