(* ===== verification/Dp_Mst_Probe.thy ===== *)
theory Dp_Mst_Probe
  imports Dp_Mst_Payload
begin

text \<open>
  Discovery of the topology, \<^verbatim>\<open>drm_dp_mst_topology.c\<close>: the link address request and the ports of its reply, changes of ports that
  devices report, the probe work, and the manager being switched on and off.

  Besides the transport of \<open>payload_dev\<close>, the arguments are the codes of the peer device types, the allocator, the contents of the
  stack, the clock, the reader of EDIDs, the DPCD addresses and bits of the header files, and what a reader finds in the union
  of replies when the reply is of another kind than the one it reads.  While a request waits, nothing else runs.
\<close>

unbundle bit_operations_syntax

record 'd probe_dev = "'d payload_dev" +
  pdt_of :: "u8 \<Rightarrow> peer_device_type"
  alloc_port :: "'d \<Rightarrow> topology \<Rightarrow> ptr option \<times> 'd"
  alloc_branch :: "'d \<Rightarrow> topology \<Rightarrow> ptr option \<times> 'd"
  stack_bytes :: "'d \<Rightarrow> u8 list"
  get_jiffies_64 :: "'d \<Rightarrow> u64"
  conn_base_id :: int
  drm_get_edid :: "'d \<Rightarrow> ptr \<Rightarrow> nat option \<times> 'd"
  drm_edid_duplicate :: "'d \<Rightarrow> nat \<Rightarrow> nat option \<times> 'd"
  other_avail :: "reply_body \<Rightarrow> u16"
  other_ports :: "reply_body \<Rightarrow> drm_dp_link_addr_reply_port list"
  DP_GUID :: nat
  DP_MSTM_CTRL :: nat
  DP_DPCD_REV :: nat
  DP_RECEIVER_CAP_SIZE :: nat
  DP_MST_EN :: u8
  DP_UP_REQ_EN :: u8
  DP_UPSTREAM_IS_SRC :: u8
  DP_MAX_LANE_COUNT_MASK :: u8
  DP_LINK_BW :: "u8 \<times> u8 \<times> u8"

section \<open>Requests about ports\<close>

definition avail_payload_bw :: "'d probe_dev \<Rightarrow> drm_dp_sideband_msg_reply_body \<Rightarrow> u16" where
  "avail_payload_bw dev reply = (case reply_u reply of Path_resources _ _ a \<Rightarrow> a | u \<Rightarrow> other_avail dev u)"

definition reply_ports :: "'d probe_dev \<Rightarrow> drm_dp_sideband_msg_reply_body \<Rightarrow> drm_dp_link_addr_reply_port list" where
  "reply_ports dev reply = (case reply_u reply of Link_addr _ n ps \<Rightarrow> take (unat n) ps | u \<Rightarrow> other_ports dev u)"

definition drm_dp_send_enum_path_resources :: "'d probe_dev \<Rightarrow> topology \<Rightarrow> 'd \<Rightarrow> ptr \<Rightarrow> ptr \<Rightarrow> trap + topology \<times> 'd" where
  "drm_dp_send_enum_path_resources dev t d b p =
     (if \<not> request_memory dev then Inr (t, d) else
      bnd (get_mport t p) (\<lambda>x.
      bnd (build_enum_path_resources (request_codes dev) (port_num x)) (\<lambda>(msg, _).
      case tx_reply dev d b msg of
        (Inl e, d) \<Rightarrow> Inr (t, d)
      | (Inr reply, d) \<Rightarrow>
          if reply_type reply = 1 then Inr (t, d)
          else Inr (put_mport t p (x\<lparr>available_pbn := avail_payload_bw dev reply\<rparr>), d))))"

definition drm_dp_send_dpcd_write ::
  "'d probe_dev \<Rightarrow> nat \<Rightarrow> topology \<Rightarrow> 'd \<Rightarrow> ptr \<Rightarrow> nat \<Rightarrow> u8 \<Rightarrow> u8 list \<Rightarrow> trap + err option \<times> topology \<times> 'd" where
  "drm_dp_send_dpcd_write dev fuel t d p offset sz bytes =
     bnd (get_mport t p) (\<lambda>x.
     bnd (drm_dp_get_validated_mstb_ref fuel t (port_parent x)) (\<lambda>(mstb, t).
     case mstb of None \<Rightarrow> Inr (Some EINVAL, t, d) | Some b \<Rightarrow>
     bnd (if \<not> request_memory dev then Inr (Some ENOMEM, d) else
          bnd (build_dpcd_write (request_codes dev) (port_num x) (of_nat offset) sz bytes) (\<lambda>msg.
          case tx_reply dev d b msg of
            (Inl e, d) \<Rightarrow> Inr (Some e, d)
          | (Inr reply, d) \<Rightarrow> Inr (if reply_type reply = 1 then Some EINVAL else None, d))) (\<lambda>(ret, d).
     bnd (drm_dp_put_mst_branch_device fuel t b) (\<lambda>t. Inr (ret, t, d)))))"

definition drm_dp_check_port_guid :: "'d probe_dev \<Rightarrow> nat \<Rightarrow> topology \<Rightarrow> 'd \<Rightarrow> ptr \<Rightarrow> trap + topology \<times> 'd" where
  "drm_dp_check_port_guid dev fuel t d p =
     bnd (get_mport t p) (\<lambda>x.
     if port_dpcd_rev x \<ge> 0x12 then
       let (valid, guid) = drm_dp_validate_guid (get_jiffies_64 dev d) (port_guid x);
           t = put_mport t p (x\<lparr>port_guid := guid, port_guid_valid := valid\<rparr>)
       in if \<not> valid then
            bnd (drm_dp_send_dpcd_write dev fuel t d p (DP_GUID dev) 16 guid) (\<lambda>(_, t, d).
            bnd (get_mport t p) (\<lambda>x. Inr (put_mport t p (x\<lparr>port_guid_valid := True\<rparr>), d)))
          else Inr (t, d)
     else Inr (t, d))"

section \<open>Paths of connectors\<close>

text \<open>\<^verbatim>\<open>%d\<close>, and \<^verbatim>\<open>strlcat\<close> into a buffer of \<open>n\<close> bytes.\<close>

function dec_nat :: "nat \<Rightarrow> string" where
  "dec_nat n = (if n < 10 then [char_of (48 + n)] else dec_nat (n div 10) @ [char_of (48 + n mod 10)])"
  by pat_completeness auto
termination by (relation "measure id") auto

declare dec_nat.simps [simp del]

definition dec_int :: "int \<Rightarrow> string" where
  "dec_int i = (if i < 0 then ''-'' @ dec_nat (nat (- i)) else dec_nat (nat i))"

definition strlcat :: "string \<Rightarrow> string \<Rightarrow> nat \<Rightarrow> string" where
  "strlcat s u n = take (n - 1) (s @ u)"

text \<open>The loop over the address, \<open>n\<close> iterations from \<open>i\<close> on.\<close>

fun path_loop :: "nat \<Rightarrow> nat \<Rightarrow> u8 list \<Rightarrow> nat \<Rightarrow> string \<Rightarrow> trap + string" where
  "path_loop 0 i r sz path = Inr path"
| "path_loop (Suc n) i r sz path =
     bnd (aget r (i div 2)) (\<lambda>v.
     let shift = (if i mod 2 \<noteq> 0 then 0 else 4); num = unat (drop_bit shift v)
     in path_loop n (Suc i) r sz (strlcat path (take 7 (''-'' @ dec_nat num)) sz))"

definition build_mst_prop_path :: "int \<Rightarrow> mst_port \<Rightarrow> mst_branch \<Rightarrow> nat \<Rightarrow> trap + string" where
  "build_mst_prop_path base x y sz =
     bnd (path_loop (unat (mstb_lct y) - 1) 0 (mstb_rad y) sz (take (sz - 1) (''mst:'' @ dec_int base))) (\<lambda>path.
     Inr (strlcat path (take 7 (''-'' @ dec_nat (unat (port_num x)))) sz))"

section \<open>Ports of a reply\<close>

definition zero_mport :: "peer_device_type \<Rightarrow> mst_port" where
  "zero_mport none = \<lparr>port_kref = 0, port_num = 0, input = False, pdt = none, port_mstb = None, port_parent = 0,
     vcpi_id = 0, vcpi_pbn = 0, vcpi_aligned_pbn = 0, vcpi_num_slots = 0,
     port_mcs = False, port_ddps = False, port_ldps = False, port_dpcd_rev = 0, port_sdp_streams = 0, port_sdp_stream_sinks = 0,
     port_guid = replicate 16 0, port_guid_valid = False, available_pbn = 0, cached_edid = None\<rparr>"

text \<open>
  The port with the number, or a new one: its address, whether it is new, and its old peer device type and plug status.
\<close>

definition find_or_create_port ::
  "'d probe_dev \<Rightarrow> topology \<Rightarrow> 'd \<Rightarrow> ptr \<Rightarrow> u8 \<Rightarrow> trap + (ptr \<times> bool \<times> peer_device_type \<times> bool) option \<times> topology \<times> 'd" where
  "find_or_create_port dev t d b n =
     bnd (drm_dp_get_port t b n) (\<lambda>(r, t).
     case r of
       Some p \<Rightarrow> bnd (get_mport t p) (\<lambda>x. Inr (Some (p, False, pdt x, port_ddps x), t, d))
     | None \<Rightarrow>
         (case alloc_port dev d t of
            (None, d) \<Rightarrow> Inr (None, t, d)
          | (Some p, d) \<Rightarrow> Inr (Some (p, True, pdt_of dev 0, False),
              put_mport t p ((zero_mport (pdt_of dev 0))\<lparr>port_kref := 1, port_parent := b, port_num := n\<rparr>), d)))"

definition fill_port :: "'d probe_dev \<Rightarrow> drm_dp_link_addr_reply_port \<Rightarrow> mst_port \<Rightarrow> mst_port" where
  "fill_port dev msg x = x\<lparr>pdt := pdt_of dev (peer_device_type msg), input := Dp_Mst_Msg.input_port msg, port_mcs := mcs msg,
     port_ddps := ddps msg, port_ldps := legacy_device_plug_status msg, port_dpcd_rev := dpcd_revision msg,
     port_sdp_streams := num_sdp_streams msg, port_sdp_stream_sinks := num_sdp_stream_sinks msg, port_guid := peer_guid msg\<rparr>"

definition list_port :: "topology \<Rightarrow> ptr \<Rightarrow> ptr \<Rightarrow> trap + topology" where
  "list_port t b p =
     bnd (port_kref_get t p) (\<lambda>t.
     bnd (get_branch t b) (\<lambda>y. Inr (put_branch t b (y\<lparr>mstb_ports := p # mstb_ports y\<rparr>))))"

text \<open>A change of the plug status; the reply to a link address request also asks for the resources of the path.\<close>

definition plug_port :: "'d probe_dev \<Rightarrow> nat \<Rightarrow> bool \<Rightarrow> topology \<Rightarrow> 'd \<Rightarrow> ptr \<Rightarrow> ptr \<Rightarrow> bool \<Rightarrow> trap + bool \<times> topology \<times> 'd" where
  "plug_port dev fuel enum t d b p old_ddps =
     bnd (get_mport t p) (\<lambda>x.
     if old_ddps \<noteq> port_ddps x then
       if port_ddps x then
         bnd (drm_dp_check_port_guid dev fuel t d p) (\<lambda>(t, d).
         bnd (if enum \<and> \<not> input x then drm_dp_send_enum_path_resources dev t d b p else Inr (t, d)) (\<lambda>(t, d).
         Inr (True, t, d)))
       else Inr (False, put_mport t p (x\<lparr>port_guid_valid := False, available_pbn := 0\<rparr>), d)
     else Inr (False, t, d))"

text \<open>A change of the peer device; the result tells whether there is a new branch device.\<close>

definition change_peer :: "'d probe_dev \<Rightarrow> nat \<Rightarrow> topology \<Rightarrow> 'd \<Rightarrow> ptr \<Rightarrow> peer_device_type \<Rightarrow> trap + bool \<times> topology \<times> 'd" where
  "change_peer dev fuel t d p old_pdt =
     bnd (get_mport t p) (\<lambda>x.
     if old_pdt \<noteq> pdt x \<and> \<not> input x then
       bnd (drm_dp_port_teardown_pdt fuel t p old_pdt) (\<lambda>t.
       let (addr, d) = (if pdt x = MST_BRANCHING then alloc_branch dev d t else (None, d))
       in bnd (drm_dp_port_setup_pdt addr (stack_bytes dev d) t p) (\<lambda>(send_link, t). Inr (send_link, t, d)))
     else Inr (False, t, d))"

definition add_connector :: "'d probe_dev \<Rightarrow> topology \<Rightarrow> 'd \<Rightarrow> ptr \<Rightarrow> ptr \<Rightarrow> trap + topology \<times> 'd" where
  "add_connector dev t d b p =
     bnd (get_mport t p) (\<lambda>x.
     bnd (get_branch t b) (\<lambda>y.
     bnd (build_mst_prop_path (conn_base_id dev) x y 255) (\<lambda>path.
     let t = t\<lparr>connectors := (connectors t)(p \<mapsto> path)\<rparr>
     in if port_num x \<ge> 8 then
          let (e, d) = drm_get_edid dev d p in Inr (put_mport t p (x\<lparr>cached_edid := e\<rparr>), d)
        else Inr (t, d))))"

text \<open>\<open>send_link\<close> is \<^verbatim>\<open>drm_dp_send_link_address\<close>.\<close>

definition link_new_branch ::
  "(topology \<Rightarrow> 'd \<Rightarrow> ptr \<Rightarrow> trap + topology \<times> 'd) \<Rightarrow> topology \<Rightarrow> 'd \<Rightarrow> ptr \<Rightarrow> trap + topology \<times> 'd" where
  "link_new_branch send_link t d p =
     bnd (get_mport t p) (\<lambda>x.
     case port_mstb x of None \<Rightarrow> Inl Null_deref | Some c \<Rightarrow>
     bnd (send_link t d c) (\<lambda>(t, d).
     bnd (get_mport t p) (\<lambda>x.
     case port_mstb x of None \<Rightarrow> Inl Null_deref | Some c \<Rightarrow>
     bnd (get_branch t c) (\<lambda>y. Inr (put_branch t c (y\<lparr>link_address_sent := True\<rparr>), d)))))"

definition add_port_with ::
  "(topology \<Rightarrow> 'd \<Rightarrow> ptr \<Rightarrow> trap + topology \<times> 'd) \<Rightarrow> 'd probe_dev \<Rightarrow> nat \<Rightarrow> topology \<Rightarrow> 'd \<Rightarrow> ptr
     \<Rightarrow> drm_dp_link_addr_reply_port \<Rightarrow> trap + topology \<times> 'd" where
  "add_port_with send_link dev fuel t d b msg =
     bnd (find_or_create_port dev t d b (port_number msg)) (\<lambda>(r, t, d).
     case r of None \<Rightarrow> Inr (t, d) | Some (p, created, old_pdt, old_ddps) \<Rightarrow>
     bnd (get_mport t p) (\<lambda>x.
     let t = put_mport t p (fill_port dev msg x)
     in bnd (if created then list_port t b p else Inr t) (\<lambda>t.
        bnd (plug_port dev fuel True t d b p old_ddps) (\<lambda>(_, t, d).
        bnd (change_peer dev fuel t d p old_pdt) (\<lambda>(send, t, d).
        bnd (if send then link_new_branch send_link t d p else Inr (t, d)) (\<lambda>(t, d).
        bnd (if created \<and> \<not> Dp_Mst_Msg.input_port msg then add_connector dev t d b p else Inr (t, d)) (\<lambda>(t, d).
        bnd (drm_dp_put_port fuel t p) (\<lambda>t. Inr (t, d)))))))))"

fun add_ports_with ::
  "(topology \<Rightarrow> 'd \<Rightarrow> ptr \<Rightarrow> trap + topology \<times> 'd) \<Rightarrow> 'd probe_dev \<Rightarrow> nat \<Rightarrow> topology \<Rightarrow> 'd \<Rightarrow> ptr
     \<Rightarrow> drm_dp_link_addr_reply_port list \<Rightarrow> trap + topology \<times> 'd" where
  "add_ports_with send_link dev fuel t d b [] = Inr (t, d)"
| "add_ports_with send_link dev fuel t d b (m # ms) =
     bnd (add_port_with send_link dev fuel t d b m) (\<lambda>(t, d). add_ports_with send_link dev fuel t d b ms)"

text \<open>A reply can lead to requests to the branch devices behind its ports; \<open>n\<close> bounds how deep they go.\<close>

fun drm_dp_send_link_address :: "'d probe_dev \<Rightarrow> nat \<Rightarrow> nat \<Rightarrow> topology \<Rightarrow> 'd \<Rightarrow> ptr \<Rightarrow> trap + topology \<times> 'd" where
  "drm_dp_send_link_address dev fuel 0 t d b = Inl Out_of_fuel"
| "drm_dp_send_link_address dev fuel (Suc n) t d b =
     (if \<not> request_memory dev then Inr (t, d) else
      bnd (build_link_address (request_codes dev)) (\<lambda>msg.
      case tx_reply dev d b msg of
        (Inl e, d) \<Rightarrow> Inr (t, d)
      | (Inr reply, d) \<Rightarrow>
          if reply_type reply = 1 then Inr (t, d)
          else bnd (add_ports_with (drm_dp_send_link_address dev fuel n) dev fuel t d b (reply_ports dev reply)) (\<lambda>(t, d).
               Inr (t\<lparr>hotplugs := hotplugs t + 1\<rparr>, d))))"

definition drm_dp_add_port ::
  "'d probe_dev \<Rightarrow> nat \<Rightarrow> nat \<Rightarrow> topology \<Rightarrow> 'd \<Rightarrow> ptr \<Rightarrow> drm_dp_link_addr_reply_port \<Rightarrow> trap + topology \<times> 'd" where
  "drm_dp_add_port dev fuel n = add_port_with (drm_dp_send_link_address dev fuel n) dev fuel"

section \<open>Reported changes and the probe work\<close>

definition drm_dp_update_port :: "'d probe_dev \<Rightarrow> nat \<Rightarrow> topology \<Rightarrow> 'd \<Rightarrow> ptr \<Rightarrow> conn_stat \<Rightarrow> trap + topology \<times> 'd" where
  "drm_dp_update_port dev fuel t d b cs =
     bnd (drm_dp_get_port t b (cs_port_number cs)) (\<lambda>(r, t).
     case r of None \<Rightarrow> Inr (t, d) | Some p \<Rightarrow>
     bnd (get_mport t p) (\<lambda>x.
     let t = put_mport t p (x\<lparr>pdt := pdt_of dev (cs_peer_device_type cs), port_mcs := cs_message_capability_status cs,
           port_ldps := cs_legacy_device_plug_status cs, port_ddps := cs_displayport_device_plug_status cs\<rparr>)
     in bnd (plug_port dev fuel False t d b p (port_ddps x)) (\<lambda>(plugged, t, d).
        bnd (change_peer dev fuel t d p (pdt x)) (\<lambda>(send, t, d).
        bnd (drm_dp_put_port fuel t p) (\<lambda>t.
        Inr (if plugged \<or> send then t\<lparr>work_queued := True\<rparr> else t, d))))))"

text \<open>The walk of the probe work; \<open>rec\<close> is the work on the branch device behind a port.\<close>

fun probe_ports ::
  "(topology \<Rightarrow> 'd \<Rightarrow> ptr \<Rightarrow> trap + topology \<times> 'd) \<Rightarrow> 'd probe_dev \<Rightarrow> topology \<Rightarrow> 'd \<Rightarrow> ptr \<Rightarrow> ptr list \<Rightarrow> trap + topology \<times> 'd" where
  "probe_ports rec dev t d b [] = Inr (t, d)"
| "probe_ports rec dev t d b (p # ps) =
     bnd (get_mport t p) (\<lambda>x.
     if input x \<or> \<not> port_ddps x then probe_ports rec dev t d b ps else
     bnd (if available_pbn x = 0 then drm_dp_send_enum_path_resources dev t d b p else Inr (t, d)) (\<lambda>(t, d).
     bnd (get_mport t p) (\<lambda>x.
     bnd (case port_mstb x of None \<Rightarrow> Inr (t, d) | Some c \<Rightarrow> rec t d c) (\<lambda>(t, d).
     probe_ports rec dev t d b ps))))"

fun drm_dp_check_and_send_link_address :: "'d probe_dev \<Rightarrow> nat \<Rightarrow> nat \<Rightarrow> topology \<Rightarrow> 'd \<Rightarrow> ptr \<Rightarrow> trap + topology \<times> 'd" where
  "drm_dp_check_and_send_link_address dev fuel 0 t d b = Inl Out_of_fuel"
| "drm_dp_check_and_send_link_address dev fuel (Suc n) t d b =
     bnd (get_branch t b) (\<lambda>y.
     bnd (if \<not> link_address_sent y then
            bnd (drm_dp_send_link_address dev fuel n t d b) (\<lambda>(t, d).
            bnd (get_branch t b) (\<lambda>y. Inr (put_branch t b (y\<lparr>link_address_sent := True\<rparr>), d)))
          else Inr (t, d)) (\<lambda>(t, d).
     bnd (get_branch t b) (\<lambda>y.
     probe_ports (drm_dp_check_and_send_link_address dev fuel n) dev t d b (mstb_ports y))))"

definition drm_dp_mst_link_probe_work :: "'d probe_dev \<Rightarrow> nat \<Rightarrow> nat \<Rightarrow> topology \<Rightarrow> 'd \<Rightarrow> trap + topology \<times> 'd" where
  "drm_dp_mst_link_probe_work dev fuel n t d =
     (case mst_primary t of None \<Rightarrow> Inl Null_deref | Some b \<Rightarrow> drm_dp_check_and_send_link_address dev fuel n t d b)"

section \<open>The manager\<close>

text \<open>The device is switched into multi-stream mode, and gets a GUID when it has none.\<close>

definition mst_enable :: "'d probe_dev \<Rightarrow> ptr \<Rightarrow> topology \<Rightarrow> 'd \<Rightarrow> trap + (err + nat) \<times> ptr option \<times> topology \<times> 'd" where
  "mst_enable dev b t d =
     (let d = snd (drm_dp_dpcd_write_payload (payload_dev.truncate dev) d 0
            \<lparr>payload_state = PAYLOAD_NONE, start_slot = 0, payload_num_slots = 0x3f\<rparr>);
          (ret, d) = drm_dp_dpcd_writeb dev d (DP_MSTM_CTRL dev) (DP_MST_EN dev OR DP_UP_REQ_EN dev OR DP_UPSTREAM_IS_SRC dev)
      in if isl ret then Inr (ret, Some b, t, d) else
      let (ret, bytes, d) = drm_dp_dpcd_read dev d (DP_GUID dev) 16
      in bnd (ablit (mgr_guid t) 0 bytes) (\<lambda>guid.
      if ret \<noteq> Inr 16 then Inr (ret, Some b, t\<lparr>mgr_guid := guid\<rparr>, d) else
      let (valid, guid) = drm_dp_validate_guid (get_jiffies_64 dev d) guid;
          d = (if valid then d else snd (drm_dp_dpcd_write dev d (DP_GUID dev) guid))
      in Inr (Inr 0, Some b, t\<lparr>mgr_guid := guid, mgr_guid_valid := True, work_queued := True\<rparr>, d)))"

text \<open>The first branch device is made the primary one, with a reference of the manager besides the one that is returned.\<close>

definition mst_add_primary :: "'d probe_dev \<Rightarrow> topology \<Rightarrow> 'd \<Rightarrow> trap + (err + nat) \<times> ptr option \<times> topology \<times> 'd" where
  "mst_add_primary dev t d =
     (let (addr, d) = alloc_branch dev d t
      in bnd (drm_dp_add_mst_branch_device addr t 1 []) (\<lambda>(mstb, t).
         case mstb of None \<Rightarrow> Inr (Inl ENOMEM, None, t, d) | Some b \<Rightarrow>
         bnd (mstb_kref_get (t\<lparr>mst_primary := Some b\<rparr>) b) (\<lambda>t. mst_enable dev b t d)))"

text \<open>
  Switching multi-stream mode on, in the order of the code: the capabilities, the bandwidth, the first branch device.  The result is the return value, and the branch device to which a reference is dropped at the end.
\<close>

definition mst_on :: "'d probe_dev \<Rightarrow> topology \<Rightarrow> 'd \<Rightarrow> trap + (err + nat) \<times> ptr option \<times> topology \<times> 'd" where
  "mst_on dev t d =
     (let (ret, bytes, d) = drm_dp_dpcd_read dev d (DP_DPCD_REV dev) (DP_RECEIVER_CAP_SIZE dev)
      in bnd (ablit (mgr_dpcd t) 0 bytes) (\<lambda>caps.
      let t = t\<lparr>mgr_dpcd := caps\<rparr>
      in if ret \<noteq> Inr (DP_RECEIVER_CAP_SIZE dev) then Inr (ret, None, t, d) else
      bnd (aget caps 1) (\<lambda>bw.
      bnd (aget caps 2) (\<lambda>lanes.
      case drm_dp_get_vc_payload_bw (DP_LINK_BW dev) bw (uint (lanes AND DP_MAX_LANE_COUNT_MASK dev)) of
        None \<Rightarrow> Inr (Inl EINVAL, None, t, d)
      | Some pd \<Rightarrow>
      bnd (div_round_up 2560 pd) (\<lambda>total.
      mst_add_primary dev (t\<lparr>pbn_div := pd, total_slots := total, avail_slots := total\<rparr>) d)))))"

definition mst_off :: "'d probe_dev \<Rightarrow> topology \<Rightarrow> 'd \<Rightarrow> ptr option \<times> topology \<times> 'd" where
  "mst_off dev t d =
     (mst_primary t,
      t\<lparr>mst_primary := None,
        payloads := replicate (max_payloads t) \<lparr>payload_state = PAYLOAD_NONE, start_slot = 0, payload_num_slots = 0\<rparr>,
        payload_mask := Bit_Operations.set_bit 0 0, vcpi_mask := 0\<rparr>,
      snd (drm_dp_dpcd_writeb dev d (DP_MSTM_CTRL dev) 0))"

definition drm_dp_mst_topology_mgr_set_mst ::
  "'d probe_dev \<Rightarrow> nat \<Rightarrow> bool \<Rightarrow> topology \<Rightarrow> 'd \<Rightarrow> trap + (err + nat) \<times> topology \<times> 'd" where
  "drm_dp_mst_topology_mgr_set_mst dev fuel on t d =
     bnd (if on = mst_state t then Inr (Inr 0, None, t, d)
          else if on then mst_on dev (t\<lparr>mst_state := True\<rparr>) d
          else Inr (Inr 0, mst_off dev (t\<lparr>mst_state := False\<rparr>) d)) (\<lambda>(ret, mstb, t, d).
     bnd (case mstb of None \<Rightarrow> Inr t | Some b \<Rightarrow> drm_dp_put_mst_branch_device fuel t b) (\<lambda>t.
     Inr (ret, t, d)))"

definition drm_dp_mst_topology_mgr_suspend :: "'d probe_dev \<Rightarrow> 'd \<Rightarrow> 'd" where
  "drm_dp_mst_topology_mgr_suspend dev d = snd (drm_dp_dpcd_writeb dev d (DP_MSTM_CTRL dev) (DP_MST_EN dev OR DP_UPSTREAM_IS_SRC dev))"

text \<open>The result tells whether the device is still there.\<close>

definition drm_dp_mst_topology_mgr_resume :: "'d probe_dev \<Rightarrow> topology \<Rightarrow> 'd \<Rightarrow> trap + bool \<times> topology \<times> 'd" where
  "drm_dp_mst_topology_mgr_resume dev t d =
     (if mst_primary t = None then Inr (False, t, d) else
      let (ret, bytes, d) = drm_dp_dpcd_read dev d (DP_DPCD_REV dev) (DP_RECEIVER_CAP_SIZE dev)
      in bnd (ablit (mgr_dpcd t) 0 bytes) (\<lambda>caps.
      let t = t\<lparr>mgr_dpcd := caps\<rparr>
      in if ret \<noteq> Inr (DP_RECEIVER_CAP_SIZE dev) then Inr (False, t, d) else
      let (ret, d) = drm_dp_dpcd_writeb dev d (DP_MSTM_CTRL dev) (DP_MST_EN dev OR DP_UP_REQ_EN dev OR DP_UPSTREAM_IS_SRC dev)
      in Inr (\<not> isl ret, t, d)))"

text \<open>The result tells whether the port is connected.\<close>

definition drm_dp_mst_detect_port :: "'d probe_dev \<Rightarrow> nat \<Rightarrow> topology \<Rightarrow> 'd \<Rightarrow> ptr \<Rightarrow> trap + bool \<times> topology \<times> 'd" where
  "drm_dp_mst_detect_port dev fuel t d p =
     bnd (drm_dp_get_validated_port_ref fuel t p) (\<lambda>(r, t).
     case r of None \<Rightarrow> Inr (False, t, d) | Some p \<Rightarrow>
     bnd (get_mport t p) (\<lambda>x.
     let (status, t, d) =
       (if \<not> port_ddps x then (False, t, d)
        else case pdt x of
          SST_SINK \<Rightarrow>
            if port_num x \<ge> 8 \<and> cached_edid x = None
            then (case drm_get_edid dev d p of (e, d) \<Rightarrow> (True, put_mport t p (x\<lparr>cached_edid := e\<rparr>), d))
            else (True, t, d)
        | DP_LEGACY_CONV \<Rightarrow> (port_ldps x, t, d)
        | _ \<Rightarrow> (False, t, d))
     in bnd (drm_dp_put_port fuel t p) (\<lambda>t. Inr (status, t, d))))"

definition drm_dp_mst_get_edid :: "'d probe_dev \<Rightarrow> nat \<Rightarrow> topology \<Rightarrow> 'd \<Rightarrow> ptr \<Rightarrow> trap + nat option \<times> topology \<times> 'd" where
  "drm_dp_mst_get_edid dev fuel t d p =
     bnd (drm_dp_get_validated_port_ref fuel t p) (\<lambda>(r, t).
     case r of None \<Rightarrow> Inr (None, t, d) | Some p \<Rightarrow>
     bnd (get_mport t p) (\<lambda>x.
     let (e, d) = (case cached_edid x of Some e \<Rightarrow> drm_edid_duplicate dev d e | None \<Rightarrow> drm_get_edid dev d p)
     in bnd (drm_dp_put_port fuel t p) (\<lambda>t. Inr (e, t, d))))"

end
