(* ===== verification/Dp_Mst_Payload_Props.thy ===== *)
theory Dp_Mst_Payload_Props
  imports Dp_Mst_Payload
begin

text \<open>
  The payload table: after the first part of an update the slots of the payloads are consecutive, and whatever sequence of
  operations runs, the ids of the channels are distinct and no proposal refers to a port that is gone.
\<close>

unbundle bit_operations_syntax

section \<open>References taken for a moment\<close>

text \<open>Every object that is there has a reference.\<close>

definition refs_ok :: "topology \<Rightarrow> bool" where
  "refs_ok t \<longleftrightarrow> (\<forall>b y. branches t b = Some y \<longrightarrow> 1 \<le> mstb_kref y) \<and> (\<forall>p x. mports t p = Some x \<longrightarrow> 1 \<le> port_kref x)"

definition mstb_ref_added :: "topology \<Rightarrow> ptr \<Rightarrow> topology" where
  "mstb_ref_added t b = t\<lparr>branches := (branches t)(b := map_option (\<lambda>y. y\<lparr>mstb_kref := mstb_kref y + 1\<rparr>) (branches t b))\<rparr>"

definition found_mstb :: "topology \<Rightarrow> ptr \<Rightarrow> ptr option \<times> topology \<Rightarrow> bool" where
  "found_mstb t f r \<longleftrightarrow> r = (None, t) \<or> r = (Some f, mstb_ref_added t f) \<and> branches t f \<noteq> None"

definition found_port :: "topology \<Rightarrow> ptr \<Rightarrow> ptr option \<times> topology \<Rightarrow> bool" where
  "found_port t f r \<longleftrightarrow> r = (None, t) \<or> r = (Some f, port_ref_added t f) \<and> mports t f \<noteq> None"

lemma mstb_kref_get_found: "sat (\<lambda>t'. found_mstb t b (Some b, t')) (mstb_kref_get t b)"
  by (auto simp: mstb_kref_get_def get_branch_def put_branch_def found_mstb_def mstb_ref_added_def split: option.splits)

lemma mstb_ref_loop_found:
  assumes "\<And>c. sat (found_mstb t f) (rec t c)"
  shows "sat (found_mstb t f) (mstb_ref_loop rec t ps)"
proof (induction ps)
  case (Cons p ps)
  have "sat (found_mstb t f) (bnd (rec t c) (\<lambda>(rmstb, t). if rmstb \<noteq> None then Inr (rmstb, t) else mstb_ref_loop rec t ps))" for c
  proof (cases "rec t c")
    case (Inr r)
    then have "found_mstb t f r" using assms [of c] by simp
    then consider "r = (None, t)" | "r = (Some f, mstb_ref_added t f)" "branches t f \<noteq> None" by (auto simp: found_mstb_def)
    then show ?thesis using Inr Cons.IH by cases (simp_all, simp add: found_mstb_def)
  qed simp
  then show ?case using Cons.IH by (auto simp: get_mport_def split: option.splits)
qed (simp add: found_mstb_def)

lemma get_mstb_locked_found: "sat (found_mstb t f) (drm_dp_mst_get_validated_mstb_ref_locked n f t b)"
proof (induction n arbitrary: b)
  case (Suc n)
  have "sat (found_mstb t b) (bnd (mstb_kref_get t b) (\<lambda>t. Inr (Some b, t)))"
    using mstb_kref_get_found [of t b] by (cases "mstb_kref_get t b") simp_all
  moreover have "sat (found_mstb t f) (bnd (get_branch t b) (\<lambda>y.
      mstb_ref_loop (drm_dp_mst_get_validated_mstb_ref_locked n f) t (mstb_ports y)))"
    by (rule sat_bnd) (rule mstb_ref_loop_found, rule Suc.IH)
  ultimately show ?case by auto
qed simp

lemma get_validated_mstb_found: "sat (found_mstb t f) (drm_dp_get_validated_mstb_ref n t f)"
  using get_mstb_locked_found by (auto simp: drm_dp_get_validated_mstb_ref_def found_mstb_def split: option.splits)

lemma port_ref_loop_found:
  assumes "\<And>c. sat (found_port t f) (rec t c)"
  shows "sat (found_port t f) (port_ref_loop rec f t ps)"
proof (induction ps)
  case (Cons p ps)
  have "sat (found_port t f) (bnd (rec t c) (\<lambda>(m, t). if m \<noteq> None then Inr (m, t) else port_ref_loop rec f t ps))" for c
  proof (cases "rec t c")
    case (Inr r)
    then have "found_port t f r" using assms [of c] by simp
    then consider "r = (None, t)" | "r = (Some f, port_ref_added t f)" "mports t f \<noteq> None" by (auto simp: found_port_def)
    then show ?thesis using Inr Cons.IH by cases (simp_all, simp add: found_port_def)
  qed simp
  moreover have "sat (found_port t p) (bnd (port_kref_get t p) (\<lambda>t. Inr (Some p, t)))"
    using port_kref_get_live [of t p]
    by (cases "mports t p") (auto simp: found_port_def port_kref_get_def get_mport_def)
  ultimately show ?case using Cons.IH by (auto simp: get_mport_def split: option.splits)
qed (simp add: found_port_def)

lemma get_port_locked_found: "sat (found_port t f) (drm_dp_mst_get_port_ref_locked n f t b)"
proof (induction n arbitrary: b)
  case (Suc n)
  show ?case unfolding drm_dp_mst_get_port_ref_locked.simps
    by (rule sat_bnd) (rule port_ref_loop_found, rule Suc.IH)
qed simp

lemma get_validated_port_found: "sat (found_port t f) (drm_dp_get_validated_port_ref n t f)"
  using get_port_locked_found by (auto simp: drm_dp_get_validated_port_ref_def found_port_def split: option.splits)

text \<open>Dropping a reference that was just taken restores the object.\<close>

lemma put_mstb_ref_added:
  assumes "branches t b = Some y" and "1 \<le> mstb_kref y"
  shows "drm_dp_put_mst_branch_device (Suc n) (mstb_ref_added t b) b = Inr t"
proof -
  have "t\<lparr>branches := (branches t)(b \<mapsto> y)\<rparr> = t" using assms(1) by (cases t) (simp add: fun_upd_idem)
  then show ?thesis using assms by (simp add: mstb_ref_added_def get_branch_def put_branch_def)
qed

text \<open>A request to a branch device that holds a reference while it waits.\<close>

lemma with_mstb_keeps:
  assumes "refs_ok t"
  shows "sat (\<lambda>(_, t', _). t' = t) (bnd (drm_dp_get_validated_mstb_ref fuel t c) (\<lambda>(mstb, t).
     case mstb of None \<Rightarrow> Inr (e, t, d) | Some b \<Rightarrow>
     bnd (request b) (\<lambda>(ret, d). bnd (drm_dp_put_mst_branch_device fuel t b) (\<lambda>t. Inr (ret, t, d)))))"
proof (rule sat_bnd)
  fix r
  assume "drm_dp_get_validated_mstb_ref fuel t c = Inr r"
  then have f: "found_mstb t c r" using get_validated_mstb_found by (metis sat_def)
  show "sat (\<lambda>(_, t', _). t' = t) (case r of (mstb, t) \<Rightarrow>
     case mstb of None \<Rightarrow> Inr (e, t, d) | Some b \<Rightarrow>
     bnd (request b) (\<lambda>(ret, d). bnd (drm_dp_put_mst_branch_device fuel t b) (\<lambda>t. Inr (ret, t, d))))"
  proof (cases "fst r")
    case None
    then show ?thesis using f by (auto simp: found_mstb_def)
  next
    case (Some b)
    then obtain y where b: "b = c" "r = (Some b, mstb_ref_added t b)" "branches t b = Some y"
      using f by (auto simp: found_mstb_def)
    then have "sat (\<lambda>t'. t' = t) (drm_dp_put_mst_branch_device fuel (mstb_ref_added t b) b)"
      using put_mstb_ref_added [of t b y] assms by (cases fuel) (auto simp: refs_ok_def)
    then show ?thesis using b(2) by (auto simp: sat_def bnd_Inr_iff split: prod.splits)
  qed
qed

lemma send_msg_keeps:
  assumes "refs_ok t"
  shows "sat (\<lambda>(_, t', _). t' = t) (drm_dp_payload_send_msg dev fuel t d p i pbn)"
  unfolding drm_dp_payload_send_msg_def by (rule sat_bnd) (rule with_mstb_keeps [OF assms])

section \<open>Totality of the requests\<close>

definition live_topology :: "nat \<Rightarrow> topology \<Rightarrow> bool" where
  "live_topology n t \<longleftrightarrow> (case mst_primary t of None \<Rightarrow> True | Some b \<Rightarrow> live_tree n t b)"

lemma mstb_ref_loop_total:
  assumes "list_all (\<lambda>p. case mports t p of None \<Rightarrow> False | Some x \<Rightarrow>
      (case port_mstb x of None \<Rightarrow> True | Some c \<Rightarrow> \<exists>r. rec t c = Inr r)) ps" and "\<And>c. sat (found_mstb t f) (rec t c)"
  shows "\<exists>r. mstb_ref_loop rec t ps = Inr r"
  using assms(1)
proof (induction ps)
  case (Cons p ps)
  then obtain r where r: "mstb_ref_loop rec t ps = Inr r" by auto
  have "\<exists>r. bnd (rec t c) (\<lambda>(rmstb, t). if rmstb \<noteq> None then Inr (rmstb, t) else mstb_ref_loop rec t ps) = Inr r"
    if "rec t c = Inr q" for c q
    using assms(2) [of c] r that by (auto simp: found_mstb_def)
  moreover obtain x where x: "mports t p = Some x" "\<And>c. port_mstb x = Some c \<Longrightarrow> \<exists>r. rec t c = Inr r"
    using Cons.prems by (auto split: option.splits)
  ultimately show ?case using r by (cases "port_mstb x") (auto simp: get_mport_def)
qed simp

lemma get_mstb_locked_total: "live_tree n t b \<Longrightarrow> \<exists>r. drm_dp_mst_get_validated_mstb_ref_locked n f t b = Inr r"
proof (induction n arbitrary: b)
  case (Suc n)
  then obtain y where y: "branches t b = Some y" by (auto split: option.splits)
  have "list_all (\<lambda>p. case mports t p of None \<Rightarrow> False | Some x \<Rightarrow>
      (case port_mstb x of None \<Rightarrow> True | Some c \<Rightarrow> live_tree n t c)) (mstb_ports y)" using Suc.prems y by simp
  then have "list_all (\<lambda>p. case mports t p of None \<Rightarrow> False | Some x \<Rightarrow>
      (case port_mstb x of None \<Rightarrow> True | Some c \<Rightarrow> \<exists>r. drm_dp_mst_get_validated_mstb_ref_locked n f t c = Inr r)) (mstb_ports y)"
    by (rule list.pred_mono_strong) (use Suc.IH in \<open>fastforce split: option.splits\<close>)
  from mstb_ref_loop_total [where rec = "drm_dp_mst_get_validated_mstb_ref_locked n f", OF this get_mstb_locked_found]
  show ?case using y by (auto simp: get_branch_def mstb_kref_get_def)
qed simp

lemma build_allocate_payload_total: "\<exists>m. build_allocate_payload k n v w = Inr m"
  by (auto simp: build_allocate_payload_def drm_dp_encode_sideband_req_def Let_def)

lemma send_msg_total:
  assumes "refs_ok t" and "live_topology fuel t" and "mports t p \<noteq> None"
  shows "\<exists>r d'. drm_dp_payload_send_msg dev fuel t d p i pbn = Inr (r, t, d')"
proof -
  obtain x where x: "mports t p = Some x" using assms(3) by auto
  obtain q where q: "drm_dp_get_validated_mstb_ref fuel t (port_parent x) = Inr q"
    using assms(2) get_mstb_locked_total by (fastforce simp: drm_dp_get_validated_mstb_ref_def live_topology_def split: option.splits)
  then have f: "found_mstb t (port_parent x) q" using get_validated_mstb_found by (metis sat_def)
  obtain m where m: "build_allocate_payload (request_codes dev) (port_num x) (of_int i) (of_int pbn) = Inr m"
    using build_allocate_payload_total by blast
  have "\<exists>r. drm_dp_payload_send_msg dev fuel t d p i pbn = Inr r"
    using f
  proof (unfold found_mstb_def, elim disjE conjE)
    assume "q = (None, t)"
    then show ?thesis using x q by (simp add: drm_dp_payload_send_msg_def get_mport_def)
  next
    assume r: "q = (Some (port_parent x), mstb_ref_added t (port_parent x))" and "branches t (port_parent x) \<noteq> None"
    then obtain y where "branches t (port_parent x) = Some y" "1 \<le> mstb_kref y" using assms(1) by (auto simp: refs_ok_def)
    moreover obtain n where "fuel = Suc n"
      using q r by (cases fuel) (auto simp: drm_dp_get_validated_mstb_ref_def split: option.splits)
    ultimately show ?thesis
      using x q r m put_mstb_ref_added [of t "port_parent x" y n]
      by (auto simp: drm_dp_payload_send_msg_def get_mport_def split: prod.splits sum.splits)
  qed
  then show ?thesis using send_msg_keeps [OF assms(1), of dev fuel d p i pbn] by auto
qed

section \<open>The slots\<close>

definition slots_of :: "topology \<Rightarrow> ptr option \<Rightarrow> int" where
  "slots_of t q = (case q of None \<Rightarrow> 0 | Some p \<Rightarrow> (case mports t p of None \<Rightarrow> 0 | Some x \<Rightarrow> vcpi_num_slots x))"

text \<open>The payloads that have slots have them one after the other, from slot \<open>c\<close> on.\<close>

fun contiguous :: "int \<Rightarrow> drm_dp_payload list \<Rightarrow> bool" where
  "contiguous c [] \<longleftrightarrow> True"
| "contiguous c (pl # pls) \<longleftrightarrow> (if payload_num_slots pl = 0 then contiguous c pls
     else start_slot pl = c \<and> contiguous (c + payload_num_slots pl) pls)"

definition table_ok :: "topology \<Rightarrow> bool" where
  "table_ok t \<longleftrightarrow> length (payloads t) = max_payloads t \<and>
     (\<forall>pl \<in> set (payloads t). payload_state pl = PAYLOAD_DELETE_LOCAL \<longrightarrow> payload_num_slots pl = 0)"

text \<open>A payload is as its proposal asks, at slot \<open>c\<close>.\<close>

definition updated :: "int \<Rightarrow> int \<Rightarrow> drm_dp_payload \<Rightarrow> bool" where
  "updated c req pl \<longleftrightarrow> payload_num_slots pl = req \<and> (req \<noteq> 0 \<longrightarrow> start_slot pl = c) \<and>
     (payload_state pl = PAYLOAD_DELETE_LOCAL \<longrightarrow> req = 0)"

lemma update_payload_correct:
  assumes ok: "proposals_ok True t" and r: "refs_ok t" and l: "live_topology fuel t" and tb: "table_ok t" and i: "i < max_payloads t"
    and n: "proposed_vcpis t ! i = None \<Longrightarrow> payload_num_slots (payloads t ! i) = 0"
  shows "\<exists>pl d'. update_payload dev fuel i c t d =
      Inr (c + slots_of t (proposed_vcpis t ! i), t\<lparr>payloads := (payloads t)[i := pl]\<rparr>, d') \<and>
    updated c (slots_of t (proposed_vcpis t ! i)) pl"
proof -
  let ?pl = "payloads t ! i"
  have len: "i < length (proposed_vcpis t)" "i < length (payloads t)"
    using proposals_okD(2) [OF ok] tb i by (simp_all add: table_ok_def)
  have st: "payload_state ?pl = PAYLOAD_DELETE_LOCAL \<Longrightarrow> payload_num_slots ?pl = 0" using tb len(2) by (simp add: table_ok_def)
  show ?thesis
  proof (cases "proposed_vcpis t ! i")
    case None
    then show ?thesis using n st len
      by (auto simp: update_payload_def aget_def aput_def slots_of_def updated_def intro!: exI [of _ "?pl\<lparr>start_slot := c\<rparr>"])
  next
    case (Some p)
    then obtain x where x: "mports t p = Some x"
      using proposals_okD(4) [OF ok, of p] vcpi_of_simps(3) [of t p] nth_mem [OF len(1)] by auto
    note dfs = update_payload_def aget_def aput_def slots_of_def updated_def get_mport_def
    consider "payload_num_slots ?pl = vcpi_num_slots x" | "payload_num_slots ?pl \<noteq> vcpi_num_slots x" "vcpi_num_slots x \<noteq> 0"
      | "payload_num_slots ?pl \<noteq> vcpi_num_slots x" "vcpi_num_slots x = 0" by blast
    then show ?thesis
    proof cases
      case 1
      then show ?thesis using Some x st len
        by (auto simp: dfs intro!: exI [of _ "?pl\<lparr>start_slot := c\<rparr>"])
    next
      case 2
      obtain s d' where s: "drm_dp_create_payload_step1 dev d (vcpi_id x)
          \<lparr>payload_state = PAYLOAD_NONE, start_slot = c, payload_num_slots = vcpi_num_slots x\<rparr> = (s, d')" by fastforce
      then have "s \<noteq> PAYLOAD_DELETE_LOCAL" by (auto simp: drm_dp_create_payload_step1_def split: prod.splits sum.splits)
      then show ?thesis using Some x 2 s len
        by (auto simp: dfs intro!: exI [of _ "?pl\<lparr>start_slot := c, payload_num_slots := vcpi_num_slots x, payload_state := s\<rparr>"])
    next
      case 3
      obtain q d' where "drm_dp_payload_send_msg dev fuel t d p (vcpi_id x) 0 = Inr (q, t, d')"
        using send_msg_total [OF r l, of p dev d "vcpi_id x" 0] x by blast
      then show ?thesis using Some x 3 len
        by (auto simp: dfs drm_dp_destroy_payload_step1_def Let_def
            intro!: exI [of _ "?pl\<lparr>payload_num_slots := 0, payload_state := PAYLOAD_DELETE_LOCAL, start_slot := 0\<rparr>"])
    qed
  qed
qed

fun laid_out :: "int \<Rightarrow> int list \<Rightarrow> drm_dp_payload list \<Rightarrow> bool" where
  "laid_out c [] pls \<longleftrightarrow> pls = []"
| "laid_out c (r # rs) [] \<longleftrightarrow> False"
| "laid_out c (r # rs) (pl # pls) \<longleftrightarrow> updated c r pl \<and> laid_out (c + r) rs pls"

lemma laid_out_contiguous:
  "laid_out c rs pls \<Longrightarrow> contiguous c pls \<and> map payload_num_slots pls = rs \<and>
     (\<forall>pl \<in> set pls. payload_state pl = PAYLOAD_DELETE_LOCAL \<longrightarrow> payload_num_slots pl = 0)"
  by (induction c rs pls rule: laid_out.induct) (auto simp: updated_def)

lemma irrelevant_payloads [simp]:
  "proposals_ok True (t\<lparr>payloads := ps\<rparr>) = proposals_ok True t" "refs_ok (t\<lparr>payloads := ps\<rparr>) = refs_ok t"
  "slots_of (t\<lparr>payloads := ps\<rparr>) = slots_of t"
  by (rule proposals_ok_cong; simp add: vcpi_of_def input_port_def fun_eq_iff)
    (simp_all add: refs_ok_def slots_of_def fun_eq_iff split: option.splits)

lemma live_tree_payloads [simp]: "live_tree n (t\<lparr>payloads := ps\<rparr>) b = live_tree n t b"
  by (induction n arbitrary: b) (simp_all split: option.splits cong: option.case_cong)

lemma live_topology_payloads [simp]: "live_topology n (t\<lparr>payloads := ps\<rparr>) = live_topology n t"
  by (simp add: live_topology_def split: option.splits)

lemma update_loop_correct:
  assumes "proposals_ok True t" and "refs_ok t" and "live_topology fuel t" and "table_ok t" and "i + n = max_payloads t"
    and "\<forall>k < max_payloads t. i \<le> k \<longrightarrow> proposed_vcpis t ! k = None \<longrightarrow> payload_num_slots (payloads t ! k) = 0"
  shows "\<exists>pls d'. update_loop dev fuel n i c t d = Inr (t\<lparr>payloads := take i (payloads t) @ pls\<rparr>, d') \<and>
    laid_out c (map (slots_of t) (drop i (proposed_vcpis t))) pls"
  using assms
proof (induction n arbitrary: i c t d)
  case 0
  then have "t\<lparr>payloads := take i (payloads t) @ []\<rparr> = t" by (cases t) (simp add: table_ok_def)
  then show ?case using 0 proposals_okD(2) [OF 0(1)] by (intro exI [of _ "[]"]) simp
next
  case (Suc n)
  let ?s = "slots_of t (proposed_vcpis t ! i)"
  have i: "i < max_payloads t" using Suc.prems(5) by simp
  obtain pl d1 where u: "update_payload dev fuel i c t d = Inr (c + ?s, t\<lparr>payloads := (payloads t)[i := pl]\<rparr>, d1)" "updated c ?s pl"
    using update_payload_correct [OF Suc.prems(1-4) i, of dev c d] Suc.prems(6) i by auto
  let ?t = "t\<lparr>payloads := (payloads t)[i := pl]\<rparr>"
  have len: "i < length (proposed_vcpis t)" "i < length (payloads t)"
    using proposals_okD(2) [OF Suc.prems(1)] Suc.prems(4) i by (simp_all add: table_ok_def)
  have tb: "table_ok ?t" using Suc.prems(4) u(2) set_update_subset_insert [of "payloads t" i pl]
    by (auto simp: table_ok_def updated_def)
  have "\<exists>pls d'. update_loop dev fuel n (Suc i) (c + ?s) ?t d1 = Inr (?t\<lparr>payloads := take (Suc i) (payloads ?t) @ pls\<rparr>, d') \<and>
    laid_out (c + ?s) (map (slots_of ?t) (drop (Suc i) (proposed_vcpis ?t))) pls"
  proof (rule Suc.IH [OF _ _ _ tb])
    show "\<forall>k < max_payloads ?t. Suc i \<le> k \<longrightarrow> proposed_vcpis ?t ! k = None \<longrightarrow> payload_num_slots (payloads ?t ! k) = 0"
      using Suc.prems(6) by simp
  qed (use Suc.prems(1-3,5) in simp_all)
  then obtain pls d' where p: "update_loop dev fuel n (Suc i) (c + ?s) ?t d1 = Inr (t\<lparr>payloads := take i (payloads t) @ pl # pls\<rparr>, d')"
    "laid_out (c + ?s) (map (slots_of t) (drop (Suc i) (proposed_vcpis t))) pls"
    using len(2) by (auto simp: take_Suc_conv_app_nth)
  then show ?case using u by (intro exI [of _ "pl # pls"]) (simp add: Cons_nth_drop_Suc [OF len(1), symmetric])
qed

section \<open>Removal of deleted payloads\<close>

text \<open>The arrays after the place \<open>i\<close> has been removed.\<close>

definition removed_at :: "nat \<Rightarrow> 'a \<Rightarrow> 'a list \<Rightarrow> 'a list" where
  "removed_at i z xs = take i xs @ drop (Suc i) xs @ [z]"

lemma shifted_last: "length xs = Suc j \<Longrightarrow> take j xs @ drop (Suc j) xs @ [last xs] = xs"
  by (cases xs rule: rev_cases) auto

lemma shifted_step:
  assumes "Suc j < length xs"
  shows "take (Suc j) (xs[j := xs ! Suc j]) @ drop (Suc (Suc j)) (xs[j := xs ! Suc j]) @ [last (xs[j := xs ! Suc j])] =
    take j xs @ drop (Suc j) xs @ [last xs]"
proof -
  have "last (xs[j := xs ! Suc j]) = last xs" using assms by (subst last_list_update) auto
  then show ?thesis using assms by (simp add: take_Suc_conv_app_nth Cons_nth_drop_Suc [of "Suc j" xs, symmetric])
qed

lemma shifted_removed:
  assumes "i < length xs"
  shows "(take i xs @ drop (Suc i) xs @ [last xs])[length xs - Suc 0 := z] = removed_at i z xs"
proof -
  have "\<not> length xs - Suc 0 < i" using assms by simp
  then show ?thesis using assms by (simp add: removed_at_def list_update_append)
qed

lemma shift_loop_correct:
  assumes "length (payloads t) = max_payloads t" and "length (proposed_vcpis t) = max_payloads t" and "max_payloads t < 64"
    and "\<forall>p. Some p \<in> set (proposed_vcpis t) \<longrightarrow> mports t p \<noteq> None" and "j + n + 1 = max_payloads t"
  shows "\<exists>pm. shift_loop n j t = Inr (t\<lparr>payloads := take j (payloads t) @ drop (Suc j) (payloads t) @ [last (payloads t)],
      proposed_vcpis := take j (proposed_vcpis t) @ drop (Suc j) (proposed_vcpis t) @ [last (proposed_vcpis t)], payload_mask := pm\<rparr>) \<and>
    bit pm 0 = bit (payload_mask t) 0"
  using assms
proof (induction n arbitrary: j t)
  case 0
  have "take j (payloads t) @ drop (Suc j) (payloads t) @ [last (payloads t)] = payloads t"
    "take j (proposed_vcpis t) @ drop (Suc j) (proposed_vcpis t) @ [last (proposed_vcpis t)] = proposed_vcpis t"
    by (rule shifted_last; use 0 in simp)+
  then show ?case by (intro exI [of _ "payload_mask t"]) simp
next
  case (Suc n)
  let ?P = "payloads t" and ?Q = "proposed_vcpis t"
  have j: "Suc j < length ?P" "Suc j < length ?Q" "Suc j < 64" using Suc.prems by auto
  define used where "used = (slots_of t (?Q ! Suc j) \<noteq> 0)"
  have "?Q ! Suc j = Some p \<Longrightarrow> mports t p \<noteq> None" for p using Suc.prems(4) nth_mem [OF j(2)] by auto
  then have us: "(case ?Q ! Suc j of None \<Rightarrow> Inr False | Some p \<Rightarrow> bnd (get_mport t p) (\<lambda>x. Inr (vcpi_num_slots x \<noteq> 0))) = Inr used"
    by (auto simp: used_def slots_of_def get_mport_def split: option.splits)
  define pm where "pm = (if used then Bit_Operations.set_bit (Suc j) (payload_mask t) else unset_bit (Suc j) (payload_mask t))"
  let ?t = "t\<lparr>payloads := ?P[j := ?P ! Suc j], proposed_vcpis := ?Q[j := ?Q ! Suc j], payload_mask := pm\<rparr>"
  have "shift_loop (Suc n) j t = shift_loop n (Suc j) ?t"
    using j us by (simp add: aget_def aput_def mask_set_def mask_clear_def pm_def)
  moreover have "\<forall>p. Some p \<in> set (proposed_vcpis ?t) \<longrightarrow> mports ?t p \<noteq> None"
    using Suc.prems(4) set_update_subset_insert [of ?Q j "?Q ! Suc j"] nth_mem [OF j(2)] by fastforce
  then have "\<exists>pm. shift_loop n (Suc j) ?t = Inr (?t\<lparr>
      payloads := take (Suc j) (payloads ?t) @ drop (Suc (Suc j)) (payloads ?t) @ [last (payloads ?t)],
      proposed_vcpis := take (Suc j) (proposed_vcpis ?t) @ drop (Suc (Suc j)) (proposed_vcpis ?t) @ [last (proposed_vcpis ?t)],
      payload_mask := pm\<rparr>) \<and> bit pm 0 = bit (payload_mask ?t) 0"
    by (intro Suc.IH) (use Suc.prems(1-3,5) in simp_all)
  then obtain pm' where "shift_loop n (Suc j) ?t = Inr (?t\<lparr>
      payloads := take (Suc j) (payloads ?t) @ drop (Suc (Suc j)) (payloads ?t) @ [last (payloads ?t)],
      proposed_vcpis := take (Suc j) (proposed_vcpis ?t) @ drop (Suc (Suc j)) (proposed_vcpis ?t) @ [last (proposed_vcpis ?t)],
      payload_mask := pm'\<rparr>)" "bit pm' 0 = bit pm 0"
    unfolding shifted_step [OF j(1)] by auto
  moreover have "bit pm 0 = bit (payload_mask t) 0" by (simp add: pm_def bit_set_bit_iff bit_unset_bit_iff)
  ultimately show ?case
    using shifted_step [OF j(1)] shifted_step [OF j(2)] by (intro exI [of _ pm']) (simp del: shift_loop.simps)
qed

lemma remove_payload_correct:
  assumes "proposals_ok True t" and "length (payloads t) = max_payloads t" and "i < max_payloads t"
  shows "\<exists>pm. remove_payload i t = Inr (t\<lparr>
      payloads := removed_at i \<lparr>payload_state = PAYLOAD_NONE, start_slot = 0, payload_num_slots = 0\<rparr> (payloads t),
      proposed_vcpis := removed_at i None (proposed_vcpis t), payload_mask := pm\<rparr>) \<and> bit pm 0"
proof -
  note k = proposals_okD [OF assms(1)]
  have "\<forall>p. Some p \<in> set (proposed_vcpis t) \<longrightarrow> mports t p \<noteq> None" using k(4) vcpi_of_simps(3) by blast
  then obtain pm where "shift_loop (max_payloads t - 1 - i) i t =
      Inr (t\<lparr>payloads := take i (payloads t) @ drop (Suc i) (payloads t) @ [last (payloads t)],
      proposed_vcpis := take i (proposed_vcpis t) @ drop (Suc i) (proposed_vcpis t) @ [last (proposed_vcpis t)], payload_mask := pm\<rparr>)"
    "bit pm 0 = bit (payload_mask t) 0"
    using shift_loop_correct [of t i "max_payloads t - 1 - i"] k(1,2) assms(2,3) by auto
  then show ?thesis
    using k assms(2,3) shifted_removed [of i "payloads t"] shifted_removed [of i "proposed_vcpis t"]
    by (auto simp: remove_payload_def aput_def mask_clear_def bit_unset_bit_iff)
qed

text \<open>Payloads without slots do not matter.\<close>

definition slot_counts :: "drm_dp_payload list \<Rightarrow> int list" where
  "slot_counts pls = filter (\<lambda>n. n \<noteq> 0) (map payload_num_slots pls)"

lemma contiguous_drop: "payload_num_slots z = 0 \<Longrightarrow> contiguous c (xs @ z # ys) = contiguous c (xs @ ys)"
  by (induction xs arbitrary: c) auto

lemma contiguous_removed_at:
  assumes "i < length pls" and "payload_num_slots (pls ! i) = 0" and "payload_num_slots z = 0"
  shows "contiguous c (removed_at i z pls) = contiguous c pls" and "slot_counts (removed_at i z pls) = slot_counts pls"
proof -
  have p: "pls = take i pls @ pls ! i # drop (Suc i) pls" using assms(1) by (rule id_take_nth_drop)
  have "contiguous c (removed_at i z pls) = contiguous c (take i pls @ drop (Suc i) pls)"
    using contiguous_drop [OF assms(3), of c "take i pls @ drop (Suc i) pls" "[]"] by (simp add: removed_at_def)
  also have "\<dots> = contiguous c (take i pls @ pls ! i # drop (Suc i) pls)" by (rule contiguous_drop [OF assms(2), symmetric])
  finally show "contiguous c (removed_at i z pls) = contiguous c pls" using p by simp
  show "slot_counts (removed_at i z pls) = slot_counts pls"
    using assms(2,3) by (subst (2) p) (simp add: slot_counts_def removed_at_def)
qed

lemma removed_at_props:
  assumes "i < length xs"
  shows "length (removed_at i z xs) = length xs" and "set (removed_at i z xs) \<subseteq> insert z (set xs)"
  using assms by (auto simp: removed_at_def dest: in_set_takeD in_set_dropD)

definition same_channels :: "topology \<Rightarrow> topology \<Rightarrow> bool" where
  "same_channels t t' \<longleftrightarrow> branches t' = branches t \<and> mports t' = mports t \<and> max_payloads t' = max_payloads t \<and> vcpi_mask t' = vcpi_mask t"

lemma proposals_ok_fewer:
  assumes "proposals_ok True t" and "same_channels t t'" and "length (proposed_vcpis t') = length (proposed_vcpis t)"
    and "\<And>p. Some p \<in> set (proposed_vcpis t') \<Longrightarrow> Some p \<in> set (proposed_vcpis t)" and "bit (payload_mask t') 0"
  shows "proposals_ok True t'"
proof -
  have "vcpi_of t' = vcpi_of t" "input_port t' = input_port t"
    using assms(2) by (simp_all add: same_channels_def vcpi_of_def input_port_def fun_eq_iff)
  then show ?thesis using assms by (simp add: proposals_ok_def same_channels_def)
qed

lemma remove_loop_correct:
  assumes "proposals_ok True t" and "table_ok t" and "i + n = max_payloads t"
  shows "\<exists>t'. remove_loop n i t = Inr t' \<and> same_channels t t' \<and> proposals_ok True t' \<and> table_ok t' \<and>
    slot_counts (payloads t') = slot_counts (payloads t) \<and> contiguous c (payloads t') = contiguous c (payloads t)"
  using assms
proof (induction n arbitrary: i t)
  case 0
  then show ?case by (simp add: same_channels_def)
next
  case (Suc n)
  have len: "length (payloads t) = max_payloads t" "i < max_payloads t" using Suc.prems(2,3) by (simp_all add: table_ok_def)
  have g: "aget (payloads t) i = Inr (payloads t ! i)" using len by (simp add: aget_def)
  show ?case
  proof (cases "payload_state (payloads t ! i) = PAYLOAD_DELETE_LOCAL")
    case False
    with Suc.IH [of t "Suc i"] Suc.prems g show ?thesis by simp
  next
    case True
    then have z: "payload_num_slots (payloads t ! i) = 0" using Suc.prems(2) len nth_mem [of i "payloads t"] by (auto simp: table_ok_def)
    let ?z = "\<lparr>payload_state = PAYLOAD_NONE, start_slot = 0, payload_num_slots = 0\<rparr>"
    obtain pm where r: "remove_payload i t = Inr (t\<lparr>payloads := removed_at i ?z (payloads t),
        proposed_vcpis := removed_at i None (proposed_vcpis t), payload_mask := pm\<rparr>)" "bit pm 0"
      using remove_payload_correct [OF Suc.prems(1) len] by blast
    let ?t = "t\<lparr>payloads := removed_at i ?z (payloads t), proposed_vcpis := removed_at i None (proposed_vcpis t), payload_mask := pm\<rparr>"
    have s: "same_channels t ?t" by (simp add: same_channels_def)
    have p: "proposals_ok True ?t"
      using removed_at_props [of i "proposed_vcpis t" None] len proposals_okD(2) [OF Suc.prems(1)] r(2)
      by (intro proposals_ok_fewer [OF Suc.prems(1) s]) auto
    have tb: "table_ok ?t"
      using Suc.prems(2) len removed_at_props [of i "payloads t" ?z] by (auto simp: table_ok_def)
    have c: "contiguous c (payloads ?t) = contiguous c (payloads t)" "slot_counts (payloads ?t) = slot_counts (payloads t)"
      using contiguous_removed_at(1) [of i "payloads t" ?z c] contiguous_removed_at(2) [of i "payloads t" ?z] len z by simp_all
    have "\<exists>t'. remove_loop n (Suc i) ?t = Inr t' \<and> same_channels ?t t' \<and> proposals_ok True t' \<and> table_ok t' \<and>
        slot_counts (payloads t') = slot_counts (payloads ?t) \<and> contiguous c (payloads t') = contiguous c (payloads ?t)"
      by (rule Suc.IH [OF p tb]) (use Suc.prems(3) in simp)
    then obtain t' where "remove_loop n (Suc i) ?t = Inr t'" "same_channels ?t t'" "proposals_ok True t'" "table_ok t'"
      "slot_counts (payloads t') = slot_counts (payloads t)" "contiguous c (payloads t') = contiguous c (payloads t)"
      unfolding c by blast
    then show ?thesis using g True r(1) by (auto simp: same_channels_def)
  qed
qed

lemma part1_correct:
  assumes ok: "proposals_ok True t" and r: "refs_ok t" and l: "live_topology fuel t" and tb: "table_ok t"
    and n: "\<forall>i < max_payloads t. proposed_vcpis t ! i = None \<longrightarrow> payload_num_slots (payloads t ! i) = 0"
  shows "\<exists>t' d'. drm_dp_update_payload_part1 dev fuel t d = Inr (t', d') \<and> contiguous 1 (payloads t') \<and>
    slot_counts (payloads t') = filter (\<lambda>n. n \<noteq> 0) (map (slots_of t) (proposed_vcpis t)) \<and>
    same_channels t t' \<and> proposals_ok True t' \<and> table_ok t'"
proof -
  have "\<exists>pls d'. update_loop dev fuel (max_payloads t) 0 1 t d = Inr (t\<lparr>payloads := take 0 (payloads t) @ pls\<rparr>, d') \<and>
      laid_out 1 (map (slots_of t) (drop 0 (proposed_vcpis t))) pls"
    by (rule update_loop_correct [OF ok r l tb]) (use n in simp_all)
  then obtain pls d' where u: "update_loop dev fuel (max_payloads t) 0 1 t d = Inr (t\<lparr>payloads := pls\<rparr>, d')"
      "laid_out 1 (map (slots_of t) (proposed_vcpis t)) pls" by auto
  note c = laid_out_contiguous [OF u(2)]
  then have len: "length pls = max_payloads t" using proposals_okD(2) [OF ok] by (metis length_map)
  let ?t = "t\<lparr>payloads := pls\<rparr>"
  have tb': "table_ok ?t" using c len by (simp add: table_ok_def)
  obtain t' where "remove_loop (max_payloads t) 0 ?t = Inr t'" "same_channels ?t t'" "proposals_ok True t'" "table_ok t'"
      "slot_counts (payloads t') = slot_counts pls" "contiguous 1 (payloads t') = contiguous 1 pls"
    using remove_loop_correct [of ?t 0 "max_payloads t" 1] ok tb' by auto
  then show ?thesis using u(1) c by (auto simp: drm_dp_update_payload_part1_def slot_counts_def same_channels_def)
qed

end
