(* ===== verification/Dp_Mst_Payload_System.thy ===== *)
theory Dp_Mst_Payload_System
  imports Dp_Mst_Payload_Props
begin

text \<open>
  The channels as a state machine: the operations that drivers apply, the ports that come and go, and the invariant that the
  ids of the channels are distinct and that the proposals refer to ports that are there.
\<close>

unbundle bit_operations_syntax

section \<open>Assignment of ids\<close>

lemma find_first_zero_bit_correct:
  assumes "n \<le> 64"
  shows "\<exists>k. find_first_zero_bit m n = Inr k \<and> k \<le> n \<and> (k < n \<longrightarrow> \<not> bit m k)"
  using assms by (auto simp: find_first_zero_bit_def find_Some_iff find_None_iff split: option.splits)

lemma assign_correct:
  assumes ok: "proposals_ok True t" and p: "mports t p = Some x" "\<not> input x"
  shows "\<exists>ret t'. drm_dp_mst_assign_payload_id t p = Inr (ret, t') \<and> (case ret of Inl _ \<Rightarrow> t' = t
    | Inr _ \<Rightarrow> proposals_ok True t' \<and> branches t' = branches t \<and> payloads t' = payloads t \<and> max_payloads t' = max_payloads t \<and>
        (\<exists>v. mports t' = (mports t)(p \<mapsto> x\<lparr>vcpi_id := v\<rparr>)))"
proof -
  note k = proposals_okD [OF ok]
  obtain r where r: "find_first_zero_bit (payload_mask t) (max_payloads t + 1) = Inr r" "r \<le> max_payloads t \<longrightarrow> \<not> bit (payload_mask t) r"
    using find_first_zero_bit_correct [of "max_payloads t + 1" "payload_mask t"] k(1) by auto
  obtain v where v: "find_first_zero_bit (vcpi_mask t) (max_payloads t + 1) = Inr v" "v \<le> max_payloads t \<longrightarrow> \<not> bit (vcpi_mask t) v"
    using find_first_zero_bit_correct [of "max_payloads t + 1" "vcpi_mask t"] k(1) by auto
  show ?thesis
  proof (cases "r \<le> max_payloads t \<and> v \<le> max_payloads t")
    case False
    then show ?thesis using r v by (auto simp: drm_dp_mst_assign_payload_id_def)
  next
    case True
    then have "0 < r" using r(2) k(8) by (cases r) auto
    then have r0: "0 < r" "r - 1 < length (proposed_vcpis t)" using k(2) True by auto
    let ?x = "x\<lparr>vcpi_id := int v + 1\<rparr>"
    let ?t = "t\<lparr>payload_mask := Bit_Operations.set_bit r (payload_mask t), vcpi_mask := Bit_Operations.set_bit v (vcpi_mask t),
      mports := (mports t)(p \<mapsto> ?x), proposed_vcpis := (proposed_vcpis t)[r - 1 := Some p]\<rparr>"
    have a: "drm_dp_mst_assign_payload_id t p = Inr (Inr r, ?t)"
      using r v True r0 k(1) p(1) by (simp add: drm_dp_mst_assign_payload_id_def mask_set_def get_mport_def put_mport_def aput_def Let_def)
    have vc: "vcpi_of ?t q = (if q = p then int v + 1 else vcpi_of t q)" "input_port ?t q = input_port t q" for q
      using p by (simp_all add: vcpi_of_def input_port_def)
    have fresh: "vcpi_of t q \<noteq> int v + 1" for q
    proof
      assume "vcpi_of t q = int v + 1"
      then show False using k(6) [of q] v(2) True by simp
    qed
    have "proposals_ok True ?t" unfolding proposals_ok_def vc
    proof (intro conjI allI impI)
      show "max_payloads ?t < 64" "length (proposed_vcpis ?t) = max_payloads ?t" using k(1,2) by simp_all
      fix q q'
      show "(if q = p then int v + 1 else vcpi_of t q) \<le> int (max_payloads ?t) + 1" using k(3) [of q] True by simp
      show "bit (payload_mask ?t) 0" using k(8) by (simp add: bit_set_bit_iff)
      show "bit (vcpi_mask ?t) (nat ((if q = p then int v + 1 else vcpi_of t q) - 1))"
        if "0 < (if q = p then int v + 1 else vcpi_of t q)"
        using k(1) k(6) [of q] that True by (auto simp: bit_set_bit_iff)
      show "q = q'" if "0 < (if q = p then int v + 1 else vcpi_of t q)"
          "(if q = p then int v + 1 else vcpi_of t q) = (if q' = p then int v + 1 else vcpi_of t q')"
        using that k(7) [of q q'] fresh [of q] fresh [of q'] by (auto split: if_splits)
      assume "Some q \<in> set (proposed_vcpis ?t)"
      then have "q = p \<or> Some q \<in> set (proposed_vcpis t)" using set_update_subset_insert [of "proposed_vcpis t" "r - 1" "Some p"] by auto
      then show "0 < (if q = p then int v + 1 else vcpi_of t q)" "\<not> input_port t q"
        using k(4,5) [of q] p by (auto simp: input_port_def)
    qed
    then show ?thesis using a by auto
  qed
qed

section \<open>The invariant\<close>

text \<open>The number of a port tells whether it is an input: \<open>f\<close>.\<close>

definition inputs_ok :: "(u8 \<Rightarrow> bool) \<Rightarrow> topology \<Rightarrow> bool" where
  "inputs_ok f t \<longleftrightarrow> (\<forall>p x. mports t p = Some x \<longrightarrow> input x = f (port_num x))"

definition mst_inv :: "(u8 \<Rightarrow> bool) \<Rightarrow> topology \<Rightarrow> bool" where
  "mst_inv f t \<longleftrightarrow> proposals_ok True t \<and> refs_ok t \<and> table_ok t \<and> inputs_ok f t"

lemma mst_inv_port:
  assumes "mst_inv f t" and "mports t p = Some x" and "vcpi_id x' = vcpi_id x" and "input x' = input x" and "port_num x' = port_num x"
    and "1 \<le> port_kref x'"
  shows "mst_inv f (put_mport t p x')"
proof -
  have "proposals_ok True (put_mport t p x')" using assms(1-4) by (intro proposals_ok_port [of True t p x]) (simp_all add: mst_inv_def)
  then show ?thesis using assms by (auto simp: mst_inv_def refs_ok_def table_ok_def inputs_ok_def put_mport_def)
qed

lemma mst_inv_changed:
  assumes "mst_inv f t" and "proposals_ok True t'" and "branches t' = branches t" and "payloads t' = payloads t"
    and "max_payloads t' = max_payloads t" and "mports t' = (mports t)(p \<mapsto> y)" and "1 \<le> port_kref y"
    and "input y = f (port_num y)"
  shows "mst_inv f t'"
  using assms by (auto simp: mst_inv_def refs_ok_def table_ok_def inputs_ok_def)

text \<open>A reference that is taken, and one that is dropped while there is another.\<close>

lemma port_ref_added_eq: "mports t p = Some x \<Longrightarrow> port_ref_added t p = put_mport t p (x\<lparr>port_kref := port_kref x + 1\<rparr>)"
  by (simp add: port_ref_added_def put_mport_def)

lemma put_port_not_last:
  assumes "mst_inv f t" and "mports t p = Some x" and "2 \<le> port_kref x"
  shows "drm_dp_put_port fuel t p = Inr (put_mport t p (x\<lparr>port_kref := port_kref x - 1\<rparr>)) \<and>
    mst_inv f (put_mport t p (x\<lparr>port_kref := port_kref x - 1\<rparr>))"
  using mst_inv_port [OF assms(1,2), of "x\<lparr>port_kref := port_kref x - 1\<rparr>"] assms(2,3)
  by (simp add: drm_dp_put_port_def put_port_with_def get_mport_def Let_def)

lemma put_mport_put_mport [simp]: "put_mport (put_mport t p x) p y = put_mport t p y" "mports (put_mport t p x) p = Some x"
  by (simp_all add: put_mport_def)

lemma put_mport_simps [simp]: "branches (put_mport t p x) = branches t" "payloads (put_mport t p x) = payloads t"
  "max_payloads (put_mport t p x) = max_payloads t"
  by (simp_all add: put_mport_def)

text \<open>An operation on a port that has been validated.\<close>

lemma validated_inv:
  assumes inv: "mst_inv f t" and none: "P (Inr (None, t))"
    and some: "\<And>x. mports t p = Some x \<Longrightarrow> mst_inv f (put_mport t p (x\<lparr>port_kref := port_kref x + 1\<rparr>)) \<Longrightarrow>
      P (Inr (Some p, put_mport t p (x\<lparr>port_kref := port_kref x + 1\<rparr>)))"
    and trap: "\<And>e. P (Inl e)"
  shows "P (drm_dp_get_validated_port_ref fuel t p)"
proof (cases "drm_dp_get_validated_port_ref fuel t p")
  case (Inl e)
  then show ?thesis using trap by simp
next
  case (Inr r)
  then have f: "found_port t p r" using get_validated_port_found by (metis sat_def)
  show ?thesis
  proof (cases "r = (None, t)")
    case True
    then show ?thesis using Inr none by simp
  next
    case False
    then obtain x where x: "mports t p = Some x" "r = (Some p, port_ref_added t p)" using f by (auto simp: found_port_def)
    have "mst_inv f (put_mport t p (x\<lparr>port_kref := port_kref x + 1\<rparr>))" by (rule mst_inv_port [OF inv x(1)]) simp_all
    then show ?thesis using Inr x some by (simp add: port_ref_added_eq)
  qed
qed

lemma reset_inv:
  assumes "mst_inv f t"
  shows "sat (mst_inv f) (drm_dp_mst_reset_vcpi_slots fuel t p)"
  unfolding drm_dp_mst_reset_vcpi_slots_def
proof (rule validated_inv [OF assms])
  fix x
  assume x: "mports t p = Some x" and i: "mst_inv f (put_mport t p (x\<lparr>port_kref := port_kref x + 1\<rparr>))"
  let ?x = "x\<lparr>port_kref := port_kref x + 1, vcpi_num_slots := 0\<rparr>"
  have k: "1 \<le> port_kref x" using assms x by (auto simp: mst_inv_def refs_ok_def)
  have "mst_inv f (put_mport t p ?x)" using mst_inv_port [OF assms x, of ?x] by simp
  from put_port_not_last [OF this, of p ?x fuel] k
  show "sat (mst_inv f) (bnd (Inr (Some p, put_mport t p (x\<lparr>port_kref := port_kref x + 1\<rparr>))) (\<lambda>(r, t).
      case r of None \<Rightarrow> Inr t | Some p \<Rightarrow>
      bnd (get_mport t p) (\<lambda>x. drm_dp_put_port fuel (put_mport t p (x\<lparr>vcpi_num_slots := 0\<rparr>)) p)))"
    by (simp add: get_mport_def)
qed (use assms in simp_all)

lemma dealloc_inv:
  assumes "mst_inv f t"
  shows "sat (mst_inv f) (drm_dp_mst_deallocate_vcpi fuel t p)"
  unfolding drm_dp_mst_deallocate_vcpi_def
proof (rule validated_inv [OF assms])
  fix x
  assume x: "mports t p = Some x" and i: "mst_inv f (put_mport t p (x\<lparr>port_kref := port_kref x + 1\<rparr>))"
  let ?x = "x\<lparr>port_kref := port_kref x + 1\<rparr>" and ?t = "put_mport t p (x\<lparr>port_kref := port_kref x + 1\<rparr>)"
  let ?y = "?x\<lparr>vcpi_num_slots := 0, vcpi_pbn := 0, vcpi_aligned_pbn := 0, vcpi_id := 0\<rparr>"
  have k: "1 \<le> port_kref x" using assms x by (auto simp: mst_inv_def refs_ok_def)
  have *: "\<exists>t2. drm_dp_mst_put_payload_id ?t (vcpi_id x) = Inr t2 \<and> mports t2 p = Some ?x \<and> mst_inv f (put_mport t2 p ?y)"
    if n: "\<not> vcpi_id x < 0"
  proof (cases "vcpi_id x = 0")
    case True
    then have "mst_inv f (put_mport ?t p ?y)" using mst_inv_port [OF i, of p ?x ?y] by simp
    then show ?thesis using True by (simp add: drm_dp_mst_put_payload_id_def)
  next
    case False
    then obtain t2 where t2: "drm_dp_mst_put_payload_id ?t (vcpi_id x) = Inr t2" "branches t2 = branches ?t" "mports t2 = mports ?t"
        "max_payloads t2 = max_payloads ?t" "payloads t2 = payloads ?t" "proposals_ok True (t2\<lparr>mports := (mports t2)(p \<mapsto> ?y)\<rparr>)"
      using put_payload_id_correct [of True ?t p ?x "Some ?y"] i n by (auto simp: mst_inv_def)
    have "mst_inv f (put_mport t2 p ?y)" by (rule mst_inv_changed [OF i, where p = p and y = ?y]) (use t2 x assms in \<open>simp_all add: put_mport_def mst_inv_def inputs_ok_def\<close>)
    then show ?thesis using t2(1,3) by simp
  qed
  have "sat (mst_inv f) (drm_dp_put_port fuel (put_mport t2 p ?y) p)" if "mst_inv f (put_mport t2 p ?y)" for t2
    using put_port_not_last [OF that, of p ?y fuel] k by simp
  moreover have "drm_dp_mst_put_payload_id ?t (vcpi_id x) = Inl Oob" if "vcpi_id x < 0"
    using that by (simp add: drm_dp_mst_put_payload_id_def)
  ultimately show "sat (mst_inv f) (bnd (Inr (Some p, ?t)) (\<lambda>(r, t). case r of None \<Rightarrow> Inr t | Some p \<Rightarrow>
     bnd (get_mport t p) (\<lambda>x. bnd (drm_dp_mst_put_payload_id t (vcpi_id x)) (\<lambda>t. bnd (get_mport t p) (\<lambda>x.
     drm_dp_put_port fuel (put_mport t p (x\<lparr>vcpi_num_slots := 0, vcpi_pbn := 0, vcpi_aligned_pbn := 0, vcpi_id := 0\<rparr>)) p)))))"
    using * by (cases "vcpi_id x < 0") (auto simp: get_mport_def)
qed (use assms in simp_all)

lemma init_vcpi_inv:
  assumes inv: "mst_inv f t" and x: "mports t p = Some x" "\<not> input x"
  shows "sat (\<lambda>(_, t'). mst_inv f t' \<and> (\<exists>x'. mports t' p = Some x' \<and> port_kref x' = port_kref x)) (drm_dp_init_vcpi t p pbn)"
  unfolding drm_dp_init_vcpi_def
proof (intro sat_bnd sat_if)
  fix n
  let ?x = "x\<lparr>vcpi_pbn := pbn, vcpi_aligned_pbn := n * pbn_div t, vcpi_num_slots := n\<rparr>"
  have k: "1 \<le> port_kref x" using inv x by (auto simp: mst_inv_def refs_ok_def)
  have i: "mst_inv f (put_mport t p ?x)" by (rule mst_inv_port [OF inv x(1)]) (use k in simp_all)
  then obtain ret t' where a: "drm_dp_mst_assign_payload_id (put_mport t p ?x) p = Inr (ret, t')"
      "case ret of Inl _ \<Rightarrow> t' = put_mport t p ?x
       | Inr _ \<Rightarrow> proposals_ok True t' \<and> branches t' = branches t \<and> payloads t' = payloads t \<and> max_payloads t' = max_payloads t \<and>
        (\<exists>v. mports t' = (mports (put_mport t p ?x))(p \<mapsto> ?x\<lparr>vcpi_id := v\<rparr>))"
    using assign_correct [OF _ put_mport_put_mport(2), of t p ?x] x(2) unfolding mst_inv_def put_mport_simps by auto
  have "mst_inv f t' \<and> (\<exists>x'. mports t' p = Some x' \<and> port_kref x' = port_kref x)"
  proof (cases ret)
    case (Inl e)
    then show ?thesis using a(2) i by simp
  next
    case (Inr n)
    then obtain v where v: "proposals_ok True t'" "branches t' = branches t" "payloads t' = payloads t" "max_payloads t' = max_payloads t"
      "mports t' = (mports (put_mport t p ?x))(p \<mapsto> ?x\<lparr>vcpi_id := v\<rparr>)" using a(2) by auto
    have "mst_inv f t'" by (rule mst_inv_changed [OF i, where p = p and y = "?x\<lparr>vcpi_id := v\<rparr>"]) (use v k x inv in \<open>simp_all add: put_mport_def mst_inv_def inputs_ok_def\<close>)
    then show ?thesis using v(5) by simp
  qed
  then show "sat (\<lambda>(_, t'). mst_inv f t' \<and> (\<exists>x'. mports t' p = Some x' \<and> port_kref x' = port_kref x))
      (let t = put_mport t p (xa\<lparr>vcpi_pbn := pbn, vcpi_aligned_pbn := n * pbn_div t, vcpi_num_slots := n\<rparr>)
       in bnd (drm_dp_mst_assign_payload_id t p) (\<lambda>(ret, t). Inr (case ret of Inl e \<Rightarrow> Some e | Inr _ \<Rightarrow> None, t)))"
    if "get_mport t p = Inr xa" for xa
    using a(1) x(1) that by (simp add: Let_def get_mport_def)
qed (use inv x in auto)

lemma alloc_inv:
  assumes "mst_inv f t" and "\<not> input_port t p"
  shows "sat (\<lambda>(_, t'). mst_inv f t') (drm_dp_mst_allocate_vcpi fuel t p pbn)"
  unfolding drm_dp_mst_allocate_vcpi_def
proof (rule validated_inv [OF assms(1)])
  fix x
  assume x: "mports t p = Some x" and i: "mst_inv f (put_mport t p (x\<lparr>port_kref := port_kref x + 1\<rparr>))"
  let ?t = "put_mport t p (x\<lparr>port_kref := port_kref x + 1\<rparr>)"
  have k: "1 \<le> port_kref x" using assms x by (auto simp: mst_inv_def refs_ok_def)
  have "sat (\<lambda>(_, t'). mst_inv f t' \<and> (\<exists>x'. mports t' p = Some x' \<and> port_kref x' = port_kref x + 1)) (drm_dp_init_vcpi ?t p pbn)"
    using init_vcpi_inv [OF i put_mport_put_mport(2), of pbn] assms(2) x by (simp add: input_port_def)
  moreover have "sat (\<lambda>(_, t'). mst_inv f t') (bnd (drm_dp_put_port fuel t' p) (\<lambda>t. Inr (Some (vcpi_num_slots x'), t)))"
    if "mst_inv f t'" "mports t' p = Some x'" "port_kref x' = port_kref x + 1" for t' x'
    using put_port_not_last [OF that(1,2), of fuel] that(3) k by simp
  ultimately show "sat (\<lambda>(_, t'). mst_inv f t') (bnd (Inr (Some p, ?t)) (\<lambda>(r, t).
     case r of None \<Rightarrow> Inr (None, t) | Some p \<Rightarrow>
     bnd (get_mport t p) (\<lambda>x.
     if vcpi_id x > 0 \<and> pbn = vcpi_pbn x then Inr (Some (vcpi_num_slots x), t) else
     bnd (drm_dp_init_vcpi t p pbn) (\<lambda>(ret, t).
     if ret \<noteq> None then Inr (None, t) else
     bnd (get_mport t p) (\<lambda>x.
     bnd (drm_dp_put_port fuel t p) (\<lambda>t. Inr (Some (vcpi_num_slots x), t)))))))"
    using i by (cases "drm_dp_init_vcpi ?t p pbn") (auto simp: get_mport_def)
qed (use assms in simp_all)

section \<open>Updates of the table\<close>

text \<open>An update changes one entry of the table, or the whole table.\<close>

definition entry_ok :: "drm_dp_payload \<Rightarrow> bool" where
  "entry_ok pl \<longleftrightarrow> (payload_state pl = PAYLOAD_DELETE_LOCAL \<longrightarrow> payload_num_slots pl = 0)"

lemma table_okD: "table_ok t \<Longrightarrow> aget (payloads t) i = Inr pl \<Longrightarrow> entry_ok pl"
  by (auto simp: table_ok_def entry_ok_def aget_def split: if_splits)

lemma mst_inv_entry:
  assumes "mst_inv f t" and "entry_ok pl" and "aput (payloads t) i pl = Inr pls"
  shows "mst_inv f (t\<lparr>payloads := pls\<rparr>)"
  using assms set_update_subset_insert [of "payloads t" i pl]
  by (auto simp: mst_inv_def table_ok_def entry_ok_def inputs_ok_def aput_def split: if_splits)

lemma destroy_step1_keeps:
  assumes "refs_ok t"
  shows "sat (\<lambda>(pl', t', _). t' = t \<and> pl' = pl\<lparr>payload_state := PAYLOAD_DELETE_LOCAL\<rparr>) (drm_dp_destroy_payload_step1 dev fuel t d (Some p) i pl)"
  unfolding drm_dp_destroy_payload_step1_def
proof (rule sat_bnd)
  fix r
  assume "(case Some p of None \<Rightarrow> Inr (None, t, d) | Some p \<Rightarrow> drm_dp_payload_send_msg dev fuel t d p i 0) = Inr r"
  then have "fst (snd r) = t" using send_msg_keeps [OF assms, of dev fuel d p i 0] by auto
  then show "sat (\<lambda>(pl', t', _). t' = t \<and> pl' = pl\<lparr>payload_state := PAYLOAD_DELETE_LOCAL\<rparr>) (case r of (_, t, d) \<Rightarrow>
      let d = snd (drm_dp_dpcd_write_payload dev d i pl) in Inr (pl\<lparr>payload_state := PAYLOAD_DELETE_LOCAL\<rparr>, t, d))"
    by (auto simp: Let_def split: prod.splits)
qed

lemma create_step1_state: "fst (drm_dp_create_payload_step1 dev d i pl) \<noteq> PAYLOAD_DELETE_LOCAL"
  by (auto simp: drm_dp_create_payload_step1_def split: prod.splits sum.splits)

text \<open>The update of one payload, without its place in the table.\<close>

lemma updated_entry:
  assumes inv: "mst_inv f t" and e: "entry_ok pl"
  shows "sat (\<lambda>(pl', t', _). t' = t \<and> entry_ok pl') (if payload_num_slots (pl\<lparr>start_slot := c\<rparr>) \<noteq> req then
     if req \<noteq> 0 then
       case q of None \<Rightarrow> Inl Null_deref | Some p \<Rightarrow>
       bnd (get_mport t p) (\<lambda>x.
       case drm_dp_create_payload_step1 dev d (vcpi_id x) \<lparr>payload_state = PAYLOAD_NONE, start_slot = c, payload_num_slots = req\<rparr>
       of (st, d) \<Rightarrow> Inr (pl\<lparr>start_slot := c, payload_num_slots := req, payload_state := st\<rparr>, t, d))
     else
       case q of None \<Rightarrow> Inl Null_deref | Some p \<Rightarrow>
       bnd (get_mport t p) (\<lambda>x.
       bnd (drm_dp_destroy_payload_step1 dev fuel t d q (vcpi_id x) (pl\<lparr>start_slot := c, payload_num_slots := 0\<rparr>)) (\<lambda>(pl, t, d).
       Inr (pl\<lparr>start_slot := 0\<rparr>, t, d)))
     else Inr (pl\<lparr>start_slot := c\<rparr>, t, d))"
proof (intro sat_if)
  show "sat (\<lambda>(pl', t', _). t' = t \<and> entry_ok pl') (Inr (pl\<lparr>start_slot := c\<rparr>, t, d))" using e by (simp add: entry_ok_def)
next
  show "sat (\<lambda>(pl', t', _). t' = t \<and> entry_ok pl') (case q of None \<Rightarrow> Inl Null_deref | Some p \<Rightarrow>
       bnd (get_mport t p) (\<lambda>x.
       case drm_dp_create_payload_step1 dev d (vcpi_id x) \<lparr>payload_state = PAYLOAD_NONE, start_slot = c, payload_num_slots = req\<rparr>
       of (st, d) \<Rightarrow> Inr (pl\<lparr>start_slot := c, payload_num_slots := req, payload_state := st\<rparr>, t, d)))"
    using create_step1_state [of dev d _ "\<lparr>payload_state = PAYLOAD_NONE, start_slot = c, payload_num_slots = req\<rparr>"]
    by (auto simp: entry_ok_def intro!: sat_bnd split: option.splits prod.splits) (metis fst_conv)
next
  have r: "refs_ok t" using inv by (simp add: mst_inv_def)
  have "sat (\<lambda>(pl', t', _). t' = t \<and> entry_ok pl')
      (bnd (drm_dp_destroy_payload_step1 dev fuel t d (Some p) v (pl\<lparr>start_slot := c, payload_num_slots := 0\<rparr>)) (\<lambda>(pl, t, d).
       Inr (pl\<lparr>start_slot := 0\<rparr>, t, d)))" for p v
    using destroy_step1_keeps [OF r, of "pl\<lparr>start_slot := c, payload_num_slots := 0\<rparr>" dev fuel d p v]
    by (cases "drm_dp_destroy_payload_step1 dev fuel t d (Some p) v (pl\<lparr>start_slot := c, payload_num_slots := 0\<rparr>)")
      (auto simp: entry_ok_def)
  then show "sat (\<lambda>(pl', t', _). t' = t \<and> entry_ok pl') (case q of None \<Rightarrow> Inl Null_deref | Some p \<Rightarrow>
       bnd (get_mport t p) (\<lambda>x.
       bnd (drm_dp_destroy_payload_step1 dev fuel t d q (vcpi_id x) (pl\<lparr>start_slot := c, payload_num_slots := 0\<rparr>)) (\<lambda>(pl, t, d).
       Inr (pl\<lparr>start_slot := 0\<rparr>, t, d))))"
    by (cases q) (simp, simp only: option.case, rule sat_bnd)
qed

lemma update_payload_inv:
  assumes "mst_inv f t"
  shows "sat (\<lambda>(_, t', _). mst_inv f t' \<and> max_payloads t' = max_payloads t) (update_payload dev fuel i c t d)"
  unfolding update_payload_def Let_def
proof (intro sat_bnd, goal_cases)
  case (1 q req pl r)
  have e: "entry_ok pl" using table_okD [OF _ 1(3)] assms by (simp add: mst_inv_def)
  have "fst (snd r) = t \<and> entry_ok (fst r)"
    using updated_entry [OF assms e, where c = c and req = req and q = q and dev = dev and d = d and fuel = fuel] unfolding 1(4) by auto
  then show ?case
    using mst_inv_entry [OF assms, of "fst r" i] by (cases r) (auto intro!: sat_bnd)
qed

lemma update_loop_inv:
  "mst_inv f t \<Longrightarrow> sat (\<lambda>(t', _). mst_inv f t' \<and> max_payloads t' = max_payloads t) (update_loop dev fuel n i c t d)"
proof (induction n arbitrary: i c t d)
  case (Suc n)
  have "mst_inv f (fst (snd r)) \<and> max_payloads (fst (snd r)) = max_payloads t" if "update_payload dev fuel i c t d = Inr r" for r
    using update_payload_inv [OF Suc.prems, of dev fuel i c d] that by auto
  then have "sat (\<lambda>(t', _). mst_inv f t' \<and> max_payloads t' = max_payloads t)
      (case r of (c, t, d) \<Rightarrow> update_loop dev fuel n (Suc i) c t d)" if "update_payload dev fuel i c t d = Inr r" for r
    using Suc.IH [of "fst (snd r)" "Suc i" "fst r" "snd (snd r)"] that by (cases r) simp
  then show ?case unfolding update_loop.simps by (rule sat_bnd)
qed simp

lemma part1_inv:
  assumes "mst_inv f t"
  shows "sat (\<lambda>(t', _). mst_inv f t') (drm_dp_update_payload_part1 dev fuel t d)"
  unfolding drm_dp_update_payload_part1_def
proof (rule sat_bnd)
  fix r
  assume "update_loop dev fuel (max_payloads t) 0 1 t d = Inr r"
  then obtain t1 d1 where r: "r = (t1, d1)" "mst_inv f t1" "max_payloads t1 = max_payloads t"
    using update_loop_inv [OF assms, of dev fuel "max_payloads t" 0 1 d] by (cases r) auto
  obtain t2 where "remove_loop (max_payloads t1) 0 t1 = Inr t2" "same_channels t1 t2" "proposals_ok True t2" "table_ok t2"
    using remove_loop_correct [of t1 0 "max_payloads t1"] r(2) by (auto simp: mst_inv_def)
  then show "sat (\<lambda>(t', _). mst_inv f t') (case r of (t, d) \<Rightarrow> bnd (remove_loop (max_payloads t) 0 t) (\<lambda>t. Inr (t, d)))"
    using r(1,2) by (auto simp: mst_inv_def same_channels_def refs_ok_def inputs_ok_def)
qed

lemma create_step2_inv:
  assumes "mst_inv f t" and "entry_ok pl"
  shows "sat (\<lambda>(_, pl', t', _). t' = t \<and> entry_ok pl') (drm_dp_create_payload_step2 dev fuel t d p i pl)"
  unfolding drm_dp_create_payload_step2_def
proof (intro sat_bnd)
  fix x r
  assume "drm_dp_payload_send_msg dev fuel t d p i (vcpi_pbn x) = Inr r"
  then have "fst (snd r) = t" using send_msg_keeps [of t dev fuel d p i "vcpi_pbn x"] assms(1) by (auto simp: mst_inv_def)
  then show "sat (\<lambda>(_, pl', t', _). t' = t \<and> entry_ok pl')
      (case r of (ret, t, d) \<Rightarrow> Inr (ret, if ret \<noteq> None then pl else pl\<lparr>payload_state := PAYLOAD_REMOTE\<rparr>, t, d))"
    using assms(2) by (cases r) (simp add: entry_ok_def)
qed

lemma part2_loop_inv: "mst_inv f t \<Longrightarrow> sat (\<lambda>(_, t', _). mst_inv f t') (part2_loop dev fuel n i t d)"
proof (induction n arbitrary: i t d)
  case (Suc n)
  note inv = Suc.prems
  have rest: "sat (\<lambda>(_, t', _). mst_inv f t') (case r of (ret, pl, t, d) \<Rightarrow> bnd (aput (payloads t) i pl) (\<lambda>pls.
      if ret \<noteq> None then Inr (ret, t\<lparr>payloads := pls\<rparr>, d) else part2_loop dev fuel n (Suc i) (t\<lparr>payloads := pls\<rparr>) d))"
    if "fst (snd (snd r)) = t" "entry_ok (fst (snd r))" for r
    using that mst_inv_entry [OF inv, of "fst (snd r)" i] Suc.IH by (cases r) (auto intro!: sat_bnd)
  show ?case unfolding part2_loop.simps
  proof (rule sat_bnd, split option.split, intro conjI allI impI sat_bnd)
    fix q
    show "sat (\<lambda>(_, t', _). mst_inv f t') (part2_loop dev fuel n (Suc i) t d)" using inv by (rule Suc.IH)
  next
    fix q p pl x r
    assume pl: "aget (payloads t) i = Inr pl"
      and r: "(if payload_state pl = PAYLOAD_LOCAL then drm_dp_create_payload_step2 dev fuel t d p (vcpi_id x) pl
          else if payload_state pl = PAYLOAD_DELETE_LOCAL then Inr (None, drm_dp_destroy_payload_step2 pl, t, d)
          else Inr (None, pl, t, d)) = Inr r"
    have e: "entry_ok pl" using table_okD [OF _ pl] inv by (simp add: mst_inv_def)
    have "fst (snd (snd r)) = t \<and> entry_ok (fst (snd r))"
    proof (cases "payload_state pl = PAYLOAD_LOCAL")
      case True
      then show ?thesis using r create_step2_inv [OF inv e, of dev fuel d p "vcpi_id x"] by auto
    next
      case False
      then show ?thesis using r e by (auto simp: entry_ok_def drm_dp_destroy_payload_step2_def split: if_splits)
    qed
    then show "sat (\<lambda>(_, t', _). mst_inv f t') (case r of (ret, pl, t, d) \<Rightarrow> bnd (aput (payloads t) i pl) (\<lambda>pls.
      if ret \<noteq> None then Inr (ret, t\<lparr>payloads := pls\<rparr>, d) else part2_loop dev fuel n (Suc i) (t\<lparr>payloads := pls\<rparr>) d))"
      by (intro rest) simp_all
  qed
qed simp

section \<open>Release of objects\<close>

text \<open>
  While objects are being destroyed, the branch devices \<open>B\<close> and the ports \<open>P\<close> have no reference.
\<close>

definition inv_but :: "(u8 \<Rightarrow> bool) \<Rightarrow> ptr set \<Rightarrow> ptr set \<Rightarrow> topology \<Rightarrow> bool" where
  "inv_but f B P t \<longleftrightarrow> proposals_ok True t \<and> table_ok t \<and> inputs_ok f t \<and>
     (\<forall>b y. b \<notin> B \<longrightarrow> branches t b = Some y \<longrightarrow> 1 \<le> mstb_kref y) \<and> (\<forall>p x. p \<notin> P \<longrightarrow> mports t p = Some x \<longrightarrow> 1 \<le> port_kref x)"

lemma inv_but_none: "inv_but f {} {} t = mst_inv f t"
  by (auto simp: inv_but_def mst_inv_def refs_ok_def)

lemma inv_but_port:
  assumes "inv_but f B P t" and "mports t p = Some x" and "vcpi_id x' = vcpi_id x" and "input x' = input x" and "port_num x' = port_num x"
    and "p \<in> P \<or> 1 \<le> port_kref x'"
  shows "inv_but f B P (put_mport t p x')"
proof -
  have "proposals_ok True (put_mport t p x')" using assms(1-4) by (intro proposals_ok_port [of True t p x]) (simp_all add: inv_but_def)
  then show ?thesis using assms by (auto simp: inv_but_def table_ok_def inputs_ok_def put_mport_def)
qed

lemma inv_but_branch: "inv_but f B P t \<Longrightarrow> b \<in> B \<or> 1 \<le> mstb_kref y \<Longrightarrow> inv_but f B P (put_branch t b y)"
  by (auto simp: inv_but_def table_ok_def inputs_ok_def put_branch_def)

lemma inv_but_free_port:
  assumes "inv_but f B (insert p P) t" and "proposals_ok True (t'\<lparr>mports := (mports t')(p := None)\<rparr>)" and "branches t' = branches t"
    and "mports t' = mports t" and "max_payloads t' = max_payloads t" and "payloads t' = payloads t"
  shows "inv_but f B P (t'\<lparr>mports := (mports t')(p := None), hotplugs := n\<rparr>)"
  using assms by (auto simp: inv_but_def table_ok_def inputs_ok_def)

lemma inv_but_irrelevant [simp]:
  "inv_but f B P (t\<lparr>connectors := c\<rparr>) = inv_but f B P t" "inv_but f B P (t\<lparr>i2c_buses := ib\<rparr>) = inv_but f B P t"
  "inv_but f B P (drop_slot s t) = inv_but f B P t" "inv_but f B P (t\<lparr>work_queued := w\<rparr>) = inv_but f B P t"
  by (simp_all add: inv_but_def table_ok_def inputs_ok_def)

definition keeps_inv :: "(u8 \<Rightarrow> bool) \<Rightarrow> (topology \<Rightarrow> ptr \<Rightarrow> trap + topology) \<Rightarrow> bool" where
  "keeps_inv f put_b \<longleftrightarrow> (\<forall>B P t b. inv_but f B P t \<longrightarrow> sat (inv_but f B P) (put_b t b))"

lemma keeps_invD: "keeps_inv f put_b \<Longrightarrow> inv_but f B P t \<Longrightarrow> sat (inv_but f B P) (put_b t b)"
  by (simp add: keeps_inv_def)

lemma inv_but_kref: "inv_but f B P t \<Longrightarrow> mports t p = Some x \<Longrightarrow> p \<in> P \<or> 1 \<le> port_kref x"
  by (auto simp: inv_but_def)

lemma inv_but_mono: "inv_but f B P t \<Longrightarrow> B \<subseteq> B' \<Longrightarrow> P \<subseteq> P' \<Longrightarrow> inv_but f B' P' t"
  by (auto simp: inv_but_def)

lemma teardown_inv:
  assumes "keeps_inv f put_b" and "inv_but f B P t"
  shows "sat (inv_but f B P) (port_teardown_pdt_with put_b t p old)"
proof -
  have "sat (inv_but f B P) (put_b (put_mport t p (x\<lparr>port_mstb := c\<rparr>)) b)" if "mports t p = Some x" for x b c
    by (rule keeps_invD [OF assms(1)], rule inv_but_port [OF assms(2) that]) (use inv_but_kref [OF assms(2) that] in simp_all)
  then show ?thesis using assms(2)
    by (cases old) (auto simp: port_teardown_pdt_with_def get_mport_def split: option.splits)
qed

lemma freed_port_inv:
  assumes i: "inv_but f B (insert p P) t" and p: "mports t p = Some x"
  shows "sat (\<lambda>t'. inv_but f B P (t'\<lparr>mports := (mports t')(p := None), hotplugs := hotplugs t' + 1\<rparr>))
    (if vcpi_id x > 0 then drm_dp_mst_put_payload_id t (vcpi_id x) else Inr t)"
proof (cases "vcpi_id x > 0")
  case True
  have ok: "proposals_ok True t" using i by (simp add: inv_but_def)
  from True put_payload_id_correct [OF ok p, of None] show ?thesis using inv_but_free_port [OF i] by auto
next
  case False
  have ok: "proposals_ok True t" using i by (simp add: inv_but_def)
  then have "Some p \<notin> set (proposed_vcpis t)" using proposals_okD(4) [OF ok, of p] vcpi_of_simps(1) [OF p] False by auto
  from proposals_ok_free [OF ok this] False show ?thesis using inv_but_free_port [OF i, of t] by auto
qed

lemma destroy_port_inv:
  assumes rel: "keeps_inv f put_b" and i: "inv_but f B (insert p P) t"
  shows "sat (inv_but f B P) (destroy_port_with put_b t p)"
proof (cases "mports t p")
  case None
  then show ?thesis by (simp add: destroy_port_with_def get_mport_def)
next
  case (Some x)
  have ok: "proposals_ok True t" using i by (simp add: inv_but_def)
  show ?thesis
  proof (cases "input x")
    case True
    then have "Some p \<notin> set (proposed_vcpis t)" using proposals_okD(5) [OF ok] vcpi_of_simps(2) [OF Some] by auto
    from inv_but_free_port [OF i proposals_ok_free [OF ok this]] show ?thesis
      using True Some by (simp add: destroy_port_with_def get_mport_def)
  next
    case False
    let ?t = "(put_mport t p (x\<lparr>vcpi_num_slots := 0\<rparr>))\<lparr>connectors := (connectors (put_mport t p (x\<lparr>vcpi_num_slots := 0\<rparr>)))(p := None)\<rparr>"
    have "inv_but f B (insert p P) ?t" using inv_but_port [OF i Some, of "x\<lparr>vcpi_num_slots := 0\<rparr>"] by simp
    then have td: "sat (inv_but f B (insert p P)) (port_teardown_pdt_with put_b ?t p (pdt x))" by (rule teardown_inv [OF rel])
    have "sat (inv_but f B P) (bnd (bnd (port_teardown_pdt_with put_b ?t p (pdt x)) (\<lambda>t. bnd (get_mport t p) (\<lambda>x.
        if vcpi_id x > 0 then drm_dp_mst_put_payload_id t (vcpi_id x) else Inr t)))
        (\<lambda>t. Inr (t\<lparr>mports := (mports t)(p := None), hotplugs := hotplugs t + 1\<rparr>)))"
    proof (cases "port_teardown_pdt_with put_b ?t p (pdt x)")
      case (Inr t2)
      then have i2: "inv_but f B (insert p P) t2" using td by simp
      show ?thesis
      proof (cases "mports t2 p")
        case (Some x2)
        have "sat (\<lambda>t'. inv_but f B P (t'\<lparr>mports := (mports t')(p := None), hotplugs := hotplugs t' + 1\<rparr>))
            (if vcpi_id x2 > 0 then drm_dp_mst_put_payload_id t2 (vcpi_id x2) else Inr t2)"
          by (rule freed_port_inv [OF i2 Some])
        then show ?thesis using Inr Some by (cases "drm_dp_mst_put_payload_id t2 (vcpi_id x2)") (auto simp: get_mport_def)
      qed (simp add: Inr get_mport_def)
    qed simp
    then show ?thesis using False Some by (simp add: destroy_port_with_def get_mport_def Let_def)
  qed
qed

lemma put_port_inv:
  assumes rel: "keeps_inv f put_b" and i: "inv_but f B P t"
  shows "sat (inv_but f B P) (put_port_with put_b t p)"
proof (cases "mports t p")
  case None
  then show ?thesis by (simp add: put_port_with_def get_mport_def)
next
  case (Some x)
  let ?x = "x\<lparr>port_kref := port_kref x - 1\<rparr>"
  have "inv_but f B (insert p P) (put_mport t p ?x)" by (rule inv_but_port [OF inv_but_mono [OF i] Some]) auto
  from destroy_port_inv [OF rel this] have "sat (inv_but f B P) (destroy_port_with put_b (put_mport t p ?x) p)" .
  moreover have "inv_but f B P (put_mport t p ?x)" if "port_kref x \<noteq> 1"
    by (rule inv_but_port [OF i Some]) (use that inv_but_kref [OF i Some] in auto)
  ultimately show ?thesis using Some by (cases "port_kref x = 1") (simp_all add: put_port_with_def get_mport_def Let_def)
qed

lemma destroy_ports_inv:
  assumes rel: "keeps_inv f put_b"
  shows "inv_but f B P t \<Longrightarrow> b \<in> B \<Longrightarrow> sat (inv_but f B P) (destroy_ports_with put_b t b ps)"
proof (induction ps arbitrary: t)
  case (Cons p ps)
  have "inv_but f B P (put_branch t b (y\<lparr>mstb_ports := ps\<rparr>))" for y
    by (rule inv_but_branch [OF Cons.prems(1)]) (use Cons.prems(2) in simp)
  from put_port_inv [OF rel this] have "inv_but f B P t'" if "put_port_with put_b (put_branch t b (y\<lparr>mstb_ports := ps\<rparr>)) p = Inr t'" for y t'
    using that by (metis sat_Inr)
  then show ?case using Cons.IH Cons.prems(2) by (auto intro!: sat_bnd)
qed simp

lemma put_branch_inv: "keeps_inv f (drm_dp_put_mst_branch_device n)"
proof (induction n)
  case (Suc n)
  show ?case unfolding keeps_inv_def
  proof (intro allI impI)
    fix B P t b
    assume i: "inv_but f B P t"
    have "sat (inv_but f B P) (destroy_mst_branch_device_with (drm_dp_put_mst_branch_device n) (put_branch t b y) b)" for y
      unfolding destroy_mst_branch_device_with_def
    proof (rule sat_bnd, rule sat_bnd)
      fix y' t1
      assume "destroy_ports_with (drm_dp_put_mst_branch_device n) ((put_branch t b y)\<lparr>work_queued := False\<rparr>) b (mstb_ports y') = Inr t1"
      moreover have "inv_but f (insert b B) P ((put_branch t b y)\<lparr>work_queued := False\<rparr>)"
        using inv_but_branch [OF inv_but_mono [OF i, of "insert b B" P]] by auto
      ultimately have i1: "inv_but f (insert b B) P t1" using destroy_ports_inv [OF Suc.IH, of "insert b B" P] by (metis sat_Inr insertI1)
      have "inv_but f B P (t2\<lparr>branches := (branches t2)(b := None)\<rparr>)" if "inv_but f (insert b B) P t2" for t2
        using that by (auto simp: inv_but_def table_ok_def inputs_ok_def)
      then show "sat (inv_but f B P) (bnd (get_branch t1 b) (\<lambda>y. let t = drop_slot (tx_slot1 y) (drop_slot (tx_slot0 y) t1)
          in Inr (t\<lparr>branches := (branches t)(b := None)\<rparr>)))"
        using i1 by (intro sat_bnd) (simp add: Let_def del: drop_slot_fields)
    qed
    moreover have "inv_but f B P (put_branch t b (y\<lparr>mstb_kref := mstb_kref y - 1\<rparr>))" if "branches t b = Some y" "mstb_kref y \<noteq> 1" for y
    proof (rule inv_but_branch [OF i])
      show "b \<in> B \<or> 1 \<le> mstb_kref (y\<lparr>mstb_kref := mstb_kref y - 1\<rparr>)" using i that by (auto simp: inv_but_def Suc_le_eq)
    qed
    ultimately show "sat (inv_but f B P) (drm_dp_put_mst_branch_device (Suc n) t b)"
      by (cases "branches t b") (simp_all add: get_branch_def Let_def)
  qed
qed (simp add: keeps_inv_def)

lemma put_branch_device_inv: "mst_inv f t \<Longrightarrow> sat (mst_inv f) (drm_dp_put_mst_branch_device n t b)"
  and put_port_device_inv: "mst_inv f t \<Longrightarrow> sat (mst_inv f) (drm_dp_put_port n t p)"
  and port_teardown_inv: "mst_inv f t \<Longrightarrow> sat (mst_inv f) (drm_dp_port_teardown_pdt n t p old)"
  using keeps_invD [OF put_branch_inv, of f "{}" "{}"] put_port_inv [OF put_branch_inv, of f "{}" "{}"]
    teardown_inv [OF put_branch_inv, of f "{}" "{}"]
  by (simp_all add: inv_but_none [abs_def] drm_dp_put_port_def drm_dp_port_teardown_pdt_def)

end
