(* ===== verification/Dp_Mst_System.thy ===== *)
theory Dp_Mst_System
  imports Dp_Mst_Probe Dp_Mst_Payload_System
begin

text \<open>
  The topology manager as a state machine: what drivers call, what devices report and the probe work, in any order.  The ids of
  the channels are distinct in every state, and the proposals refer to ports that are there.

  The hypotheses are that the allocator returns addresses that are not in use, and that the number of a port tells whether it
  is an input port.
\<close>

section \<open>Rules\<close>

lemma sat_bnd2: "sat (\<lambda>(t, _). Q t) r \<Longrightarrow> (\<And>t d. Q t \<Longrightarrow> sat P (g t d)) \<Longrightarrow> sat P (bnd r (\<lambda>(t, d). g t d))"
  by (cases r) auto

lemma sat_bnd3: "sat (\<lambda>(_, t, _). Q t) r \<Longrightarrow> (\<And>a t d. Q t \<Longrightarrow> sat P (g a t d)) \<Longrightarrow> sat P (bnd r (\<lambda>(a, t, d). g a t d))"
  by (cases r) auto

lemma sat_bnd1: "sat Q r \<Longrightarrow> (\<And>t. Q t \<Longrightarrow> sat P (g t)) \<Longrightarrow> sat P (bnd r g)"
  by (cases r) auto

lemma sat_mport: "(\<And>x. mports t p = Some x \<Longrightarrow> sat P (g x)) \<Longrightarrow> sat P (bnd (get_mport t p) g)"
  by (simp add: get_mport_def split: option.splits)

lemma sat_branch: "(\<And>y. branches t b = Some y \<Longrightarrow> sat P (g y)) \<Longrightarrow> sat P (bnd (get_branch t b) g)"
  by (simp add: get_branch_def split: option.splits)

section \<open>Changes that keep the invariant\<close>

lemma mst_inv_irrelevant [simp]:
  "mst_inv f (t\<lparr>connectors := c\<rparr>) = mst_inv f t" "mst_inv f (t\<lparr>i2c_buses := ib\<rparr>) = mst_inv f t"
  "mst_inv f (t\<lparr>hotplugs := n\<rparr>) = mst_inv f t" "mst_inv f (t\<lparr>work_queued := w\<rparr>) = mst_inv f t"
  "mst_inv f (t\<lparr>mgr_dpcd := bs\<rparr>) = mst_inv f t" "mst_inv f (t\<lparr>mgr_guid := bs\<rparr>) = mst_inv f t"
  "mst_inv f (t\<lparr>mgr_guid_valid := v\<rparr>) = mst_inv f t"
  "mst_inv f (t\<lparr>pbn_div := pd, total_slots := ts, avail_slots := av\<rparr>) = mst_inv f t"
  "mst_inv f (t\<lparr>mst_state := w\<rparr>) = mst_inv f t" "mst_inv f (t\<lparr>mst_primary := b\<rparr>) = mst_inv f t"
  by (simp_all add: mst_inv_def proposals_ok_def refs_ok_def table_ok_def inputs_ok_def vcpi_of_def input_port_def)

lemma mst_inv_branch: "mst_inv f t \<Longrightarrow> 1 \<le> mstb_kref y \<Longrightarrow> mst_inv f (put_branch t b y)"
  using inv_but_branch [of f "{}" "{}" t b y] by (simp add: inv_but_none)

lemma mst_inv_krefs: "mst_inv f t \<Longrightarrow> mports t p = Some x \<Longrightarrow> 1 \<le> port_kref x" "mst_inv f t \<Longrightarrow> branches t b = Some y \<Longrightarrow> 1 \<le> mstb_kref y"
  by (auto simp: mst_inv_def refs_ok_def)

lemma mst_inv_same:
  assumes "mst_inv f t" and "mports t p = Some x" and "vcpi_id x' = vcpi_id x" and "input x' = input x" and "port_num x' = port_num x"
    and "port_kref x' = port_kref x"
  shows "mst_inv f (put_mport t p x')"
  using mst_inv_port [OF assms(1-5)] mst_inv_krefs(1) [OF assms(1,2)] assms(6) by simp

lemma mst_inv_new:
  assumes i: "mst_inv f t" and p: "mports t p = None" and y: "vcpi_id y = 0" "1 \<le> port_kref y" "input y = f (port_num y)"
  shows "mst_inv f (put_mport t p y)"
proof -
  have ok: "proposals_ok True t" using i by (simp add: mst_inv_def)
  have "Some p \<notin> set (proposed_vcpis t)" using proposals_okD(4) [OF ok, of p] vcpi_of_simps(3) [of t p] p by auto
  then have "proposals_ok True (put_mport t p y)"
    using y(1) proposals_okD(6,8) [OF ok]
    by (intro proposals_ok_forget [OF ok, of p]) (auto simp: put_mport_def vcpi_of_def input_port_def)
  then show ?thesis using i y by (auto simp: mst_inv_def refs_ok_def table_ok_def inputs_ok_def put_mport_def)
qed

section \<open>Ports\<close>

lemma enum_inv: "mst_inv f t \<Longrightarrow> sat (\<lambda>(t', _). mst_inv f t') (drm_dp_send_enum_path_resources dev t d b p)"
  unfolding drm_dp_send_enum_path_resources_def
  by (intro sat_if sat_mport sat_bnd)
    (auto split: prod.splits sum.splits intro: mst_inv_same)

lemma dpcd_write_keeps: "refs_ok t \<Longrightarrow> sat (\<lambda>(_, t', _). t' = t) (drm_dp_send_dpcd_write dev fuel t d p off n bs)"
  unfolding drm_dp_send_dpcd_write_def by (rule sat_bnd) (rule with_mstb_keeps)

lemma check_guid_inv:
  assumes "mst_inv f t"
  shows "sat (\<lambda>(t', _). mst_inv f t') (drm_dp_check_port_guid dev fuel t d p)"
  unfolding drm_dp_check_port_guid_def
proof (intro sat_mport sat_if)
  fix x
  assume x: "mports t p = Some x"
  obtain v g where vg: "drm_dp_validate_guid (get_jiffies_64 dev d) (port_guid x) = (v, g)" by fastforce
  let ?t = "put_mport t p (x\<lparr>port_guid := g, port_guid_valid := v\<rparr>)"
  have i: "mst_inv f ?t" by (rule mst_inv_same [OF assms x]) simp_all
  then have "sat (\<lambda>(_, t', _). mst_inv f t') (drm_dp_send_dpcd_write dev fuel ?t d p (DP_GUID dev) 16 g)"
    using dpcd_write_keeps [of ?t dev fuel d p "DP_GUID dev" 16 g]
    by (cases "drm_dp_send_dpcd_write dev fuel ?t d p (DP_GUID dev) 16 g") (auto simp: mst_inv_def)
  then have "sat (\<lambda>(t', _). mst_inv f t') (bnd (drm_dp_send_dpcd_write dev fuel ?t d p (DP_GUID dev) 16 g) (\<lambda>(_, t, d).
      bnd (get_mport t p) (\<lambda>x. Inr (put_mport t p (x\<lparr>port_guid_valid := True\<rparr>), d))))"
    by (rule sat_bnd3) (intro sat_mport, simp, erule (1) mst_inv_same, simp_all)
  then show "sat (\<lambda>(t', _). mst_inv f t') (let (valid, guid) = drm_dp_validate_guid (get_jiffies_64 dev d) (port_guid x);
           t = put_mport t p (x\<lparr>port_guid := guid, port_guid_valid := valid\<rparr>)
       in if \<not> valid then
            bnd (drm_dp_send_dpcd_write dev fuel t d p (DP_GUID dev) 16 guid) (\<lambda>(_, t, d).
            bnd (get_mport t p) (\<lambda>x. Inr (put_mport t p (x\<lparr>port_guid_valid := True\<rparr>), d)))
          else Inr (t, d))"
    using i vg by (cases v) (simp_all add: Let_def)
qed (use assms in simp)

lemma plug_inv:
  assumes "mst_inv f t"
  shows "sat (\<lambda>(_, t', _). mst_inv f t') (plug_port dev fuel e t d b p old)"
  unfolding plug_port_def
proof (intro sat_mport sat_if sat_bnd2 [OF check_guid_inv [OF assms]])
  fix x t1 d1
  assume "mst_inv f t1"
  then have "sat (\<lambda>(t', _). mst_inv f t') (if e \<and> \<not> input x then drm_dp_send_enum_path_resources dev t1 d1 b p else Inr (t1, d1))"
    using enum_inv [of f t1 dev d1 b p] by simp
  then show "sat (\<lambda>(_, t', _). mst_inv f t') (bnd (if e \<and> \<not> input x then drm_dp_send_enum_path_resources dev t1 d1 b p else Inr (t1, d1))
      (\<lambda>(t, d). Inr (True, t, d)))" by (rule sat_bnd2) simp
qed (use assms in \<open>auto intro: mst_inv_same\<close>)

lemma new_branch_inv:
  assumes "mst_inv f t"
  shows "sat (\<lambda>(m, t'). mst_inv f t' \<and> mports t' = mports t) (drm_dp_add_mst_branch_device addr t l r)"
proof (cases addr)
  case None
  then show ?thesis using assms by (simp add: drm_dp_add_mst_branch_device_def)
next
  case (Some b)
  have "mst_inv f (put_branch t b y) \<and> mports (put_branch t b y) = mports t" if "mstb_kref y = 1" for y
    using mst_inv_branch [OF assms, of y b] that by (simp add: put_branch_def)
  then show ?thesis using Some by (auto simp: drm_dp_add_mst_branch_device_def intro!: sat_bnd)
qed

lemma setup_pdt_inv:
  assumes "mst_inv f t"
  shows "sat (\<lambda>(_, t'). mst_inv f t') (drm_dp_port_setup_pdt addr g t p)"
  unfolding drm_dp_port_setup_pdt_def
proof (rule sat_mport)
  fix x
  assume x: "mports t p = Some x"
  have "sat (\<lambda>(_, t'). mst_inv f t') (case mt of (m, t) \<Rightarrow>
         let t = put_mport t p (x\<lparr>port_mstb := m\<rparr>)
         in case m of
              None \<Rightarrow> Inl Null_deref
            | Some b \<Rightarrow> bnd (get_branch t b) (\<lambda>y. Inr (True, put_branch t b (y\<lparr>mstb_port_parent := Some p\<rparr>))))"
    if "drm_dp_add_mst_branch_device addr t l r = Inr mt" for mt l r
  proof -
    obtain m t1 where mt: "mt = (m, t1)" by fastforce
    then have t1: "mst_inv f t1" "mports t1 p = Some x" using new_branch_inv [OF assms, of addr l r] that x by auto
    let ?t = "put_mport t1 p (x\<lparr>port_mstb := m\<rparr>)"
    have i: "mst_inv f ?t" by (rule mst_inv_same [OF t1]) simp_all
    have "mst_inv f (put_branch ?t b (y\<lparr>mstb_port_parent := q\<rparr>))" if "branches ?t b = Some y" for b y q
      by (rule mst_inv_branch [OF i]) (use mst_inv_krefs(2) [OF i that] in simp)
    then show ?thesis using mt by (cases m) (auto simp: Let_def intro!: sat_branch)
  qed
  then show "sat (\<lambda>(_, t'). mst_inv f t') (case pdt x of
       DP_LEGACY_CONV \<Rightarrow> Inr (False, t\<lparr>i2c_buses := insert p (i2c_buses t)\<rparr>)
     | SST_SINK \<Rightarrow> Inr (False, t\<lparr>i2c_buses := insert p (i2c_buses t)\<rparr>)
     | MST_BRANCHING \<Rightarrow>
         bnd (drm_dp_calculate_rad t p g) (\<lambda>(l, r).
         bnd (drm_dp_add_mst_branch_device addr t l r) (\<lambda>(m, t).
         let t = put_mport t p (x\<lparr>port_mstb := m\<rparr>)
         in case m of
              None \<Rightarrow> Inl Null_deref
            | Some b \<Rightarrow> bnd (get_branch t b) (\<lambda>y. Inr (True, put_branch t b (y\<lparr>mstb_port_parent := Some p\<rparr>)))))
     | OTHER_PEER \<Rightarrow> Inr (False, t))"
    using assms by (cases "pdt x") (auto intro!: sat_bnd split: prod.splits)
qed

lemma change_peer_inv:
  assumes "mst_inv f t"
  shows "sat (\<lambda>(_, t', _). mst_inv f t') (change_peer dev fuel t d p old)"
  unfolding change_peer_def
proof (intro sat_mport sat_if sat_bnd1 [OF port_teardown_inv [OF assms]])
  fix x t1
  assume i: "mst_inv f t1"
  obtain addr d1 where a: "(if pdt x = MST_BRANCHING then alloc_branch dev d t1 else (None, d)) = (addr, d1)" by fastforce
  have "sat (\<lambda>(_, t', _). mst_inv f t') (bnd (drm_dp_port_setup_pdt addr (stack_bytes dev d1) t1 p) (\<lambda>(s, t). Inr (s, t, d1)))"
    using setup_pdt_inv [OF i, of addr "stack_bytes dev d1" p] by (cases "drm_dp_port_setup_pdt addr (stack_bytes dev d1) t1 p") auto
  then show "sat (\<lambda>(_, t', _). mst_inv f t') (let (addr, d) = (if pdt x = MST_BRANCHING then alloc_branch dev d t1 else (None, d))
       in bnd (drm_dp_port_setup_pdt addr (stack_bytes dev d) t1 p) (\<lambda>(send_link, t). Inr (send_link, t, d)))"
    unfolding a by simp
qed (use assms in simp)

lemma add_connector_inv:
  assumes "mst_inv f t"
  shows "sat (\<lambda>(t', _). mst_inv f t') (add_connector dev t d b p)"
  unfolding add_connector_def Let_def
proof (intro sat_mport sat_branch sat_bnd sat_if)
  fix x path
  assume x: "mports t p = Some x"
  have "mst_inv f (put_mport (t\<lparr>connectors := c\<rparr>) p (x\<lparr>cached_edid := e\<rparr>))" for c e
    by (rule mst_inv_same [of _ _ _ x]) (use assms x in simp_all)
  then show "sat (\<lambda>(t', _). mst_inv f t') (case drm_get_edid dev d p of (e, d) \<Rightarrow>
      Inr (put_mport (t\<lparr>connectors := (connectors t)(p \<mapsto> path)\<rparr>) p (x\<lparr>cached_edid := e\<rparr>), d))"
    by (simp split: prod.split)
qed (use assms in simp)

section \<open>The ports of a reply\<close>

text \<open>The hypotheses about the allocator and about the devices.\<close>

definition fresh_ports :: "'d probe_dev \<Rightarrow> bool" where
  "fresh_ports dev \<longleftrightarrow> (\<forall>d t p d'. alloc_port dev d t = (Some p, d') \<longrightarrow> mports t p = None)"

definition inputs_by_number :: "(u8 \<Rightarrow> bool) \<Rightarrow> 'd probe_dev \<Rightarrow> bool" where
  "inputs_by_number f dev \<longleftrightarrow> (\<forall>d b msg reply d'. tx_reply dev d b msg = (Inr reply, d') \<longrightarrow>
     (\<forall>m \<in> set (reply_ports dev reply). Dp_Mst_Msg.input_port m = f (port_number m)))"

lemma get_port_loop_found:
  "sat (\<lambda>(r, t'). case r of None \<Rightarrow> t' = t | Some p \<Rightarrow>
     \<exists>x. mports t p = Some x \<and> port_num x = n \<and> t' = put_mport t p (x\<lparr>port_kref := port_kref x + 1\<rparr>)) (get_port_loop t n ps)"
  by (induction ps) (auto simp: port_kref_get_def get_mport_def split: option.splits)

lemma get_port_found:
  "sat (\<lambda>(r, t'). case r of None \<Rightarrow> t' = t | Some p \<Rightarrow>
     \<exists>x. mports t p = Some x \<and> port_num x = n \<and> t' = put_mport t p (x\<lparr>port_kref := port_kref x + 1\<rparr>)) (drm_dp_get_port t b n)"
  unfolding drm_dp_get_port_def by (rule sat_bnd) (rule get_port_loop_found)

lemma fill_port_simps [simp]:
  "port_kref (fill_port dev msg x) = port_kref x" "port_num (fill_port dev msg x) = port_num x"
  "vcpi_id (fill_port dev msg x) = vcpi_id x" "input (fill_port dev msg x) = Dp_Mst_Msg.input_port msg"
  by (simp_all add: fill_port_def)

lemma find_or_create_inv:
  assumes i: "mst_inv f t" and fresh: "fresh_ports dev" and m: "Dp_Mst_Msg.input_port msg = f (port_number msg)"
  shows "sat (\<lambda>(r, t', _). case r of None \<Rightarrow> mst_inv f t'
      | Some (p, _) \<Rightarrow> \<forall>x. mports t' p = Some x \<longrightarrow> mst_inv f (put_mport t' p (fill_port dev msg x)))
    (find_or_create_port dev t d b (port_number msg))"
  unfolding find_or_create_port_def
proof (rule sat_bnd)
  fix r
  assume r: "drm_dp_get_port t b (port_number msg) = Inr r"
  obtain q t1 where q: "r = (q, t1)" by fastforce
  note g = get_port_found [of t "port_number msg" b]
  show "sat (\<lambda>(r, t', _). case r of None \<Rightarrow> mst_inv f t'
      | Some (p, _) \<Rightarrow> \<forall>x. mports t' p = Some x \<longrightarrow> mst_inv f (put_mport t' p (fill_port dev msg x)))
    (case r of (r, t) \<Rightarrow> case r of
       Some p \<Rightarrow> bnd (get_mport t p) (\<lambda>x. Inr (Some (p, False, pdt x, port_ddps x), t, d))
     | None \<Rightarrow>
         (case alloc_port dev d t of
            (None, d) \<Rightarrow> Inr (None, t, d)
          | (Some p, d) \<Rightarrow> Inr (Some (p, True, pdt_of dev 0, False),
              put_mport t p ((zero_mport (pdt_of dev 0))\<lparr>port_kref := 1, port_parent := b, port_num := port_number msg\<rparr>), d)))"
  proof (cases q)
    case None
    then have t1: "t1 = t" using g r q by simp
    have "mst_inv f (put_mport t p (fill_port dev msg ((zero_mport (pdt_of dev 0))\<lparr>port_kref := 1, port_parent := b, port_num := port_number msg\<rparr>)))"
      if "mports t p = None" for p
      by (rule mst_inv_new [OF i that]) (use m in \<open>simp_all add: zero_mport_def\<close>)
    moreover have "mports t p = None" if "alloc_port dev d t = (Some p, d')" for p d' using that fresh by (auto simp: fresh_ports_def)
    moreover obtain a d' where "alloc_port dev d t = (a, d')" by fastforce
    ultimately show ?thesis using None q t1 i by (cases a) simp_all
  next
    case (Some p)
    then obtain x where x: "mports t p = Some x" "port_num x = port_number msg" "t1 = put_mport t p (x\<lparr>port_kref := port_kref x + 1\<rparr>)"
      using g r q by auto
    have "input x = f (port_number msg)" using i x by (auto simp: mst_inv_def inputs_ok_def)
    then have "mst_inv f (put_mport t p (fill_port dev msg (x\<lparr>port_kref := port_kref x + 1\<rparr>)))"
      by (intro mst_inv_port [OF i x(1)]) (simp_all add: m)
    then show ?thesis using Some q x by (simp add: get_mport_def)
  qed
qed

lemma kref_get_inv: "mst_inv f t \<Longrightarrow> sat (mst_inv f) (port_kref_get t p)"
  unfolding port_kref_get_def by (rule sat_mport) (simp, erule (1) mst_inv_port, simp_all)

lemma list_port_inv: "mst_inv f t \<Longrightarrow> sat (mst_inv f) (list_port t b p)"
  unfolding list_port_def
  by (rule sat_bnd1, erule kref_get_inv, rule sat_branch) (auto intro!: mst_inv_branch dest: mst_inv_krefs(2))

definition keeps_inv2 :: "(u8 \<Rightarrow> bool) \<Rightarrow> (topology \<Rightarrow> 'd \<Rightarrow> ptr \<Rightarrow> trap + topology \<times> 'd) \<Rightarrow> bool" where
  "keeps_inv2 f g \<longleftrightarrow> (\<forall>t d b. mst_inv f t \<longrightarrow> sat (\<lambda>(t', _). mst_inv f t') (g t d b))"

lemma mark_sent_inv: "mst_inv f t \<Longrightarrow> sat (\<lambda>(t', _). mst_inv f t') (bnd (get_branch t c) (\<lambda>y. Inr (put_branch t c (y\<lparr>link_address_sent := True\<rparr>), d)))"
  by (rule sat_branch) (auto intro!: mst_inv_branch dest: mst_inv_krefs(2))

lemma link_new_branch_inv:
  assumes "keeps_inv2 f send_link" and "mst_inv f t"
  shows "sat (\<lambda>(t', _). mst_inv f t') (link_new_branch send_link t d p)"
  unfolding link_new_branch_def
proof (rule sat_mport, split option.split, intro conjI allI impI)
  fix c
  have "sat (\<lambda>(t', _). mst_inv f t') (send_link t d c)" using assms by (simp add: keeps_inv2_def)
  then show "sat (\<lambda>(t', _). mst_inv f t') (bnd (send_link t d c) (\<lambda>(t, d). bnd (get_mport t p) (\<lambda>x.
     case port_mstb x of None \<Rightarrow> Inl Null_deref | Some c \<Rightarrow>
     bnd (get_branch t c) (\<lambda>y. Inr (put_branch t c (y\<lparr>link_address_sent := True\<rparr>), d)))))"
    by (rule sat_bnd2) (auto intro!: sat_mport mark_sent_inv split: option.split)
qed simp

lemma add_port_inv:
  assumes rec: "keeps_inv2 f send_link" and i: "mst_inv f t" and fresh: "fresh_ports dev"
    and m: "Dp_Mst_Msg.input_port msg = f (port_number msg)"
  shows "sat (\<lambda>(t', _). mst_inv f t') (add_port_with send_link dev fuel t d b msg)"
  unfolding add_port_with_def
proof (rule sat_bnd)
  fix r
  assume "find_or_create_port dev t d b (port_number msg) = Inr r"
  then have r: "case r of (r, t', _) \<Rightarrow> case r of None \<Rightarrow> mst_inv f t'
      | Some (p, _) \<Rightarrow> \<forall>x. mports t' p = Some x \<longrightarrow> mst_inv f (put_mport t' p (fill_port dev msg x))"
    using find_or_create_inv [OF i fresh m, of d b] by simp
  have tail: "sat (\<lambda>(t', _). mst_inv f t')
      (bnd (if created then list_port t b p else Inr t) (\<lambda>t.
        bnd (plug_port dev fuel True t d b p old_ddps) (\<lambda>(_, t, d).
        bnd (change_peer dev fuel t d p old_pdt) (\<lambda>(send, t, d).
        bnd (if send then link_new_branch send_link t d p else Inr (t, d)) (\<lambda>(t, d).
        bnd (if created \<and> \<not> Dp_Mst_Msg.input_port msg then add_connector dev t d b p else Inr (t, d)) (\<lambda>(t, d).
        bnd (drm_dp_put_port fuel t p) (\<lambda>t. Inr (t, d))))))))" if "mst_inv f t" for t d p created old_pdt old_ddps
  proof (rule sat_bnd1 [where Q = "mst_inv f"], use list_port_inv [OF that] that in simp,
      rule sat_bnd3 [OF plug_inv], assumption, rule sat_bnd3 [OF change_peer_inv], assumption)
    fix send t2 d2
    assume "mst_inv f t2"
    then have "sat (\<lambda>(t', _). mst_inv f t') (if send then link_new_branch send_link t2 d2 p else Inr (t2, d2))"
      using link_new_branch_inv [OF rec, of t2 d2 p] by simp
    moreover have "sat (\<lambda>(t', _). mst_inv f t') (if c then add_connector dev t3 d3 b p else Inr (t3, d3))" if "mst_inv f t3" for c t3 d3
      using add_connector_inv [OF that, of dev d3 b p] that by simp
    ultimately show "sat (\<lambda>(t', _). mst_inv f t')
      (bnd (if send then link_new_branch send_link t2 d2 p else Inr (t2, d2)) (\<lambda>(t, d).
        bnd (if created \<and> \<not> Dp_Mst_Msg.input_port msg then add_connector dev t d b p else Inr (t, d)) (\<lambda>(t, d).
        bnd (drm_dp_put_port fuel t p) (\<lambda>t. Inr (t, d)))))"
      by (intro sat_bnd2 [where Q = "mst_inv f"] sat_bnd1 [OF put_port_device_inv]) simp_all
  qed
  then show "sat (\<lambda>(t', _). mst_inv f t') (case r of (r, t, d) \<Rightarrow>
     case r of None \<Rightarrow> Inr (t, d) | Some (p, created, old_pdt, old_ddps) \<Rightarrow>
     bnd (get_mport t p) (\<lambda>x.
     let t = put_mport t p (fill_port dev msg x)
     in bnd (if created then list_port t b p else Inr t) (\<lambda>t.
        bnd (plug_port dev fuel True t d b p old_ddps) (\<lambda>(_, t, d).
        bnd (change_peer dev fuel t d p old_pdt) (\<lambda>(send, t, d).
        bnd (if send then link_new_branch send_link t d p else Inr (t, d)) (\<lambda>(t, d).
        bnd (if created \<and> \<not> Dp_Mst_Msg.input_port msg then add_connector dev t d b p else Inr (t, d)) (\<lambda>(t, d).
        bnd (drm_dp_put_port fuel t p) (\<lambda>t. Inr (t, d)))))))))"
    using r by (cases r; cases "fst r") (auto simp: Let_def intro!: sat_mport)
qed

lemma add_ports_inv:
  assumes rec: "keeps_inv2 f send_link" and fresh: "fresh_ports dev"
  shows "mst_inv f t \<Longrightarrow> \<forall>m \<in> set ms. Dp_Mst_Msg.input_port m = f (port_number m) \<Longrightarrow>
    sat (\<lambda>(t', _). mst_inv f t') (add_ports_with send_link dev fuel t d b ms)"
proof (induction ms arbitrary: t d)
  case (Cons m ms)
  have "sat (\<lambda>(t', _). mst_inv f t') (add_port_with send_link dev fuel t d b m)"
    using Cons.prems by (intro add_port_inv [OF rec _ fresh]) simp_all
  then show ?case unfolding add_ports_with.simps using Cons by (intro sat_bnd2 [where Q = "mst_inv f"]) simp_all
qed simp

lemma send_link_address_inv:
  assumes fresh: "fresh_ports dev" and inp: "inputs_by_number f dev"
  shows "keeps_inv2 f (drm_dp_send_link_address dev fuel n)"
proof (induction n)
  case (Suc n)
  have "sat (\<lambda>(t', _). mst_inv f t') (case tx_reply dev d b msg of
        (Inl e, d) \<Rightarrow> Inr (t, d)
      | (Inr reply, d) \<Rightarrow>
          if reply_type reply = 1 then Inr (t, d)
          else bnd (add_ports_with (drm_dp_send_link_address dev fuel n) dev fuel t d b (reply_ports dev reply)) (\<lambda>(t, d).
               Inr (t\<lparr>hotplugs := hotplugs t + 1\<rparr>, d)))" if i: "mst_inv f t" for t d b msg
  proof -
    obtain r d1 where r: "tx_reply dev d b msg = (r, d1)" by fastforce
    have "sat (\<lambda>(t', _). mst_inv f t') (add_ports_with (drm_dp_send_link_address dev fuel n) dev fuel t d1 b (reply_ports dev reply))"
      if "r = Inr reply" for reply
      using inp r that unfolding inputs_by_number_def by (intro add_ports_inv [OF Suc.IH fresh i]) blast
    then have "sat (\<lambda>(t', _). mst_inv f t') (bnd (add_ports_with (drm_dp_send_link_address dev fuel n) dev fuel t d1 b (reply_ports dev reply))
        (\<lambda>(t, d). Inr (t\<lparr>hotplugs := hotplugs t + 1\<rparr>, d)))" if "r = Inr reply" for reply
      using that by (intro sat_bnd2 [where Q = "mst_inv f"]) simp_all
    then show ?thesis using r i by (cases r) simp_all
  qed
  then show ?case unfolding keeps_inv2_def drm_dp_send_link_address.simps
    by (intro allI impI sat_if sat_bnd) simp_all
qed (simp add: keeps_inv2_def)

lemmas keeps_inv2D = keeps_inv2_def [THEN iffD1, rule_format]

section \<open>Reported changes, the probe work and the manager\<close>

lemma update_port_inv:
  assumes "mst_inv f t"
  shows "sat (\<lambda>(t', _). mst_inv f t') (drm_dp_update_port dev fuel t d b cs)"
  unfolding drm_dp_update_port_def
proof (rule sat_bnd)
  fix r
  assume r: "drm_dp_get_port t b (cs_port_number cs) = Inr r"
  obtain q t1 where q: "r = (q, t1)" by fastforce
  note g = get_port_found [of t "cs_port_number cs" b]
  show "sat (\<lambda>(t', _). mst_inv f t') (case r of (r, t) \<Rightarrow> case r of None \<Rightarrow> Inr (t, d) | Some p \<Rightarrow>
     bnd (get_mport t p) (\<lambda>x.
     let t = put_mport t p (x\<lparr>pdt := pdt_of dev (cs_peer_device_type cs), port_mcs := cs_message_capability_status cs,
           port_ldps := cs_legacy_device_plug_status cs, port_ddps := cs_displayport_device_plug_status cs\<rparr>)
     in bnd (plug_port dev fuel False t d b p (port_ddps x)) (\<lambda>(plugged, t, d).
        bnd (change_peer dev fuel t d p (pdt x)) (\<lambda>(send, t, d).
        bnd (drm_dp_put_port fuel t p) (\<lambda>t.
        Inr (if plugged \<or> send then t\<lparr>work_queued := True\<rparr> else t, d))))))"
  proof (cases q)
    case None
    then show ?thesis using g r q assms by simp
  next
    case (Some p)
    then obtain x where x: "mports t p = Some x" "t1 = put_mport t p (x\<lparr>port_kref := port_kref x + 1\<rparr>)" using g r q by auto
    let ?y = "x\<lparr>port_kref := port_kref x + 1, pdt := pdt_of dev (cs_peer_device_type cs), port_mcs := cs_message_capability_status cs,
           port_ldps := cs_legacy_device_plug_status cs, port_ddps := cs_displayport_device_plug_status cs\<rparr>"
    have "mst_inv f (put_mport t p ?y)" by (rule mst_inv_port [OF assms x(1)]) simp_all
    then have "sat (\<lambda>(t', _). mst_inv f t') (bnd (plug_port dev fuel False (put_mport t p ?y) d b p (port_ddps x)) (\<lambda>(plugged, t, d).
        bnd (change_peer dev fuel t d p (pdt x)) (\<lambda>(send, t, d).
        bnd (drm_dp_put_port fuel t p) (\<lambda>t.
        Inr (if plugged \<or> send then t\<lparr>work_queued := True\<rparr> else t, d)))))"
      by (intro sat_bnd3 [OF plug_inv] sat_bnd3 [OF change_peer_inv] sat_bnd1 [OF put_port_device_inv]) (assumption+, simp)
    then show ?thesis using Some q x by (simp add: get_mport_def)
  qed
qed

lemma probe_ports_inv:
  assumes rec: "keeps_inv2 f rec"
  shows "mst_inv f t \<Longrightarrow> sat (\<lambda>(t', _). mst_inv f t') (probe_ports rec dev t d b ps)"
proof (induction ps arbitrary: t d)
  case (Cons p ps)
  have e: "sat (\<lambda>(t', _). mst_inv f t') (if c then drm_dp_send_enum_path_resources dev t d b p else Inr (t, d))" for c
    using enum_inv [OF Cons.prems, of dev d b p] Cons.prems by (cases c) simp_all
  have r: "sat (\<lambda>(t', _). mst_inv f t') (case m of None \<Rightarrow> Inr (t1, d1) | Some c \<Rightarrow> rec t1 d1 c)" if "mst_inv f t1" for t1 d1 m
    using that keeps_inv2D [OF rec that] by (cases m) simp_all
  show ?case unfolding probe_ports.simps
    by (intro sat_mport sat_if Cons.IH sat_bnd2 [OF e] sat_bnd2 [OF r]) (use Cons.prems in assumption)+
qed simp

lemma check_and_send_inv:
  assumes fresh: "fresh_ports dev" and inp: "inputs_by_number f dev"
  shows "keeps_inv2 f (drm_dp_check_and_send_link_address dev fuel n)"
proof (induction n)
  case (Suc n)
  have "sat (\<lambda>(t', _). mst_inv f t') (if \<not> s then
            bnd (drm_dp_send_link_address dev fuel n t d b) (\<lambda>(t, d).
            bnd (get_branch t b) (\<lambda>y. Inr (put_branch t b (y\<lparr>link_address_sent := True\<rparr>), d)))
          else Inr (t, d))" if "mst_inv f t" for s t d b
    using that by (intro sat_if sat_bnd2 [OF keeps_inv2D [OF send_link_address_inv [OF fresh inp]]] mark_sent_inv) simp_all
  then show ?case unfolding keeps_inv2_def drm_dp_check_and_send_link_address.simps
    by (intro allI impI sat_branch sat_bnd2 [where Q = "mst_inv f"] probe_ports_inv [OF Suc.IH]) simp_all
qed (simp add: keeps_inv2_def)

lemma probe_work_inv:
  assumes "fresh_ports dev" and "inputs_by_number f dev" and "mst_inv f t"
  shows "sat (\<lambda>(t', _). mst_inv f t') (drm_dp_mst_link_probe_work dev fuel n t d)"
  using keeps_inv2D [OF check_and_send_inv [OF assms(1,2)] assms(3)]
  by (simp add: drm_dp_mst_link_probe_work_def split: option.split)

lemma mst_enable_inv: "mst_inv f t \<Longrightarrow> sat (\<lambda>(_, _, t', _). mst_inv f t') (mst_enable dev b t d)"
  unfolding mst_enable_def Let_def by (auto intro!: sat_bnd split: prod.split)

lemma mst_add_primary_inv:
  assumes "mst_inv f t"
  shows "sat (\<lambda>(_, _, t', _). mst_inv f t') (mst_add_primary dev t d)"
proof -
  obtain addr d1 where a: "alloc_branch dev d t = (addr, d1)" by fastforce
  have "sat (\<lambda>(_, _, t', _). mst_inv f t') (bnd (mstb_kref_get (t1\<lparr>mst_primary := Some b\<rparr>) b) (\<lambda>t. mst_enable dev b t d1))"
    if i: "mst_inv f t1" for t1 b
  proof (rule sat_bnd1 [where Q = "mst_inv f"])
    have "mst_inv f (put_branch (t1\<lparr>mst_primary := Some b\<rparr>) b (y\<lparr>mstb_kref := mstb_kref y + 1\<rparr>))" for y
      by (rule mst_inv_branch) (use i in simp_all)
    then show "sat (mst_inv f) (mstb_kref_get (t1\<lparr>mst_primary := Some b\<rparr>) b)"
      unfolding mstb_kref_get_def by (intro sat_branch) simp
  qed (rule mst_enable_inv)
  then have "sat (\<lambda>(_, _, t', _). mst_inv f t') (case mt of (mstb, t) \<Rightarrow>
         case mstb of None \<Rightarrow> Inr (Inl ENOMEM, None, t, d1) | Some b \<Rightarrow>
         bnd (mstb_kref_get (t\<lparr>mst_primary := Some b\<rparr>) b) (\<lambda>t. mst_enable dev b t d1))" if "mst_inv f (snd mt)" for mt
    using that by (cases mt; cases "fst mt") simp_all
  moreover have "mst_inv f (snd mt)" if "drm_dp_add_mst_branch_device addr t 1 [] = Inr mt" for mt
    using new_branch_inv [OF assms, of addr 1 "[]"] that by auto
  ultimately show ?thesis using a unfolding mst_add_primary_def by (auto intro!: sat_bnd)
qed

lemma mst_on_inv:
  assumes "mst_inv f t"
  shows "sat (\<lambda>(_, _, t', _). mst_inv f t') (mst_on dev t d)"
proof -
  obtain ret bytes d1 where r: "drm_dp_dpcd_read dev d (DP_DPCD_REV dev) (DP_RECEIVER_CAP_SIZE dev) = (ret, bytes, d1)"
    by (metis prod_cases3)
  have "sat (\<lambda>(_, _, t', _). mst_inv f t')
      (mst_add_primary dev (t\<lparr>mgr_dpcd := caps, pbn_div := pd, total_slots := total, avail_slots := total\<rparr>) d1)" for caps pd total
    using mst_add_primary_inv [of f "(t\<lparr>mgr_dpcd := caps\<rparr>)\<lparr>pbn_div := pd, total_slots := total, avail_slots := total\<rparr>" dev d1] assms by simp
  then show ?thesis unfolding mst_on_def r Let_def using assms
    by (auto intro!: sat_bnd split: option.split)
qed

text \<open>
  Switching off forgets the ids but not the proposals.  Here every port with an id is in the tree below the primary branch device,
  and nobody else refers to an object of the tree.
\<close>

definition channels_owned :: "nat \<Rightarrow> topology \<Rightarrow> bool" where
  "channels_owned n t \<longleftrightarrow> (case mst_primary t of None \<Rightarrow> \<forall>p. vcpi_of t p \<le> 0
     | Some b \<Rightarrow> \<exists>B P. owned n t b B P \<and> (\<forall>p. 0 < vcpi_of t p \<longrightarrow> p \<in> P))"

lemma proposals_ok_marked: "proposals_ok False t \<Longrightarrow> \<forall>p. vcpi_of t p \<le> 0 \<Longrightarrow> proposals_ok True t"
  by (auto simp: proposals_ok_def dest: spec leD)

lemma mst_off_inv:
  assumes i: "mst_inv f t" and c: "channels_owned fuel t" and o: "mst_off dev t d = (m, t1, d1)"
  shows "\<exists>t'. (case m of None \<Rightarrow> Inr t1 | Some b \<Rightarrow> drm_dp_put_mst_branch_device fuel t1 b) = Inr t' \<and> mst_inv f t'"
proof -
  have m: "m = mst_primary t" and eq: "branches t1 = branches t" "mports t1 = mports t" "max_payloads t1 = max_payloads t"
      "payloads t1 = replicate (max_payloads t) \<lparr>payload_state = PAYLOAD_NONE, start_slot = 0, payload_num_slots = 0\<rparr>"
      "proposed_vcpis t1 = proposed_vcpis t" "bit (payload_mask t1) 0"
    using o by (auto simp: mst_off_def bit_set_bit_iff)
  have v: "vcpi_of t1 = vcpi_of t" "input_port t1 = input_port t" using eq(2) by (simp_all add: vcpi_of_def input_port_def fun_eq_iff)
  have ok: "proposals_ok False t1" using i eq v by (simp add: mst_inv_def proposals_ok_def)
  have tb: "table_ok t1" using eq by (simp add: table_ok_def)
  show ?thesis
  proof (cases m)
    case None
    then have "proposals_ok True t1" using ok c m v by (intro proposals_ok_marked) (auto simp: channels_owned_def)
    then show ?thesis using None i tb eq by (simp add: mst_inv_def refs_ok_def inputs_ok_def)
  next
    case (Some b)
    then obtain B P where bp: "owned fuel t b B P" "\<forall>p. 0 < vcpi_of t p \<longrightarrow> p \<in> P" using c m by (auto simp: channels_owned_def)
    have "owned fuel t1 b B P" by (rule owned_frame(1) [OF bp(1)]) (simp_all add: eq)
    then obtain t' where t': "drm_dp_put_mst_branch_device fuel t1 b = Inr t'" "freed False B P t1 t'"
      using releasesD [OF put_branch_releases _ ok] by blast
    then have "vcpi_of t' p = (if p \<in> P then 0 else vcpi_of t p)" for p using eq(2) by (simp add: freed_def vcpi_of_def)
    then have "vcpi_of t' p \<le> 0" for p using bp(2) by (cases "0 < vcpi_of t p") simp_all
    then have "proposals_ok True t'" using t'(2) by (intro proposals_ok_marked) (auto simp: freed_def)
    then show ?thesis using Some t' i tb eq
      by (auto simp: freed_def mst_inv_def refs_ok_def inputs_ok_def table_ok_def split: if_splits)
  qed
qed

lemma set_mst_inv:
  assumes i: "mst_inv f t" and c: "\<not> on \<longrightarrow> channels_owned fuel t"
  shows "sat (\<lambda>(_, t', _). mst_inv f t') (drm_dp_mst_topology_mgr_set_mst dev fuel on t d)"
proof -
  let ?fin = "\<lambda>(ret, mstb, t, d). bnd (case mstb of None \<Rightarrow> Inr t | Some b \<Rightarrow> drm_dp_put_mst_branch_device fuel t b) (\<lambda>t. Inr (ret, t, d))"
  have e: "sat (\<lambda>(_, t', _). mst_inv f t') (?fin r)" if "mst_inv f (fst (snd (snd r)))" for r :: "(err + nat) \<times> ptr option \<times> topology \<times> 'a"
    using that put_branch_device_inv [of f "fst (snd (snd r))" fuel] by (auto intro!: sat_bnd1 [where Q = "mst_inv f"] split: prod.splits option.splits)
  consider "on = mst_state t" | "on" "\<not> mst_state t" | "\<not> on" "mst_state t" by blast
  then show ?thesis
  proof cases
    case 1
    then show ?thesis using i by (simp add: drm_dp_mst_topology_mgr_set_mst_def)
  next
    case 2
    have "mst_inv f (fst (snd (snd r)))" if "mst_on dev (t\<lparr>mst_state := True\<rparr>) d = Inr r" for r
      using mst_on_inv [of f "t\<lparr>mst_state := True\<rparr>" dev d] i that by auto
    then have "sat (\<lambda>(_, t', _). mst_inv f t') (bnd (mst_on dev (t\<lparr>mst_state := True\<rparr>) d) ?fin)" by (intro sat_bnd e)
    then show ?thesis using 2 by (simp add: drm_dp_mst_topology_mgr_set_mst_def)
  next
    case 3
    obtain m t1 d1 where o: "mst_off dev (t\<lparr>mst_state := False\<rparr>) d = (m, t1, d1)" by (metis prod_cases3)
    have "owned n (t\<lparr>mst_state := False\<rparr>) b B P" if "owned n t b B P" for n b B P by (rule owned_frame(1) [OF that]) simp_all
    then have "channels_owned fuel (t\<lparr>mst_state := False\<rparr>)" using c 3
      by (fastforce simp: channels_owned_def vcpi_of_def split: option.splits)
    from mst_off_inv [OF _ this o, of f] show ?thesis using 3 i o by (auto simp: drm_dp_mst_topology_mgr_set_mst_def)
  qed
qed

lemma resume_inv: "mst_inv f t \<Longrightarrow> sat (\<lambda>(_, t', _). mst_inv f t') (drm_dp_mst_topology_mgr_resume dev t d)"
  unfolding drm_dp_mst_topology_mgr_resume_def Let_def by (auto intro!: sat_bnd split: prod.split)

lemma with_port_inv:
  assumes i: "mst_inv f t" and none: "sat P (g (None, t))"
    and some: "\<And>x t. mst_inv f t \<Longrightarrow> mports t p = Some x \<Longrightarrow> sat P (g (Some p, t))"
  shows "sat P (bnd (drm_dp_get_validated_port_ref fuel t p) g)"
  by (rule validated_inv [OF i, where P = "\<lambda>r. sat P (bnd r g)"]) (use none some in auto)

lemma detect_inv:
  assumes "mst_inv f t"
  shows "sat (\<lambda>(_, t', _). mst_inv f t') (drm_dp_mst_detect_port dev fuel t d p)"
  unfolding drm_dp_mst_detect_port_def
proof (rule with_port_inv [OF assms])
  fix x t
  assume i: "mst_inv f t" and x: "mports t p = Some x"
  have "sat (\<lambda>(_, t', _). mst_inv f t') (case r of (status, t, d) \<Rightarrow> bnd (drm_dp_put_port fuel t p) (\<lambda>t. Inr (status, t, d)))"
    if "mst_inv f (fst (snd r))" for r :: "bool \<times> topology \<times> 'a"
    by (cases r) (use that in \<open>auto intro!: sat_bnd1 [OF put_port_device_inv]\<close>)
  moreover have "mst_inv f (put_mport t p (x\<lparr>cached_edid := e\<rparr>))" for e by (rule mst_inv_same [OF i x]) simp_all
  ultimately show "sat (\<lambda>(_, t', _). mst_inv f t') (case (Some p, t) of (r, t) \<Rightarrow> case r of None \<Rightarrow> Inr (False, t, d) | Some p \<Rightarrow>
     bnd (get_mport t p) (\<lambda>x.
     let (status, t, d) =
       (if \<not> port_ddps x then (False, t, d)
        else case pdt x of
          SST_SINK \<Rightarrow>
            if port_num x \<ge> 8 \<and> cached_edid x = None
            then (case drm_get_edid dev d p of (e, d) \<Rightarrow> (True, put_mport t p (x\<lparr>cached_edid := e\<rparr>), d))
            else (True, t, d)
        | DP_LEGACY_CONV \<Rightarrow> (port_ldps x, t, d)
        | _ \<Rightarrow> (False, t, d))
     in bnd (drm_dp_put_port fuel t p) (\<lambda>t. Inr (status, t, d))))"
    using i x by (simp add: get_mport_def Let_def split: peer_device_type.split prod.split)
qed (use assms in simp)

lemma get_edid_inv:
  assumes "mst_inv f t"
  shows "sat (\<lambda>(_, t', _). mst_inv f t') (drm_dp_mst_get_edid dev fuel t d p)"
  unfolding drm_dp_mst_get_edid_def
proof (rule with_port_inv [OF assms])
  fix x t
  assume i: "mst_inv f t" and x: "mports t p = Some x"
  have "sat (\<lambda>(_, t', _). mst_inv f t') (bnd (drm_dp_put_port fuel t p) (\<lambda>t. Inr (e, t, d)))" for e :: "nat option" and d :: 'a
    by (rule sat_bnd1 [OF put_port_device_inv [OF i]]) simp
  then show "sat (\<lambda>(_, t', _). mst_inv f t') (case (Some p, t) of (r, t) \<Rightarrow> case r of None \<Rightarrow> Inr (None, t, d) | Some p \<Rightarrow>
     bnd (get_mport t p) (\<lambda>x.
     let (e, d) = (case cached_edid x of Some e \<Rightarrow> drm_edid_duplicate dev d e | None \<Rightarrow> drm_get_edid dev d p)
     in bnd (drm_dp_put_port fuel t p) (\<lambda>t. Inr (e, t, d))))"
    using x by (simp add: get_mport_def Let_def split: prod.split)
qed (use assms in simp)

end
