(* ===== verification/Dp_Mst_Machine.thy ===== *)
theory Dp_Mst_Machine
  imports Dp_Mst_System
begin

text \<open>
  The topology manager as a step relation, its invariant through the interpretation of \<open>invariant_system\<close>, and the properties of
  the virtual channels.
\<close>

unbundle bit_operations_syntax

section \<open>Steps\<close>

text \<open>
  A manager that has been zeroed and then initialised, with fewer payloads than a mask has bits.
\<close>

definition mst_ini :: "topology \<times> 'd \<Rightarrow> bool" where
  "mst_ini s \<longleftrightarrow> (\<exists>t n. n < 64 \<and> mports t = Map.empty \<and> branches t = Map.empty \<and> payload_mask t = 0 \<and> vcpi_mask t = 0 \<and>
     drm_dp_mst_topology_mgr_init True True n t = (None, fst s))"

text \<open>
  Drivers allocate channels for output ports only.  A probe relies on the allocator and on the devices as the hypotheses say.
  The manager is switched off only when its tree owns the ports that have channels.
\<close>

inductive mst_step :: "(u8 \<Rightarrow> bool) \<Rightarrow> 'd probe_dev \<Rightarrow> topology \<times> 'd \<Rightarrow> topology \<times> 'd \<Rightarrow> bool"
  for f dev where
  step_allocate: "\<not> input_port t p \<Longrightarrow> drm_dp_mst_allocate_vcpi fuel t p pbn = Inr (r, t') \<Longrightarrow> mst_step f dev (t, d) (t', d)"
| step_reset: "drm_dp_mst_reset_vcpi_slots fuel t p = Inr t' \<Longrightarrow> mst_step f dev (t, d) (t', d)"
| step_deallocate: "drm_dp_mst_deallocate_vcpi fuel t p = Inr t' \<Longrightarrow> mst_step f dev (t, d) (t', d)"
| step_part1: "drm_dp_update_payload_part1 (payload_dev.truncate dev) fuel t d = Inr (t', d') \<Longrightarrow> mst_step f dev (t, d) (t', d')"
| step_part2: "drm_dp_update_payload_part2 (payload_dev.truncate dev) fuel t d = Inr (r, t', d') \<Longrightarrow> mst_step f dev (t, d) (t', d')"
| step_probe: "fresh_ports dev \<Longrightarrow> inputs_by_number f dev \<Longrightarrow> drm_dp_mst_link_probe_work dev fuel n t d = Inr (t', d') \<Longrightarrow>
    mst_step f dev (t, d) (t', d')"
| step_update: "drm_dp_update_port dev fuel t d b cs = Inr (t', d') \<Longrightarrow> mst_step f dev (t, d) (t', d')"
| step_set_mst: "(\<not> on \<longrightarrow> channels_owned fuel t) \<Longrightarrow> drm_dp_mst_topology_mgr_set_mst dev fuel on t d = Inr (r, t', d') \<Longrightarrow>
    mst_step f dev (t, d) (t', d')"
| step_suspend: "mst_step f dev (t, d) (t, drm_dp_mst_topology_mgr_suspend dev d)"
| step_resume: "drm_dp_mst_topology_mgr_resume dev t d = Inr (r, t', d') \<Longrightarrow> mst_step f dev (t, d) (t', d')"
| step_detect: "drm_dp_mst_detect_port dev fuel t d p = Inr (c, t', d') \<Longrightarrow> mst_step f dev (t, d) (t', d')"
| step_edid: "drm_dp_mst_get_edid dev fuel t d p = Inr (e, t', d') \<Longrightarrow> mst_step f dev (t, d) (t', d')"
| step_put_port: "drm_dp_put_port fuel t p = Inr t' \<Longrightarrow> mst_step f dev (t, d) (t', d)"

lemma satD: "sat P r \<Longrightarrow> r = Inr x \<Longrightarrow> P x"
  by (simp add: sat_def)

lemma part2_inv: "mst_inv f t \<Longrightarrow> sat (\<lambda>(_, t', _). mst_inv f t') (drm_dp_update_payload_part2 dev fuel t d)"
  unfolding drm_dp_update_payload_part2_def by (rule part2_loop_inv)

lemma mst_step_inv: "mst_step f dev s s' \<Longrightarrow> mst_inv f (fst s) \<Longrightarrow> mst_inv f (fst s')"
proof (induction rule: mst_step.induct)
  case (step_allocate t p fuel pbn r t' d)
  then show ?case using satD [OF alloc_inv] by fastforce
next
  case (step_reset fuel t p t' d)
  then show ?case using satD [OF reset_inv] by fastforce
next
  case (step_deallocate fuel t p t' d)
  then show ?case using satD [OF dealloc_inv] by fastforce
next
  case (step_part1 fuel t d t' d')
  then show ?case using satD [OF part1_inv] by fastforce
next
  case (step_part2 fuel t d r t' d')
  then show ?case using satD [OF part2_inv] by fastforce
next
  case (step_probe fuel n t d t' d')
  then show ?case using satD [OF probe_work_inv] by fastforce
next
  case (step_update fuel t d b cs t' d')
  then show ?case using satD [OF update_port_inv] by fastforce
next
  case (step_set_mst on fuel t d r t' d')
  then show ?case using satD [OF set_mst_inv] by fastforce
next
  case (step_resume t d r t' d')
  then show ?case using satD [OF resume_inv] by fastforce
next
  case (step_detect fuel t d p c t' d')
  then show ?case using satD [OF detect_inv] by fastforce
next
  case (step_edid fuel t d p e t' d')
  then show ?case using satD [OF get_edid_inv] by fastforce
next
  case (step_put_port fuel t p t' d)
  then show ?case using satD [OF put_port_device_inv] by fastforce
qed simp

lemma mst_ini_inv: "mst_ini s \<Longrightarrow> mst_inv f (fst s)"
  by (auto simp: mst_ini_def drm_dp_mst_topology_mgr_init_def mst_inv_def proposals_ok_def refs_ok_def table_ok_def inputs_ok_def
      vcpi_of_def bit_set_bit_iff Let_def dest!: sym [of _ "fst s"])

interpretation mst_machine: invariant_system mst_ini "mst_step f dev" "\<lambda>s. mst_inv f (fst s)" for f and dev :: "'d probe_dev"
  by unfold_locales (rule mst_ini_inv, assumption, rule mst_step_inv)

section \<open>Virtual channels\<close>


text \<open>
  A device with one branch device that has an input port 0 and two sinks, 8 and 9.  Addresses are given out in order; the state of
  the device is the next address.
\<close>

definition dev0 :: "nat probe_dev" where
  "dev0 = \<lparr>drm_dp_dpcd_write = (\<lambda>d _ bs. (Inr (length bs), d)),
     drm_dp_dpcd_read = (\<lambda>d a n. (Inr n, (if n = 16 then replicate 16 1 else [0x12, 0x14, 4]), d)),
     DP_SIDEBAND_MSG_DOWN_REQ_BASE = 0, DP_SIDEBAND_MSG_UP_REP_BASE = 0, DP_SIDEBAND_MSG_DOWN_REP_BASE = 0, DP_SIDEBAND_MSG_UP_REQ_BASE = 0,
     drm_dp_dpcd_readb = (\<lambda>d _. (Inr 3, d)), drm_dp_dpcd_writeb = (\<lambda>d _ _. (Inr 1, d)),
     DP_PAYLOAD_ALLOCATE_SET = 0, DP_PAYLOAD_TABLE_UPDATE_STATUS = 0, DP_PAYLOAD_TABLE_UPDATED = 1, DP_PAYLOAD_ACT_HANDLED = 2,
     request_codes = \<lparr>DP_LINK_ADDRESS = 1, DP_CONNECTION_STATUS_NOTIFY = 2, DP_ENUM_PATH_RESOURCES = 0x10, DP_ALLOCATE_PAYLOAD = 0x11,
       DP_QUERY_PAYLOAD = 0x12, DP_RESOURCE_STATUS_NOTIFY = 0x13, DP_REMOTE_DPCD_READ = 0x20, DP_REMOTE_DPCD_WRITE = 0x21,
       DP_REMOTE_I2C_READ = 0x22, DP_REMOTE_I2C_WRITE = 0x23\<rparr>,
     request_memory = True,
     tx_reply = (\<lambda>d _ _. (Inr \<lparr>reply_type = 0, req_type = 1, reply_u = Link_addr [] 3
       [zero_port\<lparr>input_port := True\<rparr>, zero_port\<lparr>port_number := 8, peer_device_type := 3\<rparr>,
        zero_port\<lparr>port_number := 9, peer_device_type := 3\<rparr>]\<rparr>, d)),
     pdt_of = (\<lambda>c. if c = 2 then MST_BRANCHING else if c = 3 then SST_SINK else if c = 4 then DP_LEGACY_CONV else OTHER_PEER),
     alloc_port = (\<lambda>d t. if mports t d = None then (Some d, d + 1) else (None, d)), alloc_branch = (\<lambda>d t. (Some d, d + 1)),
     stack_bytes = (\<lambda>_. replicate 6 0), get_jiffies_64 = (\<lambda>_. 0), conn_base_id = 1, drm_get_edid = (\<lambda>d _. (None, d)),
     drm_edid_duplicate = (\<lambda>d e. (Some e, d)), other_avail = (\<lambda>_. 0), other_ports = (\<lambda>_. []),
     DP_GUID = 0, DP_MSTM_CTRL = 0, DP_DPCD_REV = 0, DP_RECEIVER_CAP_SIZE = 3, DP_MST_EN = 1, DP_UP_REQ_EN = 2, DP_UPSTREAM_IS_SRC = 4,
     DP_MAX_LANE_COUNT_MASK = 0x1F, DP_LINK_BW = (6, 10, 20)\<rparr>"

definition topo_zero :: topology where
  "topo_zero = \<lparr>branches = Map.empty, mports = Map.empty, mst_primary = None, max_payloads = 0,
     payload_mask = 0, vcpi_mask = 0, proposed_vcpis = [], payloads = [], pbn_div = 0, avail_slots = 0, tx_states = (\<lambda>_. TX_SENT),
     waitq_woken = False, i2c_buses = {}, connectors = Map.empty, hotplugs = 0, mst_state = False, total_slots = 0,
     mgr_dpcd = replicate 3 0, mgr_guid = replicate 16 0, mgr_guid_valid = False, work_queued = False\<rparr>"

definition topo_new :: topology where
  "topo_new = snd (drm_dp_mst_topology_mgr_init True True 3 topo_zero)"

text \<open>The manager is switched on, the topology is probed, and channels are allocated for the two sinks.\<close>

definition run0 :: "trap + topology \<times> nat" where
  "run0 = bnd (drm_dp_mst_topology_mgr_set_mst dev0 2 True topo_new 1) (\<lambda>(_, t, d).
     bnd (drm_dp_mst_link_probe_work dev0 2 3 t d) (\<lambda>(t, d).
     bnd (if input_port t 3 then Inl Oob else drm_dp_mst_allocate_vcpi 2 t 3 50) (\<lambda>(_, t).
     bnd (if input_port t 4 then Inl Oob else drm_dp_mst_allocate_vcpi 2 t 4 100) (\<lambda>(_, t). Inr (t, d)))))"

lemma run0_reach:
  assumes "run0 = Inr s"
  shows "reach mst_ini (mst_step (\<lambda>n. n = 0) dev0) s"
proof -
  obtain r1 t1 d1 where 1: "drm_dp_mst_topology_mgr_set_mst dev0 2 True topo_new 1 = Inr (r1, t1, d1)"
    using assms by (auto simp: run0_def bnd_Inr_iff)
  obtain t2 d2 where 2: "drm_dp_mst_link_probe_work dev0 2 3 t1 d1 = Inr (t2, d2)"
    using assms 1 by (auto simp: run0_def bnd_Inr_iff)
  obtain r3 t3 where 3: "\<not> input_port t2 3" "drm_dp_mst_allocate_vcpi 2 t2 3 50 = Inr (r3, t3)"
    using assms 1 2 by (auto simp: run0_def bnd_Inr_iff split: if_splits)
  obtain r4 t4 where 4: "\<not> input_port t3 4" "drm_dp_mst_allocate_vcpi 2 t3 4 100 = Inr (r4, t4)" "s = (t4, d2)"
    using assms 1 2 3 by (auto simp: run0_def bnd_Inr_iff split: if_splits)
  have hyps: "fresh_ports dev0" "inputs_by_number (\<lambda>n. n = 0) dev0"
    by (auto simp: fresh_ports_def inputs_by_number_def dev0_def reply_ports_def zero_port_def split: if_splits)
  have "mst_ini (topo_new, 1)" unfolding mst_ini_def
    by (intro exI [of _ topo_zero] exI [of _ 3]) (simp add: topo_new_def topo_zero_def drm_dp_mst_topology_mgr_init_def Let_def)
  from reach_init [of mst_ini, OF this]
  have "reach mst_ini (mst_step (\<lambda>n. n = 0) dev0) (t1, d1)" by (rule reach_step) (rule step_set_mst [OF _ 1], simp)
  then have "reach mst_ini (mst_step (\<lambda>n. n = 0) dev0) (t2, d2)" by (rule reach_step) (rule step_probe [OF hyps 2])
  then have "reach mst_ini (mst_step (\<lambda>n. n = 0) dev0) (t3, d2)" by (rule reach_step) (rule step_allocate [OF 3])
  then show ?thesis unfolding 4(3) by (rule reach_step) (rule step_allocate [OF 4(1,2)])
qed

lemma run0_result:
  "case run0 of Inl _ \<Rightarrow> False | Inr (t, d) \<Rightarrow> vcpi_of t 3 = 1 \<and> vcpi_of t 4 = 2 \<and> proposed_vcpis t = [Some 3, Some 4, None]"
  by code_simp


section \<open>Time slots\<close>

text \<open>
  C37: in a reachable state in which the objects of the tree are there and every payload with slots has a proposal, the first part
  of an update of the payload table succeeds.  Afterwards the payloads with slots have them one after the other from slot 1 on,
  without a gap and without an overlap, and their numbers of slots are those of the channels that are proposed, in that order.
\<close>

theorem drm_dp_update_payload_part1_slots:
  assumes "reach mst_ini (mst_step f dev) (t, d)" and "live_topology fuel t"
    and "\<forall>i < max_payloads t. proposed_vcpis t ! i = None \<longrightarrow> payload_num_slots (payloads t ! i) = 0"
  shows "\<exists>t' d'. drm_dp_update_payload_part1 (payload_dev.truncate dev) fuel t d = Inr (t', d') \<and> contiguous 1 (payloads t') \<and>
    slot_counts (payloads t') = filter (\<lambda>n. n \<noteq> 0) (map (slots_of t) (proposed_vcpis t)) \<and> mports t' = mports t"
proof -
  have "mst_inv f t" using mst_machine.reach_inv [OF assms(1)] by simp
  then show ?thesis
    using part1_correct [OF _ _ assms(2) _ assms(3), of "payload_dev.truncate dev" d] by (auto simp: mst_inv_def same_channels_def)
qed

lemma run0_live:
  "case run0 of Inl _ \<Rightarrow> False | Inr (t, d) \<Rightarrow> live_topology 2 t \<and>
     (\<forall>i \<in> set [0..<3]. proposed_vcpis t ! i = None \<longrightarrow> payload_num_slots (payloads t ! i) = 0) \<and> max_payloads t = 3 \<and>
     map (slots_of t) (proposed_vcpis t) = [2, 3, 0]"
  by code_simp

theorem drm_dp_update_payload_part1_slots_witness:
  "\<exists>t d t' d'. run0 = Inr (t, d) \<and> drm_dp_update_payload_part1 (payload_dev.truncate dev0) 2 t d = Inr (t', d') \<and>
     contiguous 1 (payloads t') \<and> slot_counts (payloads t') = [2, 3]"
proof -
  obtain t d where r: "run0 = Inr (t, d)" "live_topology 2 t" "max_payloads t = 3" "map (slots_of t) (proposed_vcpis t) = [2, 3, 0]"
      "\<forall>i \<in> set [0..<3]. proposed_vcpis t ! i = None \<longrightarrow> payload_num_slots (payloads t ! i) = 0"
    using run0_live by (auto split: sum.splits)
  have "\<forall>i < max_payloads t. proposed_vcpis t ! i = None \<longrightarrow> payload_num_slots (payloads t ! i) = 0" using r(3,5) by simp
  from drm_dp_update_payload_part1_slots [OF run0_reach [OF r(1)] r(2) this] r(1,4) show ?thesis by auto
qed

section \<open>What the code leaves open\<close>

text \<open>The slots that are available do not become fewer: two channels get all of them.\<close>

lemma slots_overcommitted:
  "case bnd (drm_dp_mst_allocate_vcpi 2 topo0 10 2560) (\<lambda>(r, t). bnd (drm_dp_mst_allocate_vcpi 2 t 20 2560) (\<lambda>(s, t). Inr (r, s, avail_slots t)))
   of Inl _ \<Rightarrow> False | Inr x \<Rightarrow> x = (Some 64, Some 64, 64)"
  by code_simp

text \<open>Allocating a channel again keeps a reference to the port.\<close>

lemma allocate_leaks_reference:
  "case bnd (drm_dp_mst_allocate_vcpi 2 topo0 10 40) (\<lambda>(_, t). drm_dp_mst_allocate_vcpi 2 t 10 40) of Inl _ \<Rightarrow> False
   | Inr (r, t) \<Rightarrow> r = Some 1 \<and> map_option port_kref (mports topo0 10) = Some 1 \<and> map_option port_kref (mports t 10) = Some 2"
  by code_simp

text \<open>A channel that is given back while its payload still has slots is no longer there when the table is updated.\<close>

lemma deallocate_before_update:
  "bnd (drm_dp_update_payload_part1 (payload_dev.truncate dev0) 2 topo0 0) (\<lambda>(t, d).
   bnd (drm_dp_mst_deallocate_vcpi 2 t 20) (\<lambda>t.
   map_sum id (\<lambda>_. ()) (drm_dp_update_payload_part1 (payload_dev.truncate dev0) 2 t d))) = Inl Null_deref"
  by code_simp

text \<open>A device that reports no lanes makes the manager divide by zero.\<close>

lemma no_lanes_divide_by_zero:
  "map_sum id (\<lambda>_. ()) (drm_dp_mst_topology_mgr_set_mst (dev0\<lparr>drm_dp_dpcd_read := (\<lambda>d a n. (Inr n, [0x12, 0x14, 0], d))\<rparr>) 2 True topo_new 1) =
   Inl Div_by_zero"
  by code_simp

text \<open>Switching on that fails leaves the manager switched on, without a primary device; switching on again does nothing.\<close>

lemma failed_set_mst_stays_on:
  "case drm_dp_mst_topology_mgr_set_mst (dev0\<lparr>drm_dp_dpcd_read := (\<lambda>d a n. (Inl EIO, [], d))\<rparr>) 2 True topo_new 1 of Inl _ \<Rightarrow> False
   | Inr (r, t, d) \<Rightarrow> r = Inl EIO \<and> mst_state t \<and> mst_primary t = None \<and>
       (case drm_dp_mst_topology_mgr_set_mst dev0 2 True t d of Inl _ \<Rightarrow> False | Inr (r, t, _) \<Rightarrow> r = Inr 0 \<and> mst_primary t = None)"
  by code_simp

text \<open>
  A port whose reference has leaked keeps its channel and its proposal when the manager is switched off, but the mask forgets the
  id: the guard of the step is needed.
\<close>

lemma channel_kept_after_leak:
  "case bnd (drm_dp_mst_allocate_vcpi 2 topo0 10 40) (\<lambda>(_, t).
     bnd (drm_dp_mst_allocate_vcpi 2 t 10 40) (\<lambda>(_, t). drm_dp_mst_topology_mgr_set_mst dev0 3 False t 0))
   of Inl _ \<Rightarrow> False | Inr (_, t, _) \<Rightarrow> vcpi_of t 10 = 2 \<and> vcpi_mask t = 0 \<and> Some 10 \<in> set (proposed_vcpis t) \<and> mst_primary t = None"
  by code_simp

end
