(* ===== verification/Spec2Isabelle.thy ===== *)
theory Spec2Isabelle
  imports Ttm_Lock Drm_Hashtab Drm_Auth Drm_Mm_System I915_Evict Drm_Vma_Offsets Atom_Props Dp_Mst_Tx_Props Dp_Mst_Machine
begin

text \<open>
  A verification of parts of the Linux direct rendering manager.  The sources are the core files
  \<^verbatim>\<open>src/drm_*.c\<close>, the buffer manager \<^verbatim>\<open>src/ttm\<close> and one directory per driver.  The development covers
  the parts that are algorithms over data of their own: tables, allocators, protocols and interpreters.

  \<^bold>\<open>Conventions.\<close>  \<open>Drm_Prelude\<close> has the C integers as words of their width, the errors, the sequencing \<open>bnd\<close>
  of operations that may fail, and the two general locales: \<open>invariant_system\<close>, a step relation with an invariant that
  every step keeps, and \<open>refinement\<close>, an implementation with an abstraction function and a specification.  A negative
  \<^verbatim>\<open>errno\<close> and a \<^verbatim>\<open>BUG_ON\<close> that fires are values of type \<open>err\<close>; an access outside an array, a null pointer, a
  use after free, an undefined shift or a division by zero is a value of the \<open>trap\<close> type, so that a theorem that a function
  returns \<open>Inr\<close> says that none of these happens.  Functions keep the names of the source.  A spinlock or mutex that a
  function holds from its beginning to its end makes the function one step.

  \<^bold>\<open>Code outside the sources\<close> is an argument: the inline functions of \<^verbatim>\<open>drm_mm.h\<close> (\<open>mm_hdr\<close>, with what is relied on in
  \<open>hdr_ok\<close>), the red-black trees of the kernel (\<open>rb_lib\<close>, \<open>rb_ok\<close>), \<^verbatim>\<open>hash_long\<close>, the results of allocations, the
  register accessors of a card (\<open>card_info\<close>), the DPCD registers and codes of the DisplayPort headers (\<open>dpcd\<close>,
  \<open>payload_dev\<close>, \<open>probe_dev\<close>).  The witnesses instantiate them with concrete functions.

  \<^bold>\<open>The parts.\<close>

  \<^item> \<^verbatim>\<open>ttm/ttm_lock.c\<close>, theory \<open>Ttm_Lock\<close>.  The lock word, its flags and its wait queue; a blocking function is a
    thread that evaluates its condition again after every wake-up.  Over all interleavings readers and a writer exclude
    one another, no wake-up is lost, and the interruptible write lock excludes everybody.  The uninterruptible
    write lock takes a read lock.

  \<^item> \<^verbatim>\<open>drm_hashtab.c\<close>, theory \<open>Drm_Hashtab\<close>, and its client \<^verbatim>\<open>drm_auth.c\<close>, theory \<open>Drm_Auth\<close>.  The table implements a
    finite map: the locale \<open>key_table\<close> states what clients rely on, the table interprets it, and the theorems on
    magic numbers (unique, found again by the master) rest on the interpretation.

  \<^item> \<^verbatim>\<open>drm_mm.c\<close>.  \<open>Drm_Mm\<close> has the operations, \<open>Drm_Mm_Inv\<close> the invariant of the ring of nodes and the hole stack,
    \<open>Drm_Mm_Alloc\<close> and \<open>Drm_Mm_Reserve\<close> the searches, insertions and reservations, \<open>Drm_Mm_Free\<close> the removal,
    \<open>Drm_Mm_Scan\<close> the scan, \<open>Drm_Mm_System\<close> the allocator as a state machine whose allocated ranges are disjoint in
    every reachable state.

  \<^item> \<^verbatim>\<open>i915/i915_gem_evict.c\<close>, theory \<open>I915_Evict\<close>, a client of the scan: an eviction that returns 0 leaves a free range
    for the request, and one that finds nothing restores the allocator.

  \<^item> \<^verbatim>\<open>drm_vma_manager.c\<close>, a client of the allocator.  \<open>Drm_Vma_Manager\<close> has the operations; \<open>Drm_Vma_Files\<close> shows
    that the tree of open files of a node refines a function from files to counts, \<open>Drm_Vma_Offsets\<close> that the manager
    refines a set of disjoint areas that are found by any of their pages.

  \<^item> \<^verbatim>\<open>radeon/atom.c\<close>, \<^verbatim>\<open>atom.h\<close>, \<^verbatim>\<open>atom-bits.h\<close>.  \<open>Atom\<close> has the interpreter with every opcode, \<open>Atom_Props\<close> the
    properties: arithmetic on operand fields, the round trip of operand access, that skipping an operand moves the
    pointer as reading it does, termination of indirect I/O, the guard against stuck loops, and accesses outside of the scratch area.

  \<^item> \<^verbatim>\<open>drm_dp_mst_topology.c\<close>.  \<open>Dp_Mst_Msg\<close> and \<open>Dp_Mst_Tx\<close> have the sideband messages, their chunks, queues and
    transfer, with the properties in \<open>Dp_Mst_Msg_Props\<close> and \<open>Dp_Mst_Tx_Props\<close>: headers round trip, and what a receiver puts
    together is what was sent.  \<open>Dp_Mst_Topology\<close> has the tree of branch devices and ports with its reference counts,
    \<open>Dp_Mst_Payload\<close> the virtual channels and the payload table, \<open>Dp_Mst_Probe\<close> the discovery of the
    topology, switching on and off, suspend and resume.  \<open>Dp_Mst_Topology_Props\<close> shows that the validation of a
    pointer accepts exactly the ports of the tree, \<open>Dp_Mst_Release\<close> that a release frees what it owns and leaves no
    proposal behind, \<open>Dp_Mst_Payload_Props\<close> that the payloads get consecutive slots.  \<open>Dp_Mst_Payload_System\<close>, \<open>Dp_Mst_System\<close>
    and \<open>Dp_Mst_Machine\<close> put the operations together in one step relation: the ids of channels are distinct in every
    reachable state.  Its hypotheses are that the allocator returns unused addresses (\<open>fresh_ports\<close>), that the number of a
    port tells whether it is an input (\<open>inputs_by_number\<close>), and that no port with a channel outlives the
    topology when it is switched off (\<open>channels_owned\<close>); a lemma shows what happens without the last one.

  \<^bold>\<open>Fuel.\<close>  Loops whose end depends on data have fuel, and running out of it is a value of its own.  The
  rounds of \<^verbatim>\<open>drm_ht_just_insert_please\<close> and of \<^verbatim>\<open>drm_getmagic\<close> need at most one more round than there are
  keys, which the theorems show.  The methods of indirect I/O move forward through the image by at
  least one byte, so that the bytes up to their end are enough; a command table may loop for ever on purpose, and the theorem on it is
  about the guard that stops it.  The searches and releases of the DisplayPort tree need the depth of the tree, and the theorems
  assume a tree of that depth (\<open>live_topology\<close>).

  \<^bold>\<open>Not modelled.\<close>  In the parts above: output for debugging; \<^verbatim>\<open>i915_gem_evict_vm\<close> and \<^verbatim>\<open>i915_gem_evict_everything\<close>,
  which only run the driver's unbinding over lists; the dispatch of received DisplayPort messages (\<^verbatim>\<open>drm_dp_mst_handle_down_rep\<close>,
  \<^verbatim>\<open>drm_dp_mst_handle_up_req\<close>, \<^verbatim>\<open>drm_dp_mst_hpd_irq\<close>), \<^verbatim>\<open>drm_dp_calc_pbn_mode\<close>, whose fixed-point arithmetic is in a header,
  and the I2C adapter.  Of the rest of the tree: mode setting, EDID and the GEM objects, whose data structures are
  declared in headers outside of the sources and which call driver functions at nearly every step; the
  registration with the kernel, files and user memory; and the drivers, which program registers whose behaviour the sources do not
  describe.
\<close>

end
